(* ===== verification/WS_Prelude.thy ===== *)
theory WS_Prelude
  imports Main "HOL-Library.Word" "HOL-Library.Monad_Syntax"
begin

text \<open>
  Shared vocabulary of the development: the machine types of the C code, the memory
  primitives every component copies bytes with, the host byte order of integers, and the
  collections of facts the component proofs use.

  \<^item> A C object in memory is the list of its bytes. Every access is checked against the
    object's extent, and an access outside it gives \<open>None\<close>: throughout the development
    \<open>None\<close> stands for undefined behaviour of the C program, never for an error it reports.
  \<^item> \<open>size_t\<close> and \<open>uint64_t\<close> are natural numbers below \<open>2 ^ 64\<close>; the operations
    that can wrap around are written out (\<open>add64\<close>, \<open>sub64\<close>, \<open>mul64\<close>).
  \<^item> The target is little-endian (Apple Silicon); \<open>store_le\<close> and \<open>load_le\<close> are the
    bytes of an integer in memory.
\<close>

unbundle bit_operations_syntax

type_synonym byte = "8 word"
type_synonym size_t = nat
type_synonym u64 = nat
type_synonym u32 = nat
type_synonym addr = "64 word"

named_theorems arith64 \<open>64-bit operations inside their range\<close>
named_theorems mem_simps \<open>checked memory accesses that stay inside the object\<close>
named_theorems post_rules \<open>rules for the postcondition of a program text\<close>

subsection \<open>Unsigned 64-bit arithmetic\<close>

definition add64 :: "nat \<Rightarrow> nat \<Rightarrow> nat" where
  "add64 a b = (a + b) mod 2 ^ 64"

definition sub64 :: "nat \<Rightarrow> nat \<Rightarrow> nat" where
  "sub64 a b = (a + (2 ^ 64 - b mod 2 ^ 64)) mod 2 ^ 64"

definition mul64 :: "nat \<Rightarrow> nat \<Rightarrow> nat" where
  "mul64 a b = (a * b) mod 2 ^ 64"

definition umod :: "nat \<Rightarrow> nat \<Rightarrow> nat option" where
  "umod a b = (if b = 0 then None else Some (a mod b))"

definition udiv :: "nat \<Rightarrow> nat \<Rightarrow> nat option" where
  "udiv a b = (if b = 0 then None else Some (a div b))"

text \<open>Conversion of a signed integer to \<open>uint64_t\<close>.\<close>

definition u64_of_int :: "int \<Rightarrow> u64" where
  "u64_of_int i = nat (i mod 2 ^ 64)"

subsection \<open>Memory\<close>

definition mem_get :: "byte list \<Rightarrow> nat \<Rightarrow> byte option" where
  "mem_get m i = (if i < length m then Some (m ! i) else None)"

definition mem_read :: "byte list \<Rightarrow> nat \<Rightarrow> nat \<Rightarrow> byte list option" where
  "mem_read m off n = (if off + n \<le> length m then Some (take n (drop off m)) else None)"

definition mem_write :: "byte list \<Rightarrow> nat \<Rightarrow> byte list \<Rightarrow> byte list option" where
  "mem_write m off bs =
     (if off + length bs \<le> length m
      then Some (take off m @ bs @ drop (off + length bs) m) else None)"

text \<open>Checked access to an array of objects by a signed index.\<close>

definition arr_get :: "'a list \<Rightarrow> int \<Rightarrow> 'a option" where
  "arr_get xs i = (if 0 \<le> i \<and> nat i < length xs then Some (xs ! nat i) else None)"

definition arr_set :: "'a list \<Rightarrow> int \<Rightarrow> 'a \<Rightarrow> 'a list option" where
  "arr_set xs i x = (if 0 \<le> i \<and> nat i < length xs then Some (xs[nat i := x]) else None)"

text \<open>\<open>memcpy(dst + doff, src + soff, n)\<close>, checked on both sides.\<close>

definition memcpy :: "byte list \<Rightarrow> nat \<Rightarrow> byte list \<Rightarrow> nat \<Rightarrow> nat \<Rightarrow> byte list option" where
  "memcpy dst doff src soff n = do { bs \<leftarrow> mem_read src soff n; mem_write dst doff bs }"

subsection \<open>Integers in memory\<close>

fun store_le :: "nat \<Rightarrow> nat \<Rightarrow> byte list" where
  "store_le 0 x = []"
| "store_le (Suc n) x = of_nat (x mod 256) # store_le n (x div 256)"

fun load_le :: "byte list \<Rightarrow> nat" where
  "load_le [] = 0"
| "load_le (b # bs) = unat b + 256 * load_le bs"

text \<open>
  \<open>ntohs\<close>, \<open>htons\<close> and \<open>__builtin_bswap64\<close> on the little-endian target: the bytes of
  the integer in reverse order.
\<close>

definition bswap16 :: "nat \<Rightarrow> nat" where
  "bswap16 x = load_le (rev (store_le 2 x))"

definition bswap64 :: "nat \<Rightarrow> nat" where
  "bswap64 x = load_le (rev (store_le 8 x))"

subsection \<open>Facts on 64-bit arithmetic\<close>

lemma add64_exact [arith64]: "a + b < 2 ^ 64 \<Longrightarrow> add64 a b = a + b"
  by (simp add: add64_def)

lemma sub64_exact [arith64]:
  assumes "b \<le> a" and "a < 2 ^ 64"
  shows "sub64 a b = a - b"
proof -
  have "a + (2 ^ 64 - b) = (a - b) + 2 ^ 64"
    using assms by simp
  then have "sub64 a b = ((a - b) + 2 ^ 64) mod 2 ^ 64"
    using assms by (simp only: sub64_def mod_less)
  also have "\<dots> = a - b"
    using assms by (simp only: mod_add_self2 mod_less less_imp_diff_less)
  finally show ?thesis .
qed

lemma mul64_exact [arith64]: "a * b < 2 ^ 64 \<Longrightarrow> mul64 a b = a * b"
  by (simp add: mul64_def)

lemma add64_less [simp]: "add64 a b < 2 ^ 64"
  by (simp add: add64_def)

lemma sub64_less [simp]: "sub64 a b < 2 ^ 64"
  by (simp add: sub64_def)

lemma umod_pos [simp]: "0 < b \<Longrightarrow> umod a b = Some (a mod b)"
  by (simp add: umod_def)

text \<open>The C idiom \<^verbatim>\<open>a < b ? a : b\<close>.\<close>

lemma udiv_pos [simp]: "0 < b \<Longrightarrow> udiv a b = Some (a div b)"
  by (simp add: udiv_def)

lemma arr_get_in [mem_simps]: "0 \<le> i \<Longrightarrow> nat i < length xs \<Longrightarrow> arr_get xs i = Some (xs ! nat i)"
  by (simp add: arr_get_def)

lemma arr_set_in [mem_simps]: "0 \<le> i \<Longrightarrow> nat i < length xs \<Longrightarrow> arr_set xs i x = Some (xs[nat i := x])"
  by (simp add: arr_set_def)

lemma find_upt_Some: "find P [0..<n] = Some p \<longleftrightarrow> p < n \<and> P p \<and> (\<forall>q<p. \<not> P q)"
  by (auto simp: find_Some_iff)

lemma find_upt_None: "find P [0..<n] = None \<longleftrightarrow> (\<forall>q<n. \<not> P q)"
  by (simp add: find_None_iff)

lemma map_list_update_same: "f y = f (xs ! i) \<Longrightarrow> map f (xs[i := y]) = map f xs"
  by (induction xs arbitrary: i) (auto split: nat.splits)

lemma if_less_min: "(if (a :: nat) < b then a else b) = min a b"
  by (simp add: min_def)

subsection \<open>Facts on memory\<close>

lemma mem_get_in [mem_simps]: "i < length m \<Longrightarrow> mem_get m i = Some (m ! i)"
  by (simp add: mem_get_def)

lemma mem_read_in [mem_simps]:
  "off + n \<le> length m \<Longrightarrow> mem_read m off n = Some (take n (drop off m))"
  by (simp add: mem_read_def)

lemma mem_write_in [mem_simps]:
  "off + length bs \<le> length m \<Longrightarrow>
   mem_write m off bs = Some (take off m @ bs @ drop (off + length bs) m)"
  by (simp add: mem_write_def)

lemma mem_write_length: "mem_write m off bs = Some m' \<Longrightarrow> length m' = length m"
  by (auto simp: mem_write_def split: if_splits)

lemma memcpy_in [mem_simps]:
  assumes "soff + n \<le> length src" and "doff + n \<le> length dst"
  shows "memcpy dst doff src soff n =
           Some (take doff dst @ take n (drop soff src) @ drop (doff + n) dst)"
proof -
  have "length (take n (drop soff src)) = n"
    using assms(1) by simp
  with assms show ?thesis
    by (simp add: memcpy_def mem_read_in mem_write_in)
qed

lemma memcpy_nth:
  assumes "soff + n \<le> length src" and "doff + n \<le> length dst"
  obtains m where "memcpy dst doff src soff n = Some m" and "length m = length dst"
    and "\<forall>j < length dst. m ! j =
           (if doff \<le> j \<and> j < doff + n then src ! (soff + (j - doff)) else dst ! j)"
proof (rule that [OF memcpy_in [OF assms]])
  show "\<forall>j < length dst.
      (take doff dst @ take n (drop soff src) @ drop (doff + n) dst) ! j =
      (if doff \<le> j \<and> j < doff + n then src ! (soff + (j - doff)) else dst ! j)"
    using assms by (auto simp: nth_append)
qed (use assms in simp)

lemma memcpy_length: "memcpy dst doff src soff n = Some m \<Longrightarrow> length m = length dst"
  by (auto simp: memcpy_def mem_write_length bind_eq_Some_conv)

subsection \<open>Facts on integers in memory\<close>

lemma unat_byte_less: "unat (b :: byte) < 256"
  using unsigned_less [of b] by simp

lemma length_store_le [simp]: "length (store_le n x) = n"
  by (induction n arbitrary: x) auto

lemma load_store_le [simp]: "load_le (store_le n x) = x mod 256 ^ n"
proof (induction n arbitrary: x)
  case (Suc n)
  have "unat (of_nat (x mod 256) :: byte) = x mod 256"
    by (simp add: unat_of_nat)
  moreover have "x mod 256 ^ Suc n = 256 * ((x div 256) mod 256 ^ n) + x mod 256"
    by (simp add: mod_mult2_eq)
  ultimately show ?case
    using Suc.IH by simp
qed simp

lemma store_load_le [simp]: "store_le (length bs) (load_le bs) = bs"
proof (induction bs)
  case (Cons b bs)
  have "unat b < 256"
    by (rule unat_byte_less)
  then have "(unat b + 256 * load_le bs) mod 256 = unat b"
    and "(unat b + 256 * load_le bs) div 256 = load_le bs"
    by simp_all
  with Cons.IH show ?case
    by simp
qed simp

lemma load_le_less: "load_le bs < 256 ^ length bs"
proof (induction bs)
  case (Cons b bs)
  have "unat b < 256"
    by (rule unat_byte_less)
  with Cons.IH show ?case
    by simp
qed simp

lemma bswap64_bswap64 [simp]:
  assumes "x < 2 ^ 64"
  shows "bswap64 (bswap64 x) = x"
proof -
  have "store_le 8 (load_le (rev (store_le 8 x))) = rev (store_le 8 x)"
    using store_load_le [of "rev (store_le 8 x)"] by simp
  then show ?thesis
    using assms by (simp add: bswap64_def)
qed

lemma bswap16_bswap16 [simp]:
  assumes "x < 2 ^ 16"
  shows "bswap16 (bswap16 x) = x"
proof -
  have "store_le 2 (load_le (rev (store_le 2 x))) = rev (store_le 2 x)"
    using store_load_le [of "rev (store_le 2 x)"] by simp
  then show ?thesis
    using assms by (simp add: bswap16_def)
qed

subsection \<open>Postconditions\<close>

text \<open>
  \<open>post m P\<close>: if the computation \<open>m\<close> returns, its result satisfies \<open>P\<close>. The rules follow the
  program text.
\<close>

definition post :: "'a option \<Rightarrow> ('a \<Rightarrow> bool) \<Rightarrow> bool" where
  "post m P \<longleftrightarrow> (\<forall>x. m = Some x \<longrightarrow> P x)"

lemma post_Some [simp]: "post (Some x) P = P x"
  by (simp add: post_def)

lemma post_None [simp]: "post None P"
  by (simp add: post_def)

lemma postD: "post m P \<Longrightarrow> m = Some x \<Longrightarrow> P x"
  by (simp add: post_def)

lemma postI: "(\<And>x. m = Some x \<Longrightarrow> P x) \<Longrightarrow> post m P"
  by (simp add: post_def)

lemma post_mono: "post m P \<Longrightarrow> (\<And>x. P x \<Longrightarrow> Q x) \<Longrightarrow> post m Q"
  by (simp add: post_def)

lemma post_bind [post_rules]: "post m (\<lambda>x. post (f x) P) \<Longrightarrow> post (Option.bind m f) P"
  by (auto simp: post_def bind_eq_Some_conv)

lemma post_map [post_rules]: "post m (\<lambda>x. P (f x)) \<Longrightarrow> post (map_option f m) P"
  by (auto simp: post_def)

lemma post_if [post_rules]: "(b \<Longrightarrow> post m P) \<Longrightarrow> (\<not> b \<Longrightarrow> post n P) \<Longrightarrow> post (if b then m else n) P"
  by simp

lemma post_case_prod [post_rules]: "(\<And>a b. x = (a, b) \<Longrightarrow> post (f a b) P) \<Longrightarrow> post (case x of (a, b) \<Rightarrow> f a b) P"
  by (cases x) simp

lemma post_case_option [post_rules]:
  "(x = None \<Longrightarrow> post m P) \<Longrightarrow> (\<And>y. x = Some y \<Longrightarrow> post (f y) P) \<Longrightarrow> post (case x of None \<Rightarrow> m | Some y \<Rightarrow> f y) P"
  by (cases x) simp_all

lemma post_case_pair [post_rules]: "post (f a b) P \<Longrightarrow> post (case (a, b) of (a, b) \<Rightarrow> f a b) P"
  by simp

lemma post_let [post_rules]: "post (f x) P \<Longrightarrow> post (Let x f) P"
  by simp

lemma post_return [post_rules]: "P x \<Longrightarrow> post (Some x) P"
  by simp

lemma post_undefined [post_rules]: "post None P"
  by simp

end
