(* ===== verification/Byte_Fifo.thy ===== *)
theory Byte_Fifo
  imports WS_Prelude
begin

text \<open>
  What the producers and consumers of a byte ring rely on: a bounded queue of bytes that
  accepts a prefix of what is offered, hands out what it holds in order, and never faults
  while its invariant holds. The laws speak of the queue's contents as a list. The client
  facts are proved from the laws alone.
\<close>

text \<open>A run of a queue: which bytes were accepted, which were handed out, and the end state.\<close>

datatype fifo_op = Put "byte list" | Get nat

fun fifo_run ::
  "('q \<Rightarrow> byte list \<Rightarrow> (nat \<times> 'q) option) \<Rightarrow> ('q \<Rightarrow> nat \<Rightarrow> (byte list \<times> 'q) option)
   \<Rightarrow> 'q \<Rightarrow> fifo_op list \<Rightarrow> (byte list \<times> byte list \<times> 'q) option" where
  "fifo_run put get q [] = Some ([], [], q)"
| "fifo_run put get q (Put d # ops) =
     do {
       (n, q1) \<leftarrow> put q d;
       (ins, outs, q2) \<leftarrow> fifo_run put get q1 ops;
       Some (take n d @ ins, outs, q2)
     }"
| "fifo_run put get q (Get k # ops) =
     do {
       (bs, q1) \<leftarrow> get q k;
       (ins, outs, q2) \<leftarrow> fifo_run put get q1 ops;
       Some (ins, bs @ outs, q2)
     }"

locale byte_fifo =
  fixes put :: "'q \<Rightarrow> byte list \<Rightarrow> (nat \<times> 'q) option"
    and get :: "'q \<Rightarrow> nat \<Rightarrow> (byte list \<times> 'q) option"
    and contents :: "'q \<Rightarrow> byte list"
    and capacity :: "'q \<Rightarrow> nat"
    and inv :: "'q \<Rightarrow> bool"
  assumes put_law: "inv q \<Longrightarrow>
      \<exists>q'. put q d = Some (min (length d) (capacity q - length (contents q)), q') \<and>
           inv q' \<and> capacity q' = capacity q \<and>
           contents q' = contents q @ take (capacity q - length (contents q)) d"
    and get_law: "inv q \<Longrightarrow>
      \<exists>q'. get q k = Some (take k (contents q), q') \<and>
           inv q' \<and> capacity q' = capacity q \<and> contents q' = drop k (contents q)"
    and bounded: "inv q \<Longrightarrow> length (contents q) \<le> capacity q"
begin

lemma put_fits:
  assumes "inv q" and "length (contents q) + length d \<le> capacity q"
  obtains q' where "put q d = Some (length d, q')" and "inv q'" and "capacity q' = capacity q"
    and "contents q' = contents q @ d"
proof -
  have "min (length d) (capacity q - length (contents q)) = length d"
    using assms(2) by simp
  with put_law [OF assms(1), of d] assms(2) show ?thesis
    by (auto intro: that)
qed

lemma put_full:
  assumes "inv q" and "length (contents q) = capacity q"
  obtains q' where "put q d = Some (0, q')" and "inv q'" and "contents q' = contents q"
  using put_law [OF assms(1), of d] assms(2) by auto

lemma put_get_roundtrip:
  assumes "inv q" and "contents q = []" and "length d \<le> capacity q"
  obtains q1 q2 where "put q d = Some (length d, q1)" and "get q1 (length d) = Some (d, q2)"
    and "inv q2" and "contents q2 = []"
proof -
  obtain q1 where q1: "put q d = Some (length d, q1)" "inv q1" "contents q1 = d"
    using put_fits [OF assms(1), of d] assms(2,3) by auto
  with get_law [OF q1(2), of "length d"] obtain q2 where
    "get q1 (length d) = Some (d, q2)" "inv q2" "contents q2 = []"
    by auto
  with q1(1) show ?thesis
    by (rule that)
qed

lemma run_fifo:
  assumes "inv q"
  shows "\<exists>ins outs q'. fifo_run put get q ops = Some (ins, outs, q') \<and> inv q' \<and>
           capacity q' = capacity q \<and> contents q @ ins = outs @ contents q'"
  using assms
proof (induction ops arbitrary: q)
  case Nil
  then show ?case by simp
next
  case (Cons op ops)
  show ?case
  proof (cases op)
    case (Put d)
    let ?k = "capacity q - length (contents q)"
    from put_law [OF Cons.prems, of d] obtain q1 where
      q1: "put q d = Some (min (length d) ?k, q1)" "inv q1" "capacity q1 = capacity q"
        "contents q1 = contents q @ take ?k d"
      by auto
    moreover obtain ins outs q' where "fifo_run put get q1 ops = Some (ins, outs, q')" "inv q'"
      "capacity q' = capacity q1" "contents q1 @ ins = outs @ contents q'"
      using Cons.IH [OF q1(2)] by auto
    moreover have "take (min (length d) ?k) d = take ?k d"
      by (simp add: min_def)
    ultimately show ?thesis
      using Put by simp
  next
    case (Get k)
    from get_law [OF Cons.prems, of k] obtain q1 where
      q1: "get q k = Some (take k (contents q), q1)" "inv q1" "capacity q1 = capacity q"
        "contents q1 = drop k (contents q)"
      by auto
    moreover obtain ins outs q' where "fifo_run put get q1 ops = Some (ins, outs, q')" "inv q'"
      "capacity q' = capacity q1" "contents q1 @ ins = outs @ contents q'"
      using Cons.IH [OF q1(2)] by auto
    ultimately show ?thesis
      using Get by (simp add: append_assoc [symmetric] append_take_drop_id del: append_assoc)
        (metis append_assoc append_take_drop_id)
  qed
qed

end

end
