(* ===== verification/Ring_Buffer.thy ===== *)
theory Ring_Buffer
  imports Byte_Fifo
begin

text \<open>
  The byte ring of \<^verbatim>\<open>src/src/ringbuffer.c\<close> and \<^verbatim>\<open>src/src/ringbuffer.h\<close>: its record, every
  operation, the invariant, and the queue of bytes it implements. The receive and transmit
  paths of the other components are clients of this theory through \<open>byte_fifo\<close>.

  A pointer and length pair that is only read from is one value, \<open>byte list option\<close>
  (\<open>None\<close> is the null pointer); a destination is described by whether it is null and how
  long it is, and the bytes stored there are returned. The outer \<open>option\<close> of a result is
  \<open>None\<close> exactly when an access leaves the memory of the ring.
\<close>

definition RINGBUFFER_SIZE :: nat where
  "RINGBUFFER_SIZE = 8 * 1024 * 1024"

definition RINGBUFFER_ALIGNMENT :: nat where
  "RINGBUFFER_ALIGNMENT = 128"

text \<open>\<open>rb_buf\<close> is the address, \<open>rb_mem\<close> the \<open>rb_size\<close> bytes found there.\<close>

record RingBuffer =
  rb_buf :: addr
  rb_mem :: "byte list"
  rb_size :: size_t
  rb_read_ptr :: size_t
  rb_write_ptr :: size_t
  rb_locked :: bool

text \<open>The virtual-memory calls of the kernel, over an arbitrary state of the outside world.\<close>

record 'w vm_os =
  vm_allocate :: "size_t \<Rightarrow> 'w \<Rightarrow> (addr \<times> byte list) option \<times> 'w"
  vm_deallocate :: "addr \<Rightarrow> size_t \<Rightarrow> 'w \<Rightarrow> 'w"
  vm_mlock :: "addr \<Rightarrow> size_t \<Rightarrow> 'w \<Rightarrow> bool \<times> 'w"
  vm_munlock :: "addr \<Rightarrow> size_t \<Rightarrow> 'w \<Rightarrow> 'w"

subsection \<open>Operations\<close>

definition align_up :: "addr \<Rightarrow> addr" where
  "align_up a = (a + of_nat RINGBUFFER_ALIGNMENT - 1) AND NOT (of_nat RINGBUFFER_ALIGNMENT - 1)"

definition ringbuffer_init ::
  "('w, 'z) vm_os_scheme \<Rightarrow> RingBuffer \<Rightarrow> 'w \<Rightarrow> (int \<times> RingBuffer \<times> 'w) option" where
  "ringbuffer_init os rb w =
     (let total_size = RINGBUFFER_SIZE + RINGBUFFER_ALIGNMENT in
      case vm_allocate os total_size w of
        (None, w1) \<Rightarrow> Some (-1, rb, w1)
      | (Some (a, region), w1) \<Rightarrow>
          let aligned_addr = align_up a in
          do {
            m \<leftarrow> mem_read region (unat (aligned_addr - a)) RINGBUFFER_SIZE;
            let rb1 = \<lparr>rb_buf = aligned_addr, rb_mem = m, rb_size = RINGBUFFER_SIZE,
                       rb_read_ptr = 0, rb_write_ptr = 0, rb_locked = False\<rparr>;
            let (ok, w2) = vm_mlock os aligned_addr RINGBUFFER_SIZE w1;
            Some (0, (if ok then rb1\<lparr>rb_locked := True\<rparr> else rb1), w2)
          })"

definition ringbuffer_cleanup ::
  "('w, 'z) vm_os_scheme \<Rightarrow> RingBuffer \<Rightarrow> 'w \<Rightarrow> RingBuffer \<times> 'w" where
  "ringbuffer_cleanup os rb w =
     (if rb_buf rb = 0 then (rb, w)
      else
        let w1 = (if rb_locked rb then vm_munlock os (rb_buf rb) (rb_size rb) w else w);
            orig_addr = rb_buf rb AND NOT (of_nat RINGBUFFER_ALIGNMENT - 1);
            w2 = vm_deallocate os orig_addr (RINGBUFFER_SIZE + RINGBUFFER_ALIGNMENT) w1
        in (\<lparr>rb_buf = 0, rb_mem = [], rb_size = 0, rb_read_ptr = 0, rb_write_ptr = 0,
             rb_locked = False\<rparr>, w2))"

text \<open>The two computations of free and used space, as the operations inline them.\<close>

definition space_available :: "size_t \<Rightarrow> size_t \<Rightarrow> size_t \<Rightarrow> size_t" where
  "space_available sz rp wp =
     (if wp \<ge> rp then
        (let available = add64 (sub64 sz wp) rp in
         if available > 1 then available - 1 else 0)
      else sub64 (sub64 rp wp) 1)"

definition data_available :: "size_t \<Rightarrow> size_t \<Rightarrow> size_t \<Rightarrow> size_t" where
  "data_available sz rp wp = (if wp \<ge> rp then sub64 wp rp else add64 (sub64 sz rp) wp)"

text \<open>The copy into the ring at \<open>wp\<close> and the copy out of it at \<open>rp\<close>, split at the end.\<close>

definition copy_in :: "size_t \<Rightarrow> byte list \<Rightarrow> size_t \<Rightarrow> byte list \<Rightarrow> size_t \<Rightarrow> byte list option" where
  "copy_in sz m wp d to_write =
     (if add64 wp to_write \<le> sz then memcpy m wp d 0 to_write
      else
        let first_part = sub64 sz wp in
        do {
          m1 \<leftarrow> memcpy m wp d 0 first_part;
          memcpy m1 0 d first_part (sub64 to_write first_part)
        })"

definition copy_out :: "size_t \<Rightarrow> byte list \<Rightarrow> size_t \<Rightarrow> size_t \<Rightarrow> byte list option" where
  "copy_out sz m rp to_read =
     (if add64 rp to_read \<le> sz then mem_read m rp to_read
      else
        let first_part = sub64 sz rp in
        do {
          b1 \<leftarrow> mem_read m rp first_part;
          b2 \<leftarrow> mem_read m 0 (sub64 to_read first_part);
          Some (b1 @ b2)
        })"

definition ringbuffer_write :: "RingBuffer \<Rightarrow> byte list option \<Rightarrow> (size_t \<times> RingBuffer) option" where
  "ringbuffer_write rb data =
     (case data of
        None \<Rightarrow> Some (0, rb)
      | Some d \<Rightarrow>
          let len = length d in
          if len = 0 then Some (0, rb)
          else
            let rp = rb_read_ptr rb; wp = rb_write_ptr rb;
                available = space_available (rb_size rb) rp wp in
            if available = 0 then Some (0, rb)
            else
              let to_write = (if len < available then len else available) in
              do {
                m \<leftarrow> copy_in (rb_size rb) (rb_mem rb) wp d to_write;
                new_wp \<leftarrow> umod (add64 wp to_write) (rb_size rb);
                Some (to_write, rb\<lparr>rb_mem := m, rb_write_ptr := new_wp\<rparr>)
              })"

definition ringbuffer_read ::
  "RingBuffer \<Rightarrow> bool \<Rightarrow> size_t \<Rightarrow> (size_t \<times> byte list \<times> RingBuffer) option" where
  "ringbuffer_read rb data_null len =
     (if data_null \<or> len = 0 then Some (0, [], rb)
      else
        let wp = rb_write_ptr rb; rp = rb_read_ptr rb;
            available = data_available (rb_size rb) rp wp in
        if available = 0 then Some (0, [], rb)
        else
          let to_read = (if len < available then len else available) in
          do {
            bs \<leftarrow> copy_out (rb_size rb) (rb_mem rb) rp to_read;
            new_rp \<leftarrow> umod (add64 rp to_read) (rb_size rb);
            Some (to_read, bs, rb\<lparr>rb_read_ptr := new_rp\<rparr>)
          })"

definition ringbuffer_writeable :: "RingBuffer \<Rightarrow> size_t" where
  "ringbuffer_writeable rb =
     (let rp = rb_read_ptr rb; wp = rb_write_ptr rb in
      if wp \<ge> rp then
        (let available = add64 (sub64 (rb_size rb) wp) rp in
         if available > 1 then available - 1 else 0)
      else sub64 (sub64 rp wp) 1)"

definition ringbuffer_readable :: "RingBuffer \<Rightarrow> size_t" where
  "ringbuffer_readable rb =
     (let rp = rb_read_ptr rb; wp = rb_write_ptr rb in
      if wp \<ge> rp then sub64 wp rp else add64 (sub64 (rb_size rb) rp) wp)"

definition ringbuffer_reset :: "RingBuffer \<Rightarrow> RingBuffer" where
  "ringbuffer_reset rb = rb\<lparr>rb_read_ptr := 0, rb_write_ptr := 0\<rparr>"

text \<open>
  The batch operations keep the pointer in a local variable over all chunks and store it
  once. The loop state is the local pointer, the ring memory and the running total.
\<close>

fun batch_write_loop ::
  "size_t \<Rightarrow> size_t \<Rightarrow> byte list option list \<Rightarrow> size_t \<Rightarrow> byte list \<Rightarrow> size_t
   \<Rightarrow> (size_t \<times> byte list \<times> size_t) option" where
  "batch_write_loop sz rp [] wp m tot = Some (wp, m, tot)"
| "batch_write_loop sz rp (None # cs) wp m tot = batch_write_loop sz rp cs wp m tot"
| "batch_write_loop sz rp (Some d # cs) wp m tot =
     (if length d = 0 then batch_write_loop sz rp cs wp m tot
      else
        let available = space_available sz rp wp in
        if available = 0 then Some (wp, m, tot)
        else
          let to_write = (if length d < available then length d else available) in
          do {
            m' \<leftarrow> copy_in sz m wp d to_write;
            wp' \<leftarrow> umod (add64 wp to_write) sz;
            batch_write_loop sz rp cs wp' m' (add64 tot to_write)
          })"

definition ringbuffer_batch_write ::
  "RingBuffer \<Rightarrow> byte list option list option \<Rightarrow> (size_t \<times> RingBuffer) option" where
  "ringbuffer_batch_write rb chunks =
     (case chunks of
        None \<Rightarrow> Some (0, rb)
      | Some cs \<Rightarrow>
          if length cs = 0 then Some (0, rb)
          else do {
            (wp, m, tot) \<leftarrow>
              batch_write_loop (rb_size rb) (rb_read_ptr rb) cs (rb_write_ptr rb) (rb_mem rb) 0;
            Some (tot, (if tot > 0 then rb\<lparr>rb_mem := m, rb_write_ptr := wp\<rparr>
                          else rb\<lparr>rb_mem := m\<rparr>))
          })"

text \<open>
  A destination chunk of a batch read is its null flag and its length. The bytes stored in
  the chunks are returned in order, one list for each chunk of the array, empty where
  nothing was stored.
\<close>

fun batch_read_loop ::
  "size_t \<Rightarrow> byte list \<Rightarrow> size_t \<Rightarrow> (bool \<times> size_t) list \<Rightarrow> size_t \<Rightarrow> size_t
   \<Rightarrow> (size_t \<times> byte list list \<times> size_t) option" where
  "batch_read_loop sz m wp [] rp tot = Some (rp, [], tot)"
| "batch_read_loop sz m wp ((data_null, len) # cs) rp tot =
     (if data_null \<or> len = 0 then
        do {
          (rp', out, tot') \<leftarrow> batch_read_loop sz m wp cs rp tot;
          Some (rp', [] # out, tot')
        }
      else
        let available = data_available sz rp wp in
        if available = 0 then Some (rp, map (\<lambda>_. []) ((data_null, len) # cs), tot)
        else
          let to_read = (if len < available then len else available) in
          do {
            bs \<leftarrow> copy_out sz m rp to_read;
            rp1 \<leftarrow> umod (add64 rp to_read) sz;
            (rp', out, tot') \<leftarrow> batch_read_loop sz m wp cs rp1 (add64 tot to_read);
            Some (rp', bs # out, tot')
          })"

definition ringbuffer_batch_read ::
  "RingBuffer \<Rightarrow> (bool \<times> size_t) list option \<Rightarrow> (size_t \<times> byte list list \<times> RingBuffer) option" where
  "ringbuffer_batch_read rb chunks =
     (case chunks of
        None \<Rightarrow> Some (0, [], rb)
      | Some cs \<Rightarrow>
          if length cs = 0 then Some (0, [], rb)
          else do {
            (rp, out, tot) \<leftarrow>
              batch_read_loop (rb_size rb) (rb_mem rb) (rb_write_ptr rb) cs (rb_read_ptr rb) 0;
            Some (tot, out, (if tot > 0 then rb\<lparr>rb_read_ptr := rp\<rparr> else rb))
          })"

text \<open>
  The inline accessors hand out a raw pointer into the ring, here the offset from
  \<open>rb_buf\<close>, and a length.
\<close>

definition ringbuffer_read_inline :: "RingBuffer \<Rightarrow> size_t \<times> size_t" where
  "ringbuffer_read_inline rb =
     (let rp = rb_read_ptr rb; wp = rb_write_ptr rb;
          len = (if wp \<ge> rp then sub64 wp rp else add64 (sub64 (rb_size rb) rp) wp)
      in (rp, len))"

definition ringbuffer_write_inline :: "RingBuffer \<Rightarrow> size_t \<times> size_t" where
  "ringbuffer_write_inline rb =
     (let rp = rb_read_ptr rb; wp = rb_write_ptr rb;
          len = (if wp \<ge> rp then
                   (if rp = 0 \<and> wp = rb_size rb then 0 else sub64 (rb_size rb) wp)
                 else sub64 rp wp)
      in (wp, len))"

subsection \<open>Invariant and abstraction\<close>

definition rb_inv :: "RingBuffer \<Rightarrow> bool" where
  "rb_inv rb \<longleftrightarrow>
     length (rb_mem rb) = rb_size rb \<and> 0 < rb_size rb \<and> rb_size rb < 2 ^ 62 \<and>
     rb_read_ptr rb < rb_size rb \<and> rb_write_ptr rb < rb_size rb"

text \<open>The queue of bytes a ring holds, and how many it can hold.\<close>

definition ring_list :: "byte list \<Rightarrow> size_t \<Rightarrow> size_t \<Rightarrow> byte list" where
  "ring_list m rp wp =
     (if rp \<le> wp then take (wp - rp) (drop rp m) else drop rp m @ take wp m)"

definition rb_list :: "RingBuffer \<Rightarrow> byte list" where
  "rb_list rb = ring_list (rb_mem rb) (rb_read_ptr rb) (rb_write_ptr rb)"

definition rb_capacity :: "RingBuffer \<Rightarrow> nat" where
  "rb_capacity rb = rb_size rb - 1"

subsection \<open>Ring positions\<close>

text \<open>Well-formed parts of a ring, and the position that follows another one.\<close>

definition ring_ok :: "size_t \<Rightarrow> byte list \<Rightarrow> size_t \<Rightarrow> size_t \<Rightarrow> bool" where
  "ring_ok sz m rp wp \<longleftrightarrow> length m = sz \<and> 0 < sz \<and> sz < 2 ^ 62 \<and> rp < sz \<and> wp < sz"

definition ring_used :: "size_t \<Rightarrow> size_t \<Rightarrow> size_t \<Rightarrow> nat" where
  "ring_used sz rp wp = (if rp \<le> wp then wp - rp else sz - rp + wp)"

definition wrap :: "nat \<Rightarrow> nat \<Rightarrow> nat" where
  "wrap sz i = (if i < sz then i else i - sz)"

lemma rb_inv_iff:
  "rb_inv rb \<longleftrightarrow> ring_ok (rb_size rb) (rb_mem rb) (rb_read_ptr rb) (rb_write_ptr rb)"
  by (simp add: rb_inv_def ring_ok_def)

lemma mod_eq_wrap: "a < 2 * sz \<Longrightarrow> a mod sz = wrap sz a"
  by (auto simp: wrap_def mod_if)

lemma wrap_less: "i < 2 * sz \<Longrightarrow> wrap sz i < sz"
  by (auto simp: wrap_def)

lemma ring_used_less: "ring_ok sz m rp wp \<Longrightarrow> ring_used sz rp wp < sz"
  by (auto simp: ring_ok_def ring_used_def)

lemma length_ring_list: "ring_ok sz m rp wp \<Longrightarrow> length (ring_list m rp wp) = ring_used sz rp wp"
  by (auto simp: ring_ok_def ring_used_def ring_list_def)

lemma ring_list_nth:
  assumes "ring_ok sz m rp wp" and "i < ring_used sz rp wp"
  shows "ring_list m rp wp ! i = m ! wrap sz (rp + i)"
  using assms by (auto simp: ring_ok_def ring_used_def ring_list_def wrap_def nth_append add.commute)

lemma data_available_eq:
  assumes "ring_ok sz m rp wp"
  shows "data_available sz rp wp = ring_used sz rp wp"
  using assms by (auto simp: ring_ok_def ring_used_def data_available_def arith64)

lemma space_available_eq:
  assumes "ring_ok sz m rp wp"
  shows "space_available sz rp wp = sz - 1 - ring_used sz rp wp"
proof (cases "rp \<le> wp")
  case True
  have "sub64 sz wp = sz - wp"
    using assms by (simp add: ring_ok_def sub64_exact)
  moreover have "add64 (sz - wp) rp = sz - wp + rp"
    using True assms by (intro add64_exact) (auto simp: ring_ok_def)
  ultimately have "add64 (sub64 sz wp) rp = sz - wp + rp"
    by simp
  with True assms show ?thesis
    by (auto simp: ring_ok_def ring_used_def space_available_def Let_def)
next
  case False
  have "sub64 rp wp = rp - wp"
    using False assms by (simp add: ring_ok_def sub64_exact)
  moreover have "sub64 (rp - wp) 1 = rp - wp - 1"
    using False assms by (intro sub64_exact) (auto simp: ring_ok_def)
  ultimately have "sub64 (sub64 rp wp) 1 = rp - wp - 1"
    by simp
  with False assms show ?thesis
    by (auto simp: ring_ok_def ring_used_def space_available_def)
qed

subsection \<open>Copies in and out\<close>

lemma copy_in_nth:
  assumes ok: "ring_ok sz m rp wp" and n: "n < sz" "n \<le> length d"
  obtains m' where "copy_in sz m wp d n = Some m'" and "length m' = sz"
    and "\<forall>j < sz. m' ! j =
          (if wp \<le> j \<and> j < wp + n then d ! (j - wp)
           else if j + sz < wp + n then d ! (j + sz - wp) else m ! j)"
proof (cases "wp + n \<le> sz")
  case True
  with ok n obtain m' where "memcpy m wp d 0 n = Some m'" "length m' = sz"
    and "\<forall>j < sz. m' ! j = (if wp \<le> j \<and> j < wp + n then d ! (0 + (j - wp)) else m ! j)"
    using memcpy_nth [of 0 n d wp m] by (auto simp: ring_ok_def)
  with True ok show ?thesis
    by (intro that) (auto simp: copy_in_def ring_ok_def arith64)
next
  case False
  let ?f = "sz - wp"
  have f: "add64 wp n = wp + n" "sub64 sz wp = ?f" "sub64 n ?f = n - ?f"
    using False ok n by (auto simp: ring_ok_def arith64)
  obtain m1 where m1: "memcpy m wp d 0 ?f = Some m1" "length m1 = sz"
    and nth1: "\<forall>j < sz. m1 ! j = (if wp \<le> j \<and> j < wp + ?f then d ! (0 + (j - wp)) else m ! j)"
    using memcpy_nth [of 0 ?f d wp m] False ok n by (auto simp: ring_ok_def)
  have fits: "?f + (n - ?f) \<le> length d" "0 + (n - ?f) \<le> length m1"
    using False n m1(2) by auto
  obtain m2 where m2: "memcpy m1 0 d ?f (n - ?f) = Some m2" "length m2 = sz"
    and nth2: "\<forall>j < sz. m2 ! j = (if 0 \<le> j \<and> j < 0 + (n - ?f) then d ! (?f + (j - 0)) else m1 ! j)"
    using memcpy_nth [OF fits] m1(2) by auto
  have "m2 ! j = (if wp \<le> j \<and> j < wp + n then d ! (j - wp)
           else if j + sz < wp + n then d ! (j + sz - wp) else m ! j)" if "j < sz" for j
    using that nth1 nth2 False ok n by (auto simp: ring_ok_def intro!: arg_cong [of _ _ "(!) d"])
  moreover have "copy_in sz m wp d n = Some m2"
    using False f m1 m2 by (simp add: copy_in_def)
  ultimately show ?thesis
    using m2(2) by (intro that) auto
qed

lemma copy_in_append:
  assumes ok: "ring_ok sz m rp wp" and n: "n + ring_used sz rp wp < sz" "n \<le> length d"
  obtains m' where "copy_in sz m wp d n = Some m'" and "ring_ok sz m' rp (wrap sz (wp + n))"
    and "ring_list m' rp (wrap sz (wp + n)) = ring_list m rp wp @ take n d"
proof -
  have "n < sz"
    using n by simp
  from ok this n(2) obtain m' where m': "copy_in sz m wp d n = Some m'" "length m' = sz"
    and nth: "\<forall>j < sz. m' ! j =
          (if wp \<le> j \<and> j < wp + n then d ! (j - wp)
           else if j + sz < wp + n then d ! (j + sz - wp) else m ! j)"
    by (rule copy_in_nth)
  let ?wp' = "wrap sz (wp + n)"
  have ok': "ring_ok sz m' rp ?wp'"
    using ok m'(2) \<open>n < sz\<close> by (auto simp: ring_ok_def wrap_def)
  have used: "ring_used sz rp ?wp' = ring_used sz rp wp + n"
    using ok n by (auto simp: ring_ok_def ring_used_def wrap_def split: if_splits)
  have "ring_list m' rp ?wp' = ring_list m rp wp @ take n d"
  proof (rule nth_equalityI)
    show "length (ring_list m' rp ?wp') = length (ring_list m rp wp @ take n d)"
      using n(2) by (simp add: length_ring_list [OF ok] length_ring_list [OF ok'] used)
  next
    fix i assume "i < length (ring_list m' rp ?wp')"
    then have i: "i < ring_used sz rp wp + n"
      by (simp add: length_ring_list [OF ok'] used)
    have pos: "wrap sz (rp + i) < sz"
      using i n ok by (intro wrap_less) (auto simp: ring_ok_def)
    have "ring_list m' rp ?wp' ! i = m' ! wrap sz (rp + i)"
      using i by (intro ring_list_nth [OF ok']) (simp add: used)
    also have "\<dots> = (ring_list m rp wp @ take n d) ! i"
    proof (cases "i < ring_used sz rp wp")
      case True
      then have "m' ! wrap sz (rp + i) = m ! wrap sz (rp + i)"
        using ok n nth [rule_format, OF pos] by (auto simp: ring_ok_def ring_used_def wrap_def split: if_splits)
      with True show ?thesis
        by (simp add: nth_append length_ring_list [OF ok] ring_list_nth [OF ok])
    next
      case False
      then have "m' ! wrap sz (rp + i) = d ! (i - ring_used sz rp wp)"
        using ok n i nth [rule_format, OF pos]
        by (auto simp: ring_ok_def ring_used_def wrap_def split: if_splits intro!: arg_cong [of _ _ "(!) d"])
      with False i n(2) show ?thesis
        by (simp add: nth_append length_ring_list [OF ok])
    qed
    finally show "ring_list m' rp ?wp' ! i = (ring_list m rp wp @ take n d) ! i" .
  qed
  with m'(1) ok' show ?thesis
    by (rule that)
qed

lemma copy_out_take:
  assumes ok: "ring_ok sz m rp wp" and n: "n \<le> ring_used sz rp wp"
  shows "copy_out sz m rp n = Some (take n (ring_list m rp wp))"
proof (cases "rp + n \<le> sz")
  case True
  with ok n show ?thesis
    by (auto simp: copy_out_def ring_ok_def ring_used_def ring_list_def arith64 mem_simps min_def
        split: if_splits)
next
  case False
  then have "add64 rp n = rp + n" "sub64 sz rp = sz - rp" "sub64 n (sz - rp) = n - (sz - rp)"
    using ok n by (auto simp: ring_ok_def ring_used_def arith64 split: if_splits)
  moreover have "wp < rp" "n - (sz - rp) \<le> wp"
    using False ok n by (auto simp: ring_ok_def ring_used_def split: if_splits)
  ultimately show ?thesis
    using False ok n by (simp add: copy_out_def ring_ok_def ring_list_def mem_simps min_def)
qed

lemma ring_list_drop:
  assumes ok: "ring_ok sz m rp wp" and n: "n \<le> ring_used sz rp wp"
  shows "ring_ok sz m (wrap sz (rp + n)) wp"
    and "ring_list m (wrap sz (rp + n)) wp = drop n (ring_list m rp wp)"
proof -
  let ?rp' = "wrap sz (rp + n)"
  show ok': "ring_ok sz m ?rp' wp"
    using ok n by (auto simp: ring_ok_def ring_used_def wrap_def split: if_splits)
  have used: "ring_used sz ?rp' wp = ring_used sz rp wp - n"
    using ok n by (auto simp: ring_ok_def ring_used_def wrap_def split: if_splits)
  show "ring_list m ?rp' wp = drop n (ring_list m rp wp)"
  proof (rule nth_equalityI)
    show "length (ring_list m ?rp' wp) = length (drop n (ring_list m rp wp))"
      by (simp add: length_ring_list [OF ok] length_ring_list [OF ok'] used)
  next
    fix i assume "i < length (ring_list m ?rp' wp)"
    then have i: "i + n < ring_used sz rp wp"
      by (simp add: length_ring_list [OF ok'] used)
    then have "ring_list m ?rp' wp ! i = m ! wrap sz (?rp' + i)"
      by (intro ring_list_nth [OF ok']) (simp add: used)
    moreover have "wrap sz (?rp' + i) = wrap sz (rp + (n + i))"
      using ok i by (auto simp: ring_ok_def ring_used_def wrap_def split: if_splits)
    ultimately show "ring_list m ?rp' wp ! i = drop n (ring_list m rp wp) ! i"
      using i n by (simp add: length_ring_list [OF ok] ring_list_nth [OF ok] add.commute)
  qed
qed

lemma umod_position:
  assumes "ring_ok sz m rp wp" and "p < sz" and "n \<le> sz"
  shows "umod (add64 p n) sz = Some (wrap sz (p + n))"
  using assms by (simp add: ring_ok_def arith64 mod_eq_wrap)

subsection \<open>The operations on a well-formed ring\<close>

lemma length_rb_list: "rb_inv rb \<Longrightarrow> length (rb_list rb) = ring_used (rb_size rb) (rb_read_ptr rb) (rb_write_ptr rb)"
  by (simp add: rb_list_def rb_inv_iff length_ring_list)

lemma length_rb_list_capacity: "rb_inv rb \<Longrightarrow> length (rb_list rb) \<le> rb_capacity rb"
  using ring_used_less [of "rb_size rb" "rb_mem rb" "rb_read_ptr rb" "rb_write_ptr rb"]
  by (simp add: length_rb_list rb_capacity_def rb_inv_iff)

lemma rb_space_available:
  "rb_inv rb \<Longrightarrow> space_available (rb_size rb) (rb_read_ptr rb) (rb_write_ptr rb) =
     rb_capacity rb - length (rb_list rb)"
  using space_available_eq by (simp add: length_rb_list rb_capacity_def) (simp add: rb_inv_iff)

lemma rb_data_available:
  "rb_inv rb \<Longrightarrow> data_available (rb_size rb) (rb_read_ptr rb) (rb_write_ptr rb) = length (rb_list rb)"
  using data_available_eq by (simp add: length_rb_list) (simp add: rb_inv_iff)

lemma write_step:
  assumes inv: "rb_inv rb" and n: "n \<le> length d" "n \<le> rb_capacity rb - length (rb_list rb)"
  obtains m p where "copy_in (rb_size rb) (rb_mem rb) (rb_write_ptr rb) d n = Some m"
    and "umod (add64 (rb_write_ptr rb) n) (rb_size rb) = Some p"
    and "rb_inv (rb\<lparr>rb_mem := m, rb_write_ptr := p\<rparr>)"
    and "rb_list (rb\<lparr>rb_mem := m, rb_write_ptr := p\<rparr>) = rb_list rb @ take n d"
proof -
  have ok: "ring_ok (rb_size rb) (rb_mem rb) (rb_read_ptr rb) (rb_write_ptr rb)"
    using inv by (simp add: rb_inv_iff)
  have n': "n + ring_used (rb_size rb) (rb_read_ptr rb) (rb_write_ptr rb) < rb_size rb"
    using n(2) inv ring_used_less [OF ok] by (auto simp: length_rb_list rb_capacity_def)
  have "umod (add64 (rb_write_ptr rb) n) (rb_size rb) = Some (wrap (rb_size rb) (rb_write_ptr rb + n))"
    using ok n' by (intro umod_position [OF ok]) (auto simp: ring_ok_def)
  moreover obtain m' where "copy_in (rb_size rb) (rb_mem rb) (rb_write_ptr rb) d n = Some m'"
    "ring_ok (rb_size rb) m' (rb_read_ptr rb) (wrap (rb_size rb) (rb_write_ptr rb + n))"
    "ring_list m' (rb_read_ptr rb) (wrap (rb_size rb) (rb_write_ptr rb + n)) =
       ring_list (rb_mem rb) (rb_read_ptr rb) (rb_write_ptr rb) @ take n d"
    using copy_in_append [OF ok n' n(1)] .
  ultimately show ?thesis
    by (intro that) (auto simp: rb_inv_iff rb_list_def)
qed

lemma read_step:
  assumes inv: "rb_inv rb" and n: "n \<le> length (rb_list rb)"
  obtains p where "copy_out (rb_size rb) (rb_mem rb) (rb_read_ptr rb) n = Some (take n (rb_list rb))"
    and "umod (add64 (rb_read_ptr rb) n) (rb_size rb) = Some p"
    and "rb_inv (rb\<lparr>rb_read_ptr := p\<rparr>)"
    and "rb_list (rb\<lparr>rb_read_ptr := p\<rparr>) = drop n (rb_list rb)"
proof -
  have ok: "ring_ok (rb_size rb) (rb_mem rb) (rb_read_ptr rb) (rb_write_ptr rb)"
    using inv by (simp add: rb_inv_iff)
  have n': "n \<le> ring_used (rb_size rb) (rb_read_ptr rb) (rb_write_ptr rb)"
    using n inv by (simp add: length_rb_list)
  have "umod (add64 (rb_read_ptr rb) n) (rb_size rb) = Some (wrap (rb_size rb) (rb_read_ptr rb + n))"
    using ok n' ring_used_less [OF ok] by (intro umod_position [OF ok]) (auto simp: ring_ok_def)
  with copy_out_take [OF ok n'] ring_list_drop [OF ok n'] show ?thesis
    by (intro that) (auto simp: rb_inv_iff rb_list_def)
qed

text \<open>One write and one read, on every branch.\<close>

lemma ringbuffer_write_law:
  assumes inv: "rb_inv rb"
  obtains rb' where
    "ringbuffer_write rb (Some d) = Some (min (length d) (rb_capacity rb - length (rb_list rb)), rb')"
    and "rb_inv rb'"
    and "rb_list rb' = rb_list rb @ take (rb_capacity rb - length (rb_list rb)) d"
    and "rb' = rb\<lparr>rb_mem := rb_mem rb', rb_write_ptr := rb_write_ptr rb'\<rparr>"
proof (cases "d = [] \<or> rb_capacity rb = length (rb_list rb)")
  case True
  with inv have "ringbuffer_write rb (Some d) = Some (0, rb)"
    by (auto simp: ringbuffer_write_def rb_space_available Let_def)
  with True inv show ?thesis
    by (intro that [of rb]) auto
next
  case False
  let ?k = "rb_capacity rb - length (rb_list rb)"
  let ?n = "min (length d) ?k"
  have n: "?n \<le> length d" "?n \<le> ?k"
    by simp_all
  have k: "0 < ?k"
    using False length_rb_list_capacity [OF inv] by auto
  from write_step [OF inv n] obtain m p where
    m: "copy_in (rb_size rb) (rb_mem rb) (rb_write_ptr rb) d ?n = Some m"
    and p: "umod (add64 (rb_write_ptr rb) ?n) (rb_size rb) = Some p"
    and *: "rb_inv (rb\<lparr>rb_mem := m, rb_write_ptr := p\<rparr>)"
      "rb_list (rb\<lparr>rb_mem := m, rb_write_ptr := p\<rparr>) = rb_list rb @ take ?n d" .
  from m p k False inv have "ringbuffer_write rb (Some d) = Some (?n, rb\<lparr>rb_mem := m, rb_write_ptr := p\<rparr>)"
    unfolding ringbuffer_write_def option.case Let_def rb_space_available [OF inv] if_less_min by simp
  moreover have "take ?n d = take ?k d"
    by (simp add: min_def)
  ultimately show ?thesis
    using * by (intro that) auto
qed

lemma ringbuffer_read_law:
  assumes inv: "rb_inv rb"
  obtains rb' where
    "ringbuffer_read rb False n = Some (min n (length (rb_list rb)), take n (rb_list rb), rb')"
    and "rb_inv rb'" and "rb_list rb' = drop n (rb_list rb)"
    and "rb' = rb\<lparr>rb_read_ptr := rb_read_ptr rb'\<rparr>"
proof (cases "n = 0 \<or> rb_list rb = []")
  case True
  with inv have "ringbuffer_read rb False n = Some (0, [], rb)"
    by (auto simp: ringbuffer_read_def rb_data_available Let_def)
  with True inv show ?thesis
    by (intro that [of rb]) auto
next
  case False
  let ?n = "min n (length (rb_list rb))"
  from read_step [OF inv, of ?n] obtain p where
    p: "copy_out (rb_size rb) (rb_mem rb) (rb_read_ptr rb) ?n = Some (take ?n (rb_list rb))"
      "umod (add64 (rb_read_ptr rb) ?n) (rb_size rb) = Some p"
    and *: "rb_inv (rb\<lparr>rb_read_ptr := p\<rparr>)" "rb_list (rb\<lparr>rb_read_ptr := p\<rparr>) = drop ?n (rb_list rb)"
    by auto
  from p False inv have
    "ringbuffer_read rb False n = Some (?n, take ?n (rb_list rb), rb\<lparr>rb_read_ptr := p\<rparr>)"
    unfolding ringbuffer_read_def Let_def rb_data_available [OF inv] if_less_min by simp
  moreover have "take ?n (rb_list rb) = take n (rb_list rb)" "drop ?n (rb_list rb) = drop n (rb_list rb)"
    by (auto simp: min_def)
  ultimately show ?thesis
    using * by (intro that) auto
qed

subsection \<open>The ring as a byte queue\<close>

definition ring_put :: "RingBuffer \<Rightarrow> byte list \<Rightarrow> (nat \<times> RingBuffer) option" where
  "ring_put rb d = ringbuffer_write rb (Some d)"

definition ring_get :: "RingBuffer \<Rightarrow> nat \<Rightarrow> (byte list \<times> RingBuffer) option" where
  "ring_get rb k = do { (n, bs, rb') \<leftarrow> ringbuffer_read rb False k; Some (bs, rb') }"

interpretation rq: byte_fifo ring_put ring_get rb_list rb_capacity rb_inv
proof
  fix rb d assume inv: "rb_inv rb"
  obtain rb' where "ringbuffer_write rb (Some d) =
      Some (min (length d) (rb_capacity rb - length (rb_list rb)), rb')"
    "rb_inv rb'" "rb_list rb' = rb_list rb @ take (rb_capacity rb - length (rb_list rb)) d"
    "rb' = rb\<lparr>rb_mem := rb_mem rb', rb_write_ptr := rb_write_ptr rb'\<rparr>"
    by (rule ringbuffer_write_law [OF inv, of d])
  moreover from this(4) have "rb_capacity rb' = rb_capacity rb"
    by (metis RingBuffer.ext_inject RingBuffer.surjective RingBuffer.update_convs(2,5) rb_capacity_def)
  ultimately show
    "\<exists>q'. ring_put rb d = Some (min (length d) (rb_capacity rb - length (rb_list rb)), q') \<and>
      rb_inv q' \<and> rb_capacity q' = rb_capacity rb \<and>
      rb_list q' = rb_list rb @ take (rb_capacity rb - length (rb_list rb)) d"
    by (simp add: ring_put_def)
next
  fix rb k assume inv: "rb_inv rb"
  obtain rb' where "ringbuffer_read rb False k =
      Some (min k (length (rb_list rb)), take k (rb_list rb), rb')"
    "rb_inv rb'" "rb_list rb' = drop k (rb_list rb)"
    "rb' = rb\<lparr>rb_read_ptr := rb_read_ptr rb'\<rparr>"
    by (rule ringbuffer_read_law [OF inv, of k])
  moreover from this(4) have "rb_capacity rb' = rb_capacity rb"
    by (metis RingBuffer.ext_inject RingBuffer.surjective RingBuffer.update_convs(4) rb_capacity_def)
  ultimately show "\<exists>q'. ring_get rb k = Some (take k (rb_list rb), q') \<and>
      rb_inv q' \<and> rb_capacity q' = rb_capacity rb \<and> rb_list q' = drop k (rb_list rb)"
    by (simp add: ring_get_def)
qed (rule length_rb_list_capacity)

end
