(* ===== verification/Ring_Batch.thy ===== *)
theory Ring_Batch
  imports Ring_Buffer
begin

text \<open>
  The optimised entry points of the ring against their plain counterparts: the batch
  operations against one call for each chunk, the space queries against the contents, and
  what the inline accessors hand out.
\<close>

fun write_all :: "RingBuffer \<Rightarrow> byte list option list \<Rightarrow> (size_t \<times> RingBuffer) option" where
  "write_all rb [] = Some (0, rb)"
| "write_all rb (c # cs) =
     do {
       (n, rb1) \<leftarrow> ringbuffer_write rb c;
       (k, rb2) \<leftarrow> write_all rb1 cs;
       Some (n + k, rb2)
     }"

fun read_all :: "RingBuffer \<Rightarrow> (bool \<times> size_t) list \<Rightarrow> (size_t \<times> byte list list \<times> RingBuffer) option" where
  "read_all rb [] = Some (0, [], rb)"
| "read_all rb ((data_null, len) # cs) =
     do {
       (n, bs, rb1) \<leftarrow> ringbuffer_read rb data_null len;
       (k, out, rb2) \<leftarrow> read_all rb1 cs;
       Some (n + k, bs # out, rb2)
     }"

subsection \<open>Batch write\<close>

lemma write_skip [simp]: "ringbuffer_write rb None = Some (0, rb)" "ringbuffer_write rb (Some []) = Some (0, rb)"
  by (simp_all add: ringbuffer_write_def)

lemma write_full:
  assumes "space_available (rb_size rb) (rb_read_ptr rb) (rb_write_ptr rb) = 0"
  shows "ringbuffer_write rb c = Some (0, rb)" and "write_all rb cs = Some (0, rb)"
proof -
  show w: "ringbuffer_write rb c = Some (0, rb)" for c
    using assms by (cases c) (auto simp: ringbuffer_write_def Let_def)
  show "write_all rb cs = Some (0, rb)"
    by (induction cs) (simp_all add: w)
qed

lemma write_some:
  assumes inv: "rb_inv rb" and "d \<noteq> []"
    and space: "space_available (rb_size rb) (rb_read_ptr rb) (rb_write_ptr rb) = a" "a \<noteq> 0"
  obtains m p where "copy_in (rb_size rb) (rb_mem rb) (rb_write_ptr rb) d (min (length d) a) = Some m"
    and "umod (add64 (rb_write_ptr rb) (min (length d) a)) (rb_size rb) = Some p"
    and "ringbuffer_write rb (Some d) = Some (min (length d) a, rb\<lparr>rb_mem := m, rb_write_ptr := p\<rparr>)"
    and "rb_inv (rb\<lparr>rb_mem := m, rb_write_ptr := p\<rparr>)"
    and "length (rb_list (rb\<lparr>rb_mem := m, rb_write_ptr := p\<rparr>)) = length (rb_list rb) + min (length d) a"
proof -
  let ?n = "min (length d) a"
  have n: "?n \<le> length d" "?n \<le> rb_capacity rb - length (rb_list rb)"
    using space(1) by (simp_all add: rb_space_available [OF inv])
  from write_step [OF inv n] obtain m p where
    mp: "copy_in (rb_size rb) (rb_mem rb) (rb_write_ptr rb) d ?n = Some m"
      "umod (add64 (rb_write_ptr rb) ?n) (rb_size rb) = Some p"
      "rb_inv (rb\<lparr>rb_mem := m, rb_write_ptr := p\<rparr>)"
      "rb_list (rb\<lparr>rb_mem := m, rb_write_ptr := p\<rparr>) = rb_list rb @ take ?n d" .
  have "ringbuffer_write rb (Some d) = Some (?n, rb\<lparr>rb_mem := m, rb_write_ptr := p\<rparr>)"
    using assms mp(1,2) unfolding ringbuffer_write_def option.case Let_def space(1) if_less_min by simp
  with mp show ?thesis
    by (intro that) auto
qed

lemma batch_write_loop_eq:
  assumes "rb_inv rb" and "tot + rb_capacity rb \<le> length (rb_list rb) + 2 ^ 63"
  shows "\<exists>k rb'. write_all rb cs = Some (k, rb') \<and>
    batch_write_loop (rb_size rb) (rb_read_ptr rb) cs (rb_write_ptr rb) (rb_mem rb) tot =
      Some (rb_write_ptr rb', rb_mem rb', tot + k) \<and>
    rb' = rb\<lparr>rb_mem := rb_mem rb', rb_write_ptr := rb_write_ptr rb'\<rparr> \<and>
    (k = 0 \<longrightarrow> rb' = rb)"
  using assms
proof (induction cs arbitrary: rb tot)
  case Nil
  then show ?case by simp
next
  case (Cons c cs)
  show ?case
  proof (cases "c = None \<or> c = Some []")
    case True
    with Cons.IH [OF Cons.prems] show ?thesis
      by auto
  next
    case False
    then obtain d where d: "c = Some d" "d \<noteq> []"
      by (cases c) auto
    let ?a = "space_available (rb_size rb) (rb_read_ptr rb) (rb_write_ptr rb)"
    show ?thesis
    proof (cases "?a = 0")
      case True
      with d write_full [OF True] show ?thesis
        by (simp add: Let_def)
    next
      case space: False
      let ?n = "min (length d) ?a"
      from write_some [OF Cons.prems(1) d(2) refl space] obtain m p where
        m: "copy_in (rb_size rb) (rb_mem rb) (rb_write_ptr rb) d ?n = Some m"
        and p: "umod (add64 (rb_write_ptr rb) ?n) (rb_size rb) = Some p"
        and w: "ringbuffer_write rb (Some d) = Some (?n, rb\<lparr>rb_mem := m, rb_write_ptr := p\<rparr>)"
        and inv': "rb_inv (rb\<lparr>rb_mem := m, rb_write_ptr := p\<rparr>)"
        and len': "length (rb_list (rb\<lparr>rb_mem := m, rb_write_ptr := p\<rparr>)) = length (rb_list rb) + ?n" .
      have n: "?n \<le> rb_capacity rb - length (rb_list rb)"
        by (simp add: rb_space_available [OF Cons.prems(1)])
      have pos: "0 < ?n"
        using d space by simp
      have tot: "add64 tot ?n = tot + ?n"
        using n Cons.prems(2) length_rb_list_capacity [OF Cons.prems(1)] by (intro add64_exact) simp
      have "tot + ?n + rb_capacity (rb\<lparr>rb_mem := m, rb_write_ptr := p\<rparr>) \<le>
          length (rb_list (rb\<lparr>rb_mem := m, rb_write_ptr := p\<rparr>)) + 2 ^ 63"
        using Cons.prems(2) len' by (simp add: rb_capacity_def)
      from Cons.IH [OF inv' this] obtain k rb' where
        "write_all (rb\<lparr>rb_mem := m, rb_write_ptr := p\<rparr>) cs = Some (k, rb')"
        "batch_write_loop (rb_size rb) (rb_read_ptr rb) cs p m (tot + ?n) =
           Some (rb_write_ptr rb', rb_mem rb', tot + ?n + k)"
        "rb' = rb\<lparr>rb_mem := rb_mem rb', rb_write_ptr := rb_write_ptr rb'\<rparr>"
        by auto
      with w m p d space tot pos show ?thesis
        unfolding d(1) batch_write_loop.simps Let_def if_less_min by simp (metis less_not_refl pos)
    qed
  qed
qed

lemma batch_write_eq_write_all:
  assumes inv: "rb_inv rb"
  shows "ringbuffer_batch_write rb (Some cs) = write_all rb cs"
proof (cases "cs = []")
  case True
  then show ?thesis by (simp add: ringbuffer_batch_write_def)
next
  case False
  have "0 + rb_capacity rb \<le> length (rb_list rb) + 2 ^ 63"
    using inv by (auto simp: rb_inv_def rb_capacity_def)
  from batch_write_loop_eq [OF inv this, of cs] obtain k rb' where
    "write_all rb cs = Some (k, rb')"
    "batch_write_loop (rb_size rb) (rb_read_ptr rb) cs (rb_write_ptr rb) (rb_mem rb) 0 =
       Some (rb_write_ptr rb', rb_mem rb', k)"
    "rb' = rb\<lparr>rb_mem := rb_mem rb', rb_write_ptr := rb_write_ptr rb'\<rparr>" "k = 0 \<longrightarrow> rb' = rb"
    by auto
  with False show ?thesis
    by (auto simp: ringbuffer_batch_write_def)
qed

subsection \<open>Batch read\<close>

lemma read_skip [simp]: "data_null \<or> len = 0 \<Longrightarrow> ringbuffer_read rb data_null len = Some (0, [], rb)"
  by (simp add: ringbuffer_read_def)

lemma read_empty:
  assumes "data_available (rb_size rb) (rb_read_ptr rb) (rb_write_ptr rb) = 0"
  shows "ringbuffer_read rb data_null len = Some (0, [], rb)"
    and "read_all rb cs = Some (0, map (\<lambda>_. []) cs, rb)"
proof -
  show r: "ringbuffer_read rb data_null len = Some (0, [], rb)" for data_null len
    using assms by (auto simp: ringbuffer_read_def Let_def)
  show "read_all rb cs = Some (0, map (\<lambda>_. []) cs, rb)"
    by (induction cs) (auto simp: r)
qed

lemma batch_read_loop_eq:
  assumes "rb_inv rb" and "tot + length (rb_list rb) \<le> 2 ^ 63"
  shows "\<exists>k out rb'. read_all rb cs = Some (k, out, rb') \<and>
    batch_read_loop (rb_size rb) (rb_mem rb) (rb_write_ptr rb) cs (rb_read_ptr rb) tot =
      Some (rb_read_ptr rb', out, tot + k) \<and>
    rb' = rb\<lparr>rb_read_ptr := rb_read_ptr rb'\<rparr> \<and> (k = 0 \<longrightarrow> rb' = rb)"
  using assms
proof (induction cs arbitrary: rb tot)
  case Nil
  then show ?case by simp
next
  case (Cons c cs)
  obtain data_null len where c: "c = (data_null, len)"
    by (cases c)
  show ?case
  proof (cases "data_null \<or> len = 0")
    case True
    with c Cons.IH [OF Cons.prems] show ?thesis
      by auto
  next
    case False
    let ?a = "data_available (rb_size rb) (rb_read_ptr rb) (rb_write_ptr rb)"
    show ?thesis
    proof (cases "?a = 0")
      case True
      with False c read_empty [OF True] show ?thesis
        by (simp add: Let_def)
    next
      case avail: False
      let ?n = "min len ?a"
      have n: "?n \<le> length (rb_list rb)"
        by (simp add: rb_data_available [OF Cons.prems(1)])
      from read_step [OF Cons.prems(1) n] obtain p where
        b: "copy_out (rb_size rb) (rb_mem rb) (rb_read_ptr rb) ?n = Some (take ?n (rb_list rb))"
        and p: "umod (add64 (rb_read_ptr rb) ?n) (rb_size rb) = Some p"
        and inv': "rb_inv (rb\<lparr>rb_read_ptr := p\<rparr>)"
        and l': "rb_list (rb\<lparr>rb_read_ptr := p\<rparr>) = drop ?n (rb_list rb)" .
      have r: "ringbuffer_read rb data_null len = Some (?n, take ?n (rb_list rb), rb\<lparr>rb_read_ptr := p\<rparr>)"
        using False avail b p unfolding ringbuffer_read_def Let_def if_less_min by simp
      have pos: "0 < ?n"
        using False avail by simp
      have tot: "add64 tot ?n = tot + ?n"
        using n Cons.prems(2) by (intro add64_exact) simp
      have "tot + ?n + length (rb_list (rb\<lparr>rb_read_ptr := p\<rparr>)) \<le> 2 ^ 63"
        using Cons.prems(2) n l' by simp
      from Cons.IH [OF inv' this] obtain k out rb' where
        "read_all (rb\<lparr>rb_read_ptr := p\<rparr>) cs = Some (k, out, rb')"
        "batch_read_loop (rb_size rb) (rb_mem rb) (rb_write_ptr rb) cs p (tot + ?n) =
           Some (rb_read_ptr rb', out, tot + ?n + k)"
        "rb' = rb\<lparr>rb_read_ptr := rb_read_ptr rb'\<rparr>"
        by auto
      with r b p c False avail tot pos show ?thesis
        unfolding c batch_read_loop.simps Let_def if_less_min by simp (metis less_not_refl pos)
    qed
  qed
qed

lemma batch_read_eq_read_all:
  assumes inv: "rb_inv rb"
  shows "ringbuffer_batch_read rb (Some cs) = read_all rb cs"
proof (cases "cs = []")
  case True
  then show ?thesis by (simp add: ringbuffer_batch_read_def)
next
  case False
  have "0 + length (rb_list rb) \<le> 2 ^ 63"
    using inv length_rb_list_capacity [OF inv] by (auto simp: rb_inv_def rb_capacity_def)
  from batch_read_loop_eq [OF inv this, of cs] obtain k out rb' where
    "read_all rb cs = Some (k, out, rb')"
    "batch_read_loop (rb_size rb) (rb_mem rb) (rb_write_ptr rb) cs (rb_read_ptr rb) 0 =
       Some (rb_read_ptr rb', out, k)"
    "rb' = rb\<lparr>rb_read_ptr := rb_read_ptr rb'\<rparr>" "k = 0 \<longrightarrow> rb' = rb"
    by auto
  with False show ?thesis
    by (auto simp: ringbuffer_batch_read_def)
qed

subsection \<open>Space queries\<close>

lemma writeable_eq: "rb_inv rb \<Longrightarrow> ringbuffer_writeable rb = rb_capacity rb - length (rb_list rb)"
  using rb_space_available [of rb] by (simp add: ringbuffer_writeable_def space_available_def Let_def)

lemma readable_eq: "rb_inv rb \<Longrightarrow> ringbuffer_readable rb = length (rb_list rb)"
  using rb_data_available [of rb] by (simp add: ringbuffer_readable_def data_available_def Let_def)

lemma reset_law:
  assumes "rb_inv rb"
  shows "rb_inv (ringbuffer_reset rb)" and "rb_list (ringbuffer_reset rb) = []"
  using assms by (auto simp: ringbuffer_reset_def rb_inv_def rb_list_def ring_list_def)

subsection \<open>Inline accessors\<close>

lemma read_inline_eq: "rb_inv rb \<Longrightarrow> ringbuffer_read_inline rb = (rb_read_ptr rb, length (rb_list rb))"
  using rb_data_available [of rb] by (simp add: ringbuffer_read_inline_def data_available_def Let_def)

lemma write_inline_eq:
  "rb_inv rb \<Longrightarrow> ringbuffer_write_inline rb =
     (rb_write_ptr rb, if rb_read_ptr rb \<le> rb_write_ptr rb then rb_size rb - rb_write_ptr rb
                       else rb_read_ptr rb - rb_write_ptr rb)"
  by (auto simp: ringbuffer_write_inline_def rb_inv_def Let_def arith64)

text \<open>The bytes a consumer finds behind the read pointer, up to the advertised length.\<close>

definition inline_view :: "RingBuffer \<Rightarrow> byte list option" where
  "inline_view rb = (case ringbuffer_read_inline rb of (off, len) \<Rightarrow> mem_read (rb_mem rb) off len)"

lemma inline_view_eq:
  assumes "rb_inv rb"
  shows "inline_view rb =
    (if rb_read_ptr rb \<le> rb_write_ptr rb \<or> rb_write_ptr rb = 0 then Some (rb_list rb) else None)"
proof -
  have "inline_view rb = mem_read (rb_mem rb) (rb_read_ptr rb)
      (ring_used (rb_size rb) (rb_read_ptr rb) (rb_write_ptr rb))"
    by (simp add: inline_view_def read_inline_eq [OF assms] length_rb_list [OF assms])
  moreover have "length (rb_mem rb) = rb_size rb" "rb_read_ptr rb < rb_size rb" "rb_write_ptr rb < rb_size rb"
    using assms by (simp_all add: rb_inv_def)
  ultimately show ?thesis
    by (simp add: mem_read_def rb_list_def ring_list_def ring_used_def)
qed

text \<open>
  The two ways the other components move the pointers themselves: storing bytes behind the
  write pointer and advancing it, and advancing the read pointer past consumed bytes.
\<close>

definition inline_commit :: "RingBuffer \<Rightarrow> byte list \<Rightarrow> RingBuffer option" where
  "inline_commit rb d =
     do {
       m \<leftarrow> mem_write (rb_mem rb) (rb_write_ptr rb) d;
       wp \<leftarrow> umod (add64 (rb_write_ptr rb) (length d)) (rb_size rb);
       Some (rb\<lparr>rb_mem := m, rb_write_ptr := wp\<rparr>)
     }"

definition inline_consume :: "RingBuffer \<Rightarrow> size_t \<Rightarrow> RingBuffer option" where
  "inline_consume rb n =
     do {
       rp \<leftarrow> umod (add64 (rb_read_ptr rb) n) (rb_size rb);
       Some (rb\<lparr>rb_read_ptr := rp\<rparr>)
     }"

lemma inline_consume_law:
  assumes "rb_inv rb" and "n \<le> length (rb_list rb)"
  obtains rb' where "inline_consume rb n = Some rb'" and "rb_inv rb'"
    and "rb_list rb' = drop n (rb_list rb)" and "rb' = rb\<lparr>rb_read_ptr := rb_read_ptr rb'\<rparr>"
proof -
  obtain p where "umod (add64 (rb_read_ptr rb) n) (rb_size rb) = Some p"
    "rb_inv (rb\<lparr>rb_read_ptr := p\<rparr>)" "rb_list (rb\<lparr>rb_read_ptr := p\<rparr>) = drop n (rb_list rb)"
    using read_step [OF assms] .
  then show ?thesis
    by (intro that) (auto simp: inline_consume_def)
qed

lemma inline_commit_law:
  assumes inv: "rb_inv rb" and len: "length d \<le> snd (ringbuffer_write_inline rb)"
  obtains rb' where "inline_commit rb d = Some rb'" and "rb_inv rb'"
    and "rb_list rb' = (if length d \<le> rb_capacity rb - length (rb_list rb) then rb_list rb @ d else [])"
    and "rb' = rb\<lparr>rb_mem := rb_mem rb', rb_write_ptr := rb_write_ptr rb'\<rparr>"
proof -
  have fits: "rb_write_ptr rb + length d \<le> rb_size rb"
    using len inv by (auto simp: write_inline_eq rb_inv_def split: if_splits)
  show ?thesis
  proof (cases "length d \<le> rb_capacity rb - length (rb_list rb)")
    case True
    from write_step [OF inv _ True, of d] obtain m p where
      "copy_in (rb_size rb) (rb_mem rb) (rb_write_ptr rb) d (length d) = Some m"
      "umod (add64 (rb_write_ptr rb) (length d)) (rb_size rb) = Some p"
      "rb_inv (rb\<lparr>rb_mem := m, rb_write_ptr := p\<rparr>)"
      "rb_list (rb\<lparr>rb_mem := m, rb_write_ptr := p\<rparr>) = rb_list rb @ d"
      by auto
    moreover have "copy_in (rb_size rb) (rb_mem rb) (rb_write_ptr rb) d (length d) =
        mem_write (rb_mem rb) (rb_write_ptr rb) d"
      using fits inv by (simp add: copy_in_def rb_inv_def arith64 memcpy_def mem_simps)
    ultimately show ?thesis
      using True by (intro that) (auto simp: inline_commit_def)
  next
    case False
    let ?p = "(rb_write_ptr rb + length d) mod rb_size rb"
    let ?m = "take (rb_write_ptr rb) (rb_mem rb) @ d @ drop (rb_write_ptr rb + length d) (rb_mem rb)"
    have "?p = rb_read_ptr rb"
    proof (cases "rb_read_ptr rb \<le> rb_write_ptr rb")
      case True
      with False len inv fits have "rb_read_ptr rb = 0" "rb_write_ptr rb + length d = rb_size rb"
        by (auto simp: length_rb_list [OF inv] write_inline_eq [OF inv] rb_capacity_def ring_used_def)
      then show ?thesis by simp
    next
      case le: False
      with False len inv [unfolded rb_inv_def] fits have "rb_write_ptr rb + length d = rb_read_ptr rb"
        by (auto simp: length_rb_list [OF inv] write_inline_eq [OF inv] rb_capacity_def ring_used_def)
      with inv show ?thesis by (simp add: rb_inv_def)
    qed
    moreover have "inline_commit rb d = Some (rb\<lparr>rb_mem := ?m, rb_write_ptr := ?p\<rparr>)"
      using fits inv by (simp add: inline_commit_def rb_inv_def arith64 mem_simps)
    ultimately show ?thesis
      using False fits inv by (intro that) (auto simp: rb_inv_def rb_list_def ring_list_def)
  qed
qed

subsection \<open>Allocation\<close>

lemma and_not_mask7:
  "x AND - 128 = x - take_bit 7 x" for x :: addr
proof -
  have m: "(- 128 :: addr) = NOT (mask 7)"
    by (simp flip: minus_exp_eq_not_mask)
  have "(x AND NOT (mask 7)) OR take_bit 7 x = x"
    by (rule bit_word_eqI) (auto simp: bit_simps)
  moreover have "(x AND NOT (mask 7)) AND take_bit 7 x = 0"
    by (rule bit_word_eqI) (auto simp: bit_simps)
  ultimately have "(x AND NOT (mask 7)) + take_bit 7 x = x"
    by (simp only: disjunctive_add_eq_or)
  then have "x AND NOT (mask 7) = x - take_bit 7 x"
    by (simp only: eq_diff_eq)
  then show ?thesis
    by (simp only: m)
qed

lemma unat_and_not_127: "unat (x AND - 128) = unat x - unat x mod 128" for x :: addr
proof -
  have t: "unat (take_bit 7 x) = unat x mod 128"
    by (simp add: take_bit_eq_mod unat_mod)
  then have "take_bit 7 x \<le> x"
    by (simp only: word_le_nat_alt)
  then show ?thesis
    by (simp only: and_not_mask7 unat_sub t)
qed

lemma unat_align_up:
  assumes "unat a + 127 < 2 ^ 64"
  shows "unat (align_up a) = (unat a + 127) div 128 * 128"
proof -
  have a: "unat (a + 127) = unat a + 127"
    using assms by (simp add: unat_word_ariths)
  have "align_up a = (a + 127) AND - 128"
    by (simp add: align_up_def RINGBUFFER_ALIGNMENT_def add.commute)
  then show ?thesis
    by (simp only: unat_and_not_127 a minus_mod_eq_div_mult)
qed

end
