(* ===== verification/Ring_Props.thy ===== *)
theory Ring_Props
  imports Ring_Batch
begin

text \<open>
  The properties of the byte ring. The examples use a ring of four bytes whose contents
  wrap around its end.
\<close>

definition wrapped_ring :: RingBuffer where
  "wrapped_ring = \<lparr>rb_buf = 128, rb_mem = [10, 20, 30, 40], rb_size = 4,
     rb_read_ptr = 3, rb_write_ptr = 1, rb_locked = False\<rparr>"

definition fresh_ring :: RingBuffer where
  "fresh_ring = \<lparr>rb_buf = 128, rb_mem = [0, 0, 0, 0], rb_size = 4,
     rb_read_ptr = 0, rb_write_ptr = 0, rb_locked = False\<rparr>"

text \<open>A kernel that always grants memory at one fixed page, for the examples.\<close>

definition page_os :: "unit vm_os" where
  "page_os = \<lparr>vm_allocate = (\<lambda>n w. (Some (16384, replicate n 0), w)),
     vm_deallocate = (\<lambda>a n w. w), vm_mlock = (\<lambda>a n w. (True, w)), vm_munlock = (\<lambda>a n w. w)\<rparr>"

subsection \<open>Reads, writes and runs\<close>

text \<open>
  C15. A write into a well-formed ring never leaves the ring's memory, accepts exactly as many
  leading bytes of the data as fit beside the reserved byte, reports that number, appends
  them to the contents and keeps the ring well-formed and its read side untouched.
\<close>

theorem ringbuffer_write_correct:
  assumes "rb_inv rb"
  shows "\<exists>rb'. ringbuffer_write rb (Some d) =
             Some (min (length d) (rb_capacity rb - length (rb_list rb)), rb') \<and>
           rb_inv rb' \<and>
           rb_list rb' = rb_list rb @ take (rb_capacity rb - length (rb_list rb)) d \<and>
           rb' = rb\<lparr>rb_mem := rb_mem rb', rb_write_ptr := rb_write_ptr rb'\<rparr>"
  using ringbuffer_write_law [OF assms, of d] by metis

theorem ringbuffer_write_correct_witness:
  "rb_inv wrapped_ring \<and> rb_list wrapped_ring = [40, 10] \<and>
   (\<exists>rb'. ringbuffer_write wrapped_ring (Some [7, 8]) = Some (1, rb') \<and> rb_list rb' = [40, 10, 7])"
proof -
  have inv: "rb_inv wrapped_ring" and l: "rb_list wrapped_ring = [40, 10]"
    by (simp_all add: wrapped_ring_def rb_inv_def rb_list_def ring_list_def)
  have "rb_capacity wrapped_ring = 3"
    by (simp add: wrapped_ring_def rb_capacity_def)
  with ringbuffer_write_correct [OF inv, of "[7, 8]"] inv l show ?thesis
    by auto
qed

text \<open>
  A read of up to \<open>n\<close> bytes from a well-formed ring never leaves the ring's memory,
  returns the first \<open>n\<close> bytes of the contents (all of them if there are fewer), reports how
  many they are and removes exactly those; the write side is untouched.
\<close>

theorem ringbuffer_read_correct:
  assumes "rb_inv rb"
  shows "\<exists>rb'. ringbuffer_read rb False n =
             Some (min n (length (rb_list rb)), take n (rb_list rb), rb') \<and>
           rb_inv rb' \<and> rb_list rb' = drop n (rb_list rb) \<and>
           rb' = rb\<lparr>rb_read_ptr := rb_read_ptr rb'\<rparr>"
  using ringbuffer_read_law [OF assms, of n] by metis

theorem ringbuffer_read_correct_witness:
  "rb_inv wrapped_ring \<and>
   (\<exists>rb'. ringbuffer_read wrapped_ring False 9 = Some (2, [40, 10], rb') \<and> rb_list rb' = [])"
proof -
  have inv: "rb_inv wrapped_ring" and l: "rb_list wrapped_ring = [40, 10]"
    by (simp_all add: wrapped_ring_def rb_inv_def rb_list_def ring_list_def)
  with ringbuffer_read_correct [OF inv, of 9] show ?thesis
    by auto
qed

text \<open>
  C9. First in, first out: in any sequence of writes and reads on a well-formed ring, no
  access leaves the ring's memory and the bytes read are the bytes accepted, in order, without
  loss, repetition or invention; what was not yet read is still in the ring.
\<close>

theorem ringbuffer_fifo:
  assumes "rb_inv rb"
  shows "\<exists>ins outs rb'. fifo_run ring_put ring_get rb ops = Some (ins, outs, rb') \<and>
           rb_inv rb' \<and> rb_list rb @ ins = outs @ rb_list rb'"
  using rq.run_fifo [OF assms, of ops] by blast

theorem ringbuffer_fifo_witness:
  "rb_inv fresh_ring \<and>
   (\<exists>ins outs rb'. fifo_run ring_put ring_get fresh_ring [Put [1, 2], Get 1, Put [3, 4], Get 5]
        = Some (ins, outs, rb') \<and> rb_inv rb' \<and> rb_list fresh_ring @ ins = outs @ rb_list rb')"
proof -
  have inv: "rb_inv fresh_ring"
    by (simp add: fresh_ring_def rb_inv_def)
  with ringbuffer_fifo [OF inv, of "[Put [1, 2], Get 1, Put [3, 4], Get 5]"] show ?thesis
    by blast
qed

subsection \<open>Batch operations and queries\<close>

text \<open>
  C21. The batch write, which loads the read pointer once and publishes the write pointer once,
  leaves the same ring and returns the same count as writing the chunks one call at a time.
\<close>

theorem batch_write_equiv:
  assumes "rb_inv rb"
  shows "ringbuffer_batch_write rb (Some cs) = write_all rb cs"
  using assms by (rule batch_write_eq_write_all)

theorem batch_write_equiv_witness:
  "rb_inv wrapped_ring \<and>
   ringbuffer_batch_write wrapped_ring (Some [None, Some [], Some [5, 6], Some [7]]) =
     write_all wrapped_ring [None, Some [], Some [5, 6], Some [7]]"
proof -
  have inv: "rb_inv wrapped_ring"
    by (simp add: wrapped_ring_def rb_inv_def)
  with batch_write_equiv [OF inv] show ?thesis
    by blast
qed

text \<open>
  The batch read fills the chunks with the same bytes, leaves the same ring and returns
  the same count as reading the chunks one call at a time.
\<close>

theorem batch_read_equiv:
  assumes "rb_inv rb"
  shows "ringbuffer_batch_read rb (Some cs) = read_all rb cs"
  using assms by (rule batch_read_eq_read_all)

theorem batch_read_equiv_witness:
  "rb_inv wrapped_ring \<and>
   ringbuffer_batch_read wrapped_ring (Some [(True, 3), (False, 1), (False, 4)]) =
     read_all wrapped_ring [(True, 3), (False, 1), (False, 4)]"
proof -
  have inv: "rb_inv wrapped_ring"
    by (simp add: wrapped_ring_def rb_inv_def)
  with batch_read_equiv [OF inv] show ?thesis
    by blast
qed

text \<open>
  The two space queries agree with the contents and with each other: together they always
  account for the whole ring except the byte reserved to tell full from empty.
\<close>

theorem space_queries_partition:
  assumes "rb_inv rb"
  shows "ringbuffer_readable rb = length (rb_list rb) \<and>
         ringbuffer_readable rb + ringbuffer_writeable rb + 1 = rb_size rb"
proof -
  have "0 < rb_size rb" "length (rb_list rb) \<le> rb_size rb - 1"
    using assms length_rb_list_capacity [OF assms] by (simp_all add: rb_inv_def rb_capacity_def)
  then show ?thesis
    by (simp add: readable_eq [OF assms] writeable_eq [OF assms] rb_capacity_def)
qed

theorem space_queries_partition_witness:
  "rb_inv wrapped_ring \<and> ringbuffer_readable wrapped_ring = 2 \<and> ringbuffer_writeable wrapped_ring = 1"
proof -
  have inv: "rb_inv wrapped_ring" and l: "rb_list wrapped_ring = [40, 10]" "rb_size wrapped_ring = 4"
    by (simp_all add: wrapped_ring_def rb_inv_def rb_list_def ring_list_def)
  with space_queries_partition [OF inv] show ?thesis
    by simp
qed

subsection \<open>Inline access\<close>

text \<open>
  The inline read accessor hands out a pointer and a length that cover exactly the
  contents when they do not wrap. When they wrap, the advertised length runs past the end of
  the ring's memory: the pointer and length are not a valid object.
\<close>

theorem read_inline_contiguous_iff:
  assumes "rb_inv rb"
  shows "inline_view rb =
    (if rb_read_ptr rb \<le> rb_write_ptr rb \<or> rb_write_ptr rb = 0 then Some (rb_list rb) else None)"
  using assms by (rule inline_view_eq)

theorem read_inline_contiguous_iff_witness:
  "rb_inv wrapped_ring \<and> inline_view wrapped_ring = None"
proof -
  have inv: "rb_inv wrapped_ring"
    by (simp add: wrapped_ring_def rb_inv_def)
  with read_inline_contiguous_iff [OF inv] show ?thesis
    by (simp add: wrapped_ring_def)
qed

text \<open>
  The inline write accessor offers a window inside the ring's memory. Storing at most the
  writeable number of bytes there appends them. The window is one byte larger than that when
  the ring is wrapped or its read pointer is 0, and a producer that fills it completely leaves
  the two pointers equal: the ring then reports that it is empty, and both the stored bytes
  and the unread ones are lost.
\<close>

theorem write_inline_commit:
  assumes "rb_inv rb" and "length d \<le> snd (ringbuffer_write_inline rb)"
  shows "\<exists>rb'. inline_commit rb d = Some rb' \<and> rb_inv rb' \<and>
           rb_list rb' = (if length d \<le> ringbuffer_writeable rb then rb_list rb @ d else [])"
  using inline_commit_law [OF assms] by (metis writeable_eq [OF assms(1)])

theorem write_inline_commit_witness:
  "rb_inv wrapped_ring \<and> rb_list wrapped_ring = [40, 10] \<and>
   snd (ringbuffer_write_inline wrapped_ring) = 2 \<and> ringbuffer_writeable wrapped_ring = 1 \<and>
   (\<exists>rb'. inline_commit wrapped_ring [7, 8] = Some rb' \<and> rb_inv rb' \<and> rb_list rb' = [])"
proof -
  have inv: "rb_inv wrapped_ring" and l: "rb_list wrapped_ring = [40, 10]"
    by (simp_all add: wrapped_ring_def rb_inv_def rb_list_def ring_list_def)
  have w: "snd (ringbuffer_write_inline wrapped_ring) = 2"
    by (simp add: write_inline_eq [OF inv]) (simp add: wrapped_ring_def)
  have r: "ringbuffer_writeable wrapped_ring = 1"
    by (simp add: writeable_eq [OF inv] l) (simp add: wrapped_ring_def rb_capacity_def)
  have "length [7, 8 :: byte] \<le> snd (ringbuffer_write_inline wrapped_ring)"
    by (simp add: w)
  with write_inline_commit [OF inv this] inv l w r show ?thesis
    by simp
qed

subsection \<open>Allocation and release\<close>

lemma ringbuffer_init_effect:
  assumes "vm_allocate os (RINGBUFFER_SIZE + RINGBUFFER_ALIGNMENT) w = (Some (a, region), w1)"
    and "length region = RINGBUFFER_SIZE + RINGBUFFER_ALIGNMENT" and "unat a + length region < 2 ^ 64"
  obtains m ok w2 where "ringbuffer_init os rb w = Some (0, \<lparr>rb_buf = align_up a, rb_mem = m,
      rb_size = RINGBUFFER_SIZE, rb_read_ptr = 0, rb_write_ptr = 0, rb_locked = ok\<rparr>, w2)"
    and "length m = RINGBUFFER_SIZE" and "set m \<subseteq> set region"
    and "unat (align_up a) = (unat a + 127) div 128 * 128" and "unat a \<le> unat (align_up a)"
    and "unat (align_up a) + RINGBUFFER_SIZE \<le> unat a + length region"
proof -
  let ?p = "(unat a + 127) div 128 * 128"
  have sz: "RINGBUFFER_SIZE = 8388608" "RINGBUFFER_ALIGNMENT = 128"
    by (simp_all add: RINGBUFFER_SIZE_def RINGBUFFER_ALIGNMENT_def)
  have p: "unat (align_up a) = ?p"
    using assms(2,3) sz by (intro unat_align_up) simp
  have off: "unat (align_up a - a) = ?p - unat a" "unat a \<le> ?p" "?p \<le> unat a + 127"
    using p by (auto simp: unat_sub word_le_nat_alt)
  have fits: "?p - unat a + RINGBUFFER_SIZE \<le> length region"
    using off(2,3) by (simp only: assms(2) sz)
  let ?m = "take RINGBUFFER_SIZE (drop (?p - unat a) region)"
  have m: "mem_read region (?p - unat a) RINGBUFFER_SIZE = Some ?m"
    using fits by (rule mem_read_in)
  obtain ok w2 where ml: "vm_mlock os (align_up a) RINGBUFFER_SIZE w1 = (ok, w2)"
    by (cases "vm_mlock os (align_up a) RINGBUFFER_SIZE w1")
  have "ringbuffer_init os rb w = Some (0, \<lparr>rb_buf = align_up a, rb_mem = ?m,
      rb_size = RINGBUFFER_SIZE, rb_read_ptr = 0, rb_write_ptr = 0, rb_locked = ok\<rparr>, w2)"
    using assms(1) m ml off(1) by (cases ok) (simp_all add: ringbuffer_init_def)
  moreover have "set ?m \<subseteq> set region"
    by (meson order_trans set_drop_subset set_take_subset)
  moreover have "length ?m = RINGBUFFER_SIZE" "unat a \<le> unat (align_up a)"
      "unat (align_up a) + RINGBUFFER_SIZE \<le> unat a + length region"
    using off(2) fits p by auto
  ultimately show ?thesis
    using that p by blast
qed

text \<open>
  C22. When the kernel grants the requested region, initialisation succeeds without leaving it:
  the ring is empty and well-formed with all but one of its 8 MiB writable, and its buffer is
  aligned to 128 bytes and lies inside the region.
\<close>

theorem ringbuffer_init_ready:
  assumes "vm_allocate os (RINGBUFFER_SIZE + RINGBUFFER_ALIGNMENT) w = (Some (a, region), w1)"
    and "length region = RINGBUFFER_SIZE + RINGBUFFER_ALIGNMENT"
    and "unat a + length region < 2 ^ 64"
  shows "\<exists>rb' w2. ringbuffer_init os rb w = Some (0, rb', w2) \<and> rb_inv rb' \<and> rb_list rb' = [] \<and>
           ringbuffer_writeable rb' = RINGBUFFER_SIZE - 1 \<and>
           unat (rb_buf rb') mod RINGBUFFER_ALIGNMENT = 0 \<and> unat a \<le> unat (rb_buf rb') \<and>
           unat (rb_buf rb') + RINGBUFFER_SIZE \<le> unat a + length region"
proof -
  obtain m ok w2 where r: "ringbuffer_init os rb w = Some (0, \<lparr>rb_buf = align_up a, rb_mem = m,
      rb_size = RINGBUFFER_SIZE, rb_read_ptr = 0, rb_write_ptr = 0, rb_locked = ok\<rparr>, w2)"
      "length m = RINGBUFFER_SIZE" "unat (align_up a) = (unat a + 127) div 128 * 128" "unat a \<le> unat (align_up a)"
      "unat (align_up a) + RINGBUFFER_SIZE \<le> unat a + length region"
    by (rule ringbuffer_init_effect [OF assms])
  let ?rb = "\<lparr>rb_buf = align_up a, rb_mem = m, rb_size = RINGBUFFER_SIZE, rb_read_ptr = 0, rb_write_ptr = 0, rb_locked = ok\<rparr>"
  have inv: "rb_inv ?rb" and l: "rb_list ?rb = []"
    using r(2) by (auto simp: rb_inv_def rb_list_def ring_list_def RINGBUFFER_SIZE_def)
  have "ringbuffer_writeable ?rb = RINGBUFFER_SIZE - 1"
    by (simp add: writeable_eq [OF inv] l) (simp add: rb_capacity_def)
  moreover have "unat (align_up a) mod RINGBUFFER_ALIGNMENT = 0"
    by (simp add: r(3) RINGBUFFER_ALIGNMENT_def)
  ultimately show ?thesis
    using r(1,4,5) inv l by auto
qed

theorem ringbuffer_init_ready_witness:
  "\<exists>rb' w2. ringbuffer_init page_os fresh_ring () = Some (0, rb', w2) \<and> rb_inv rb' \<and> rb_list rb' = [] \<and>
     ringbuffer_writeable rb' = RINGBUFFER_SIZE - 1"
proof -
  let ?n = "RINGBUFFER_SIZE + RINGBUFFER_ALIGNMENT"
  have "vm_allocate page_os ?n () = (Some (16384, replicate ?n 0), ())"
    by (simp add: page_os_def)
  moreover have "length (replicate ?n (0 :: byte)) = ?n"
    by (rule length_replicate)
  moreover have "unat (16384 :: addr) + length (replicate ?n (0 :: byte)) < 2 ^ 64"
    by (simp add: RINGBUFFER_SIZE_def RINGBUFFER_ALIGNMENT_def del: replicate.simps)
  ultimately show ?thesis
    using ringbuffer_init_ready [of page_os "()" 16384 "replicate ?n 0" "()" fresh_ring] by blast
qed

end
