(* ===== verification/Ring_SPSC.thy ===== *)
theory Ring_SPSC
  imports Ring_Batch
begin

text \<open>
  The lock-free use of the ring: one producer thread inside \<open>ringbuffer_write\<close> and one
  consumer thread inside \<open>ringbuffer_read\<close>, interleaved step by step. A thread first loads
  the other side's pointer, then copies its bytes one by one, then publishes its own pointer.
  The acquire load and release store of the code order each thread's copies between its load
  and its store, so interleavings of these steps are the executions considered; the ghost
  fields record what was published by either side.
\<close>

datatype producer = PIdle | PCopy "byte list" nat

datatype consumer = CIdle | CCopy nat "byte list"

record spsc =
  sp_mem :: "byte list"
  sp_size :: size_t
  sp_rp :: size_t
  sp_wp :: size_t
  sp_prod :: producer
  sp_cons :: consumer
  sp_sent :: "byte list"
  sp_recvd :: "byte list"

inductive spsc_step :: "spsc \<Rightarrow> spsc \<Rightarrow> bool" where
  p_load: "sp_prod s = PIdle \<Longrightarrow> d \<noteq> [] \<Longrightarrow>
     available = space_available (sp_size s) (sp_rp s) (sp_wp s) \<Longrightarrow> available \<noteq> 0 \<Longrightarrow>
     to_write = (if length d < available then length d else available) \<Longrightarrow>
     spsc_step s (s\<lparr>sp_prod := PCopy (take to_write d) 0\<rparr>)"
| p_copy: "sp_prod s = PCopy d k \<Longrightarrow> k < length d \<Longrightarrow>
     spsc_step s (s\<lparr>sp_mem := (sp_mem s)[wrap (sp_size s) (sp_wp s + k) := d ! k],
                    sp_prod := PCopy d (Suc k)\<rparr>)"
| p_publish: "sp_prod s = PCopy d (length d) \<Longrightarrow>
     spsc_step s (s\<lparr>sp_wp := (sp_wp s + length d) mod sp_size s, sp_prod := PIdle,
                    sp_sent := sp_sent s @ d\<rparr>)"
| c_load: "sp_cons s = CIdle \<Longrightarrow> 0 < len \<Longrightarrow>
     available = data_available (sp_size s) (sp_rp s) (sp_wp s) \<Longrightarrow> available \<noteq> 0 \<Longrightarrow>
     to_read = (if len < available then len else available) \<Longrightarrow>
     spsc_step s (s\<lparr>sp_cons := CCopy to_read []\<rparr>)"
| c_copy: "sp_cons s = CCopy n bs \<Longrightarrow> length bs < n \<Longrightarrow>
     spsc_step s (s\<lparr>sp_cons := CCopy n (bs @ [sp_mem s ! wrap (sp_size s) (sp_rp s + length bs)])\<rparr>)"
| c_publish: "sp_cons s = CCopy (length bs) bs \<Longrightarrow>
     spsc_step s (s\<lparr>sp_rp := (sp_rp s + length bs) mod sp_size s, sp_cons := CIdle,
                    sp_recvd := sp_recvd s @ bs\<rparr>)"

inductive_cases spsc_stepE: "spsc_step s t"

text \<open>The executions start from an empty ring with both threads outside.\<close>

definition spsc_init :: "byte list \<Rightarrow> size_t \<Rightarrow> spsc" where
  "spsc_init m p = \<lparr>sp_mem = m, sp_size = length m, sp_rp = p, sp_wp = p, sp_prod = PIdle,
     sp_cons = CIdle, sp_sent = [], sp_recvd = []\<rparr>"

inductive spsc_reach :: "spsc \<Rightarrow> spsc \<Rightarrow> bool" for s0 where
  start: "spsc_reach s0 s0"
| step: "spsc_reach s0 s \<Longrightarrow> spsc_step s t \<Longrightarrow> spsc_reach s0 t"

text \<open>
  The invariant: the ring is well-formed, what was sent is what was received followed by the
  contents, the producer copies behind the contents, and the consumer holds a prefix of them.
\<close>

definition prod_ok :: "spsc \<Rightarrow> bool" where
  "prod_ok s = (case sp_prod s of
     PIdle \<Rightarrow> True
   | PCopy d k \<Rightarrow> k \<le> length d \<and> length d + ring_used (sp_size s) (sp_rp s) (sp_wp s) < sp_size s \<and>
       (\<forall>i < k. sp_mem s ! wrap (sp_size s) (sp_wp s + i) = d ! i))"

definition cons_ok :: "spsc \<Rightarrow> bool" where
  "cons_ok s = (case sp_cons s of
     CIdle \<Rightarrow> True
   | CCopy n bs \<Rightarrow> length bs \<le> n \<and> n \<le> ring_used (sp_size s) (sp_rp s) (sp_wp s) \<and>
       bs = take (length bs) (ring_list (sp_mem s) (sp_rp s) (sp_wp s)))"

definition spsc_inv :: "spsc \<Rightarrow> bool" where
  "spsc_inv s \<longleftrightarrow>
     ring_ok (sp_size s) (sp_mem s) (sp_rp s) (sp_wp s) \<and>
     sp_sent s = sp_recvd s @ ring_list (sp_mem s) (sp_rp s) (sp_wp s) \<and>
     prod_ok s \<and> cons_ok s"

subsection \<open>Positions outside the contents\<close>

lemma wrap_distinct:
  assumes "ring_ok sz m rp wp" and "i < ring_used sz rp wp" and "k + ring_used sz rp wp < sz"
  shows "wrap sz (rp + i) \<noteq> wrap sz (wp + k)"
  using assms by (auto simp: ring_ok_def ring_used_def wrap_def split: if_splits)

lemma wrap_inj:
  assumes "wp < sz" and "i < sz" and "k < sz" and "wrap sz (wp + i) = wrap sz (wp + k)"
  shows "i = k"
  using assms by (auto simp: wrap_def split: if_splits)

lemma ring_list_update:
  assumes ok: "ring_ok sz m rp wp" and k: "k + ring_used sz rp wp < sz"
  shows "ring_list (m[wrap sz (wp + k) := x]) rp wp = ring_list m rp wp"
proof (rule nth_equalityI)
  have ok': "ring_ok sz (m[wrap sz (wp + k) := x]) rp wp"
    using ok by (simp add: ring_ok_def)
  show len: "length (ring_list (m[wrap sz (wp + k) := x]) rp wp) = length (ring_list m rp wp)"
    by (simp add: length_ring_list [OF ok] length_ring_list [OF ok'])
  fix i assume "i < length (ring_list (m[wrap sz (wp + k) := x]) rp wp)"
  then have i: "i < ring_used sz rp wp"
    by (simp add: length_ring_list [OF ok'])
  with wrap_distinct [OF ok i k] show "ring_list (m[wrap sz (wp + k) := x]) rp wp ! i = ring_list m rp wp ! i"
    by (simp add: ring_list_nth [OF ok] ring_list_nth [OF ok'])
qed

lemma ring_list_extend:
  assumes ok: "ring_ok sz m rp wp" and len: "length d + ring_used sz rp wp < sz"
    and d: "\<forall>i < length d. m ! wrap sz (wp + i) = d ! i"
  shows "ring_ok sz m rp (wrap sz (wp + length d))"
    and "ring_used sz rp (wrap sz (wp + length d)) = ring_used sz rp wp + length d"
    and "ring_list m rp (wrap sz (wp + length d)) = ring_list m rp wp @ d"
proof -
  let ?wp' = "wrap sz (wp + length d)"
  show ok': "ring_ok sz m rp ?wp'"
    using ok len by (auto simp: ring_ok_def wrap_def)
  show used: "ring_used sz rp ?wp' = ring_used sz rp wp + length d"
    using ok len by (auto simp: ring_ok_def ring_used_def wrap_def split: if_splits)
  show "ring_list m rp ?wp' = ring_list m rp wp @ d"
  proof (rule nth_equalityI)
    show "length (ring_list m rp ?wp') = length (ring_list m rp wp @ d)"
      by (simp add: length_ring_list [OF ok] length_ring_list [OF ok'] used)
  next
    fix i assume "i < length (ring_list m rp ?wp')"
    then have i: "i < ring_used sz rp wp + length d"
      by (simp add: length_ring_list [OF ok'] used)
    then have l: "ring_list m rp ?wp' ! i = m ! wrap sz (rp + i)"
      by (intro ring_list_nth [OF ok']) (simp add: used)
    show "ring_list m rp ?wp' ! i = (ring_list m rp wp @ d) ! i"
    proof (cases "i < ring_used sz rp wp")
      case True
      with l show ?thesis
        by (simp add: nth_append length_ring_list [OF ok] ring_list_nth [OF ok])
    next
      case False
      then have "wrap sz (rp + i) = wrap sz (wp + (i - ring_used sz rp wp))"
        using ok i len by (auto simp: ring_ok_def ring_used_def wrap_def split: if_splits)
      moreover have "m ! wrap sz (wp + (i - ring_used sz rp wp)) = d ! (i - ring_used sz rp wp)"
        using False i by (intro d [rule_format]) arith
      ultimately show ?thesis
        using False l by (simp add: nth_append length_ring_list [OF ok])
    qed
  qed
qed

subsection \<open>The invariant\<close>

lemma spsc_inv_init:
  assumes "p < length m" and "length m < 2 ^ 62"
  shows "spsc_inv (spsc_init m p)"
  using assms
  by (auto simp: spsc_inv_def spsc_init_def ring_ok_def ring_list_def prod_ok_def cons_ok_def)

lemma spsc_inv_step:
  assumes step: "spsc_step s t" and inv: "spsc_inv s"
  shows "spsc_inv t"
proof -
  have ok: "ring_ok (sp_size s) (sp_mem s) (sp_rp s) (sp_wp s)"
    and sent: "sp_sent s = sp_recvd s @ ring_list (sp_mem s) (sp_rp s) (sp_wp s)"
    and p: "prod_ok s" and c: "cons_ok s"
    using inv by (simp_all add: spsc_inv_def)
  note len = length_ring_list [OF ok]
  from step show ?thesis
  proof (cases rule: spsc_step.cases)
    case (p_load d available to_write)
    have "length (take to_write d) + ring_used (sp_size s) (sp_rp s) (sp_wp s) < sp_size s"
      using p_load space_available_eq [OF ok] by auto
    with p_load(1) ok sent c show ?thesis
      by (auto simp: spsc_inv_def prod_ok_def cons_ok_def split: consumer.splits)
  next
    case (p_copy d k)
    let ?j = "wrap (sp_size s) (sp_wp s + k)"
    have k: "k + ring_used (sp_size s) (sp_rp s) (sp_wp s) < sp_size s"
      and d: "length d + ring_used (sp_size s) (sp_rp s) (sp_wp s) < sp_size s"
      "\<forall>i < k. sp_mem s ! wrap (sp_size s) (sp_wp s + i) = d ! i"
      using p p_copy by (simp_all add: prod_ok_def)
    have j: "?j < length (sp_mem s)"
      using ok k by (auto simp: ring_ok_def wrap_def)
    have "(sp_mem s)[?j := d ! k] ! wrap (sp_size s) (sp_wp s + i) = d ! i" if "i < Suc k" for i
    proof (cases "i = k")
      case False
      with that k ok have "wrap (sp_size s) (sp_wp s + i) \<noteq> ?j"
        by (auto simp: ring_ok_def dest!: wrap_inj [rotated 3])
      with False that d(2) show ?thesis by simp
    qed (use j in simp)
    moreover have "ring_ok (sp_size s) ((sp_mem s)[?j := d ! k]) (sp_rp s) (sp_wp s)"
      using ok by (simp add: ring_ok_def)
    ultimately show ?thesis
      using p_copy sent c d k
      by (auto simp: spsc_inv_def prod_ok_def cons_ok_def ring_list_update [OF ok k]
          split: consumer.splits)
  next
    case (p_publish d)
    have d: "length d + ring_used (sp_size s) (sp_rp s) (sp_wp s) < sp_size s"
      "\<forall>i < length d. sp_mem s ! wrap (sp_size s) (sp_wp s + i) = d ! i"
      using p p_publish by (simp_all add: prod_ok_def)
    have w: "(sp_wp s + length d) mod sp_size s = wrap (sp_size s) (sp_wp s + length d)"
      using ok d by (intro mod_eq_wrap) (auto simp: ring_ok_def)
    show ?thesis
      using p_publish sent c ring_list_extend [OF ok d] len
      by (auto simp: spsc_inv_def prod_ok_def cons_ok_def w split: consumer.splits)
  next
    case (c_load len available to_read)
    with data_available_eq [OF ok] ok sent p show ?thesis
      by (auto simp: spsc_inv_def prod_ok_def cons_ok_def split: producer.splits)
  next
    case (c_copy n bs)
    then have n: "length bs < ring_used (sp_size s) (sp_rp s) (sp_wp s)"
      "n \<le> ring_used (sp_size s) (sp_rp s) (sp_wp s)"
      "bs = take (length bs) (ring_list (sp_mem s) (sp_rp s) (sp_wp s))"
      using c by (auto simp: cons_ok_def)
    have "bs @ [sp_mem s ! wrap (sp_size s) (sp_rp s + length bs)] =
        take (Suc (length bs)) (ring_list (sp_mem s) (sp_rp s) (sp_wp s))"
      using n len by (simp add: take_Suc_conv_app_nth ring_list_nth [OF ok])
    with c_copy n ok sent p show ?thesis
      by (auto simp: spsc_inv_def prod_ok_def cons_ok_def len min_def split: producer.splits)
  next
    case (c_publish bs)
    then have n: "length bs \<le> ring_used (sp_size s) (sp_rp s) (sp_wp s)"
      and bs: "bs = take (length bs) (ring_list (sp_mem s) (sp_rp s) (sp_wp s))"
      using c by (auto simp: cons_ok_def)
    let ?rp' = "wrap (sp_size s) (sp_rp s + length bs)"
    have w: "(sp_rp s + length bs) mod sp_size s = ?rp'"
      using ok n ring_used_less [OF ok] by (intro mod_eq_wrap) (auto simp: ring_ok_def)
    have used: "ring_used (sp_size s) ?rp' (sp_wp s) \<le> ring_used (sp_size s) (sp_rp s) (sp_wp s)"
      using ok n by (auto simp: ring_ok_def ring_used_def wrap_def split: if_splits)
    have "bs @ ring_list (sp_mem s) ?rp' (sp_wp s) = ring_list (sp_mem s) (sp_rp s) (sp_wp s)"
      using bs ring_list_drop(2) [OF ok n] by (metis append_take_drop_id)
    with c_publish sent p used ring_list_drop(1) [OF ok n] show ?thesis
      by (auto simp: spsc_inv_def prod_ok_def cons_ok_def w split: producer.splits)
  qed
qed

lemma spsc_reach_inv:
  assumes "spsc_reach s0 s" and "spsc_inv s0"
  shows "spsc_inv s"
  using assms by (induction rule: spsc_reach.induct) (auto intro: spsc_inv_step)

subsection \<open>Properties\<close>

text \<open>The four-byte ring with its pointers at the last position, for the examples.\<close>

definition spsc_example :: spsc where
  "spsc_example = spsc_init [0, 0, 0, 0] 3"

lemma spsc_example_runs:
  "\<exists>s. spsc_reach spsc_example s \<and> sp_prod s = PCopy [7, 8] 1 \<and> sp_cons s = CCopy 1 [] \<and>
       sp_sent s = [5]"
proof -
  let ?s1 = "spsc_example\<lparr>sp_prod := PCopy [5] 0\<rparr>"
  let ?s2 = "?s1\<lparr>sp_mem := [0, 0, 0, 5], sp_prod := PCopy [5] 1\<rparr>"
  let ?s3 = "?s2\<lparr>sp_wp := 0, sp_prod := PIdle, sp_sent := [5]\<rparr>"
  let ?s4 = "?s3\<lparr>sp_prod := PCopy [7, 8] 0\<rparr>"
  let ?s5 = "?s4\<lparr>sp_mem := [7, 0, 0, 5], sp_prod := PCopy [7, 8] 1\<rparr>"
  let ?s6 = "?s5\<lparr>sp_cons := CCopy 1 []\<rparr>"
  have a: "space_available 4 3 3 = 3" "space_available 4 3 0 = 2" "data_available 4 3 0 = 1"
    "Suc (Suc (Suc (Suc 0))) = 4"
    by (simp_all add: space_available_def data_available_def add64_def sub64_def)
  have "spsc_step spsc_example ?s1"
  proof -
    have "spsc_step spsc_example (spsc_example\<lparr>sp_prod := PCopy (take 1 [5]) 0\<rparr>)"
      by (rule spsc_step.p_load [of _ _ 3]) (simp_all add: a spsc_example_def spsc_init_def)
    then show ?thesis by simp
  qed
  moreover have "spsc_step ?s1 ?s2"
    using spsc_step.p_copy [of ?s1 "[5]" 0] by (simp add: spsc_example_def spsc_init_def wrap_def)
  moreover have "spsc_step ?s2 ?s3"
    using spsc_step.p_publish [of ?s2 "[5]"] by (simp add: spsc_example_def spsc_init_def)
  moreover have "spsc_step ?s3 ?s4"
  proof -
    have "spsc_step ?s3 (?s3\<lparr>sp_prod := PCopy (take 2 [7, 8]) 0\<rparr>)"
      by (rule spsc_step.p_load [of _ _ 2]) (simp_all add: a spsc_example_def spsc_init_def)
    then show ?thesis by simp
  qed
  moreover have "spsc_step ?s4 ?s5"
    using spsc_step.p_copy [of ?s4 "[7, 8]" 0] by (simp add: spsc_example_def spsc_init_def wrap_def)
  moreover have "spsc_step ?s5 ?s6"
    by (rule spsc_step.c_load [of _ 9 1]) (simp_all add: a spsc_example_def spsc_init_def)
  ultimately have "spsc_reach spsc_example ?s6"
    by (meson spsc_reach.intros)
  then show ?thesis
    by (intro exI [of _ ?s6]) simp
qed

text \<open>
  C8. Lock-free correctness: in every interleaving of one writing and one reading thread, the
  bytes the consumer has received are a prefix of the bytes the producer has published, and
  the rest are the contents between the two pointers.
\<close>

theorem spsc_linearizable:
  assumes "spsc_reach (spsc_init m p) s" and "p < length m" and "length m < 2 ^ 62"
  shows "sp_sent s = sp_recvd s @ ring_list (sp_mem s) (sp_rp s) (sp_wp s)"
  using spsc_reach_inv [OF assms(1) spsc_inv_init [OF assms(2,3)]] by (simp add: spsc_inv_def)

theorem spsc_linearizable_witness:
  "\<exists>s. spsc_reach (spsc_init [0, 0, 0, 0] 3) s \<and> sp_sent s = [5] \<and>
       sp_sent s = sp_recvd s @ ring_list (sp_mem s) (sp_rp s) (sp_wp s)"
proof -
  obtain s where s: "spsc_reach (spsc_init [0, 0, 0, 0] 3) s" "sp_sent s = [5]"
    using spsc_example_runs by (auto simp: spsc_example_def)
  with spsc_linearizable [OF s(1)] show ?thesis
    by auto
qed

text \<open>
  C16. Freedom from data races on the buffer: while both threads are copying, the byte the
  producer is about to store is never the byte the consumer is about to load.
\<close>

theorem spsc_race_free:
  assumes "spsc_reach (spsc_init m p) s" and "p < length m" and "length m < 2 ^ 62"
    and "sp_prod s = PCopy d k" and "k < length d"
    and "sp_cons s = CCopy n bs" and "length bs < n"
  shows "wrap (sp_size s) (sp_wp s + k) \<noteq> wrap (sp_size s) (sp_rp s + length bs)"
proof -
  have "spsc_inv s"
    using spsc_reach_inv [OF assms(1) spsc_inv_init [OF assms(2,3)]] .
  with assms(4-7) show ?thesis
    by (auto simp: spsc_inv_def prod_ok_def cons_ok_def
        dest!: wrap_distinct [of _ _ _ _ "length bs" k, THEN not_sym])
qed

theorem spsc_race_free_witness:
  "\<exists>s. spsc_reach (spsc_init [0, 0, 0, 0] 3) s \<and> sp_prod s = PCopy [7, 8] 1 \<and> sp_cons s = CCopy 1 [] \<and>
       wrap (sp_size s) (sp_wp s + 1) \<noteq> wrap (sp_size s) (sp_rp s)"
proof -
  obtain s where s: "spsc_reach (spsc_init [0, 0, 0, 0] 3) s"
    "sp_prod s = PCopy [7, 8] 1" "sp_cons s = CCopy 1 []"
    using spsc_example_runs by (auto simp: spsc_example_def)
  with spsc_race_free [OF s(1) _ _ s(2) _ s(3)] show ?thesis
    by auto
qed

end
