(* ===== verification/Ws_Frame.thy ===== *)
theory Ws_Frame
  imports WS_Prelude
begin

text \<open>
  WebSocket frames: the two frame parsers of \<^verbatim>\<open>src/src/parser_neon.c\<close> and the frame headers
  that \<^verbatim>\<open>src/src/websocket.c\<close> builds, against the frame format of RFC 6455. A parser reads the
  memory behind its data pointer (\<open>None\<close> is the null pointer) and is told how many bytes of it
  are valid; its result is the return code and the frame structure.
\<close>

definition WS_OPCODE_CONT :: byte where "WS_OPCODE_CONT = 0x0"
definition WS_OPCODE_TEXT :: byte where "WS_OPCODE_TEXT = 0x1"
definition WS_OPCODE_BINARY :: byte where "WS_OPCODE_BINARY = 0x2"
definition WS_OPCODE_CLOSE :: byte where "WS_OPCODE_CLOSE = 0x8"
definition WS_OPCODE_PING :: byte where "WS_OPCODE_PING = 0x9"
definition WS_OPCODE_PONG :: byte where "WS_OPCODE_PONG = 0xA"

text \<open>The payload pointer is an offset from the data pointer, \<open>None\<close> when it is null.\<close>

record WSFrame =
  f_fin :: byte
  f_opcode :: byte
  f_mask :: byte
  f_payload_len_type :: byte
  f_payload_len :: u64
  f_masking_key :: u32
  f_payload :: "nat option"
  f_header_size :: size_t

definition zero_frame :: WSFrame where
  "zero_frame = \<lparr>f_fin = 0, f_opcode = 0, f_mask = 0, f_payload_len_type = 0, f_payload_len = 0,
     f_masking_key = 0, f_payload = None, f_header_size = 0\<rparr>"

subsection \<open>Parsing\<close>

text \<open>The common end of the three length forms: header size, completeness, payload pointer.\<close>

definition parse_finish :: "size_t \<Rightarrow> WSFrame \<Rightarrow> size_t \<Rightarrow> int \<times> WSFrame" where
  "parse_finish len f header_bytes =
     (let f1 = f\<lparr>f_header_size := header_bytes\<rparr>;
          total_frame_size = add64 header_bytes (f_payload_len f1)
      in if len < total_frame_size then (1, f1)
         else (0, f1\<lparr>f_payload := Some header_bytes\<rparr>))"

definition parse_masking_key :: "byte list \<Rightarrow> size_t \<Rightarrow> WSFrame \<Rightarrow> size_t \<Rightarrow> (int \<times> WSFrame) option" where
  "parse_masking_key d len f header_bytes =
     (if f_mask f \<noteq> 0 then
        if len < add64 header_bytes 4 then Some (1, f)
        else do {
          k \<leftarrow> mem_read d header_bytes 4;
          Some (parse_finish len (f\<lparr>f_masking_key := load_le k\<rparr>) (add64 header_bytes 4))
        }
      else Some (parse_finish len f header_bytes))"

definition neon_parse_ws_frame ::
  "byte list option \<Rightarrow> size_t \<Rightarrow> WSFrame \<Rightarrow> (int \<times> WSFrame) option" where
  "neon_parse_ws_frame data len frame =
     (case data of
        None \<Rightarrow> Some (-1, frame)
      | Some d \<Rightarrow>
          if len < 2 then Some (-1, frame)
          else do {
            byte0 \<leftarrow> mem_get d 0;
            byte1 \<leftarrow> mem_get d 1;
            let f = zero_frame\<lparr>f_fin := drop_bit 7 byte0 AND 1, f_opcode := byte0 AND 0x0F,
                               f_mask := drop_bit 7 byte1 AND 1\<rparr>;
            let payload_len = unat (byte1 AND 0x7F);
            if payload_len = 126 then
              if len < 4 then Some (1, f)
              else do {
                len16 \<leftarrow> mem_read d 2 2;
                parse_masking_key d len
                  (f\<lparr>f_payload_len := bswap16 (load_le len16), f_payload_len_type := 16\<rparr>) 4
              }
            else if payload_len = 127 then
              if len < 10 then Some (1, f)
              else do {
                len64 \<leftarrow> mem_read d 2 8;
                parse_masking_key d len
                  (f\<lparr>f_payload_len := bswap64 (load_le len64), f_payload_len_type := 64\<rparr>) 10
              }
            else parse_masking_key d len (f\<lparr>f_payload_len := payload_len, f_payload_len_type := 7\<rparr>) 2
          })"

text \<open>
  The scalar parser, as the source writes it a second time: the extended length is decoded
  first, together with the header size so far; the key and the completeness test follow.
\<close>

definition scalar_length :: "byte list \<Rightarrow> size_t \<Rightarrow> WSFrame \<Rightarrow> u64 \<Rightarrow> (WSFrame \<times> size_t option) option" where
  "scalar_length d len f payload_len =
     (if payload_len = 126 then
        (if len < 4 then Some (f, None)
         else map_option (\<lambda>b. (f\<lparr>f_payload_len := bswap16 (load_le b), f_payload_len_type := 16\<rparr>, Some 4))
                (mem_read d 2 2))
      else if payload_len = 127 then
        (if len < 10 then Some (f, None)
         else map_option (\<lambda>b. (f\<lparr>f_payload_len := bswap64 (load_le b), f_payload_len_type := 64\<rparr>, Some 10))
                (mem_read d 2 8))
      else Some (f\<lparr>f_payload_len := payload_len, f_payload_len_type := 7\<rparr>, Some 2))"

definition scalar_parse_ws_frame ::
  "byte list option \<Rightarrow> size_t \<Rightarrow> WSFrame \<Rightarrow> (int \<times> WSFrame) option" where
  "scalar_parse_ws_frame data len frame =
     (if data = None \<or> len < 2 then Some (-1, frame)
      else
        let d = the data in
        do {
          byte0 \<leftarrow> mem_get d 0;
          byte1 \<leftarrow> mem_get d 1;
          r \<leftarrow> scalar_length d len
                 (zero_frame\<lparr>f_fin := drop_bit 7 byte0 AND 1, f_opcode := byte0 AND 0x0F,
                             f_mask := drop_bit 7 byte1 AND 1\<rparr>)
                 (unat (byte1 AND 0x7F));
          case r of
            (f, None) \<Rightarrow> Some (1, f)
          | (f, Some h) \<Rightarrow>
              if f_mask f \<noteq> 0 \<and> len < add64 h 4 then Some (1, f)
              else do {
                (f', h') \<leftarrow> (if f_mask f \<noteq> 0
                            then map_option (\<lambda>k. (f\<lparr>f_masking_key := load_le k\<rparr>, add64 h 4)) (mem_read d h 4)
                            else Some (f, h));
                if len < add64 h' (f_payload_len f') then Some (1, f'\<lparr>f_header_size := h'\<rparr>)
                else Some (0, f'\<lparr>f_header_size := h', f_payload := Some h'\<rparr>)
              }
        })"

subsection \<open>Building frames\<close>

text \<open>The header of \<open>websocket_send\<close>.\<close>

definition send_header :: "bool \<Rightarrow> size_t \<Rightarrow> byte list" where
  "send_header is_text len =
     (let h0 = 0x80 OR (if is_text then WS_OPCODE_TEXT else WS_OPCODE_BINARY); h1 = 0 in
      if len < 126 then [h0, h1 OR of_nat len]
      else if len < 65536 then [h0, h1 OR 126] @ store_le 2 (bswap16 len)
      else [h0, h1 OR 127] @ store_le 8 (bswap64 len))"

text \<open>The header of \<open>websocket_send_pong\<close>, with the four bytes of the masking key in memory.\<close>

definition pong_header :: "u32 \<Rightarrow> size_t \<Rightarrow> byte list" where
  "pong_header masking_key payload_len =
     (let h0 = 0x80 OR WS_OPCODE_PONG; h1 = 0x80; k = store_le 4 masking_key in
      if payload_len < 126 then [h0, h1 OR of_nat payload_len, k ! 0, k ! 1, k ! 2, k ! 3]
      else if payload_len < 65536 then
        [h0, h1 OR 126] @ store_le 2 (bswap16 payload_len) @ [k ! 0, k ! 1, k ! 2, k ! 3]
      else
        [h0, h1 OR 127] @ store_le 8 (bswap64 payload_len) @ [k ! 0, k ! 1, k ! 2, k ! 3])"

text \<open>
  The masking loop, \<^verbatim>\<open>payload[i] ^= ((uint8_t*)&masking_key)[i % 4]\<close>, which the library uses
  both to mask and to unmask.
\<close>

fun apply_mask_from :: "nat \<Rightarrow> u32 \<Rightarrow> byte list \<Rightarrow> byte list" where
  "apply_mask_from i key [] = []"
| "apply_mask_from i key (b # bs) = (b XOR store_le 4 key ! (i mod 4)) # apply_mask_from (Suc i) key bs"

definition apply_mask :: "u32 \<Rightarrow> byte list \<Rightarrow> byte list" where
  "apply_mask key bs = apply_mask_from 0 key bs"

subsection \<open>The frame format of RFC 6455\<close>

text \<open>
  A frame is its FIN bit, its opcode, its masking key if it is masked, and its application
  data. \<open>rfc_encode\<close> is the wire format: section 5.2 for the header with the shortest length
  form, section 5.3 for the masked payload.
\<close>

record rfc_frame =
  r_fin :: bool
  r_opcode :: nat
  r_key :: "byte list option"
  r_payload :: "byte list"

definition rfc_valid :: "rfc_frame \<Rightarrow> bool" where
  "rfc_valid fr \<longleftrightarrow> r_opcode fr < 16 \<and> (\<forall>k. r_key fr = Some k \<longrightarrow> length k = 4) \<and>
     length (r_payload fr) < 2 ^ 63"

definition rfc_length7 :: "nat \<Rightarrow> nat" where
  "rfc_length7 n = (if n < 126 then n else if n < 65536 then 126 else 127)"

definition rfc_length_ext :: "nat \<Rightarrow> byte list" where
  "rfc_length_ext n = (if n < 126 then [] else if n < 65536 then rev (store_le 2 n) else rev (store_le 8 n))"

definition rfc_mask :: "byte list option \<Rightarrow> byte list \<Rightarrow> byte list" where
  "rfc_mask k bs = (case k of None \<Rightarrow> bs | Some key \<Rightarrow> map (\<lambda>i. bs ! i XOR key ! (i mod 4)) [0..<length bs])"

definition rfc_header :: "rfc_frame \<Rightarrow> byte list" where
  "rfc_header fr =
     [(if r_fin fr then 0x80 else 0) OR of_nat (r_opcode fr),
      (if r_key fr = None then 0 else 0x80) OR of_nat (rfc_length7 (length (r_payload fr)))] @
     rfc_length_ext (length (r_payload fr)) @ (case r_key fr of None \<Rightarrow> [] | Some k \<Rightarrow> k)"

definition rfc_encode :: "rfc_frame \<Rightarrow> byte list" where
  "rfc_encode fr = rfc_header fr @ rfc_mask (r_key fr) (r_payload fr)"

subsection \<open>Bits of the two header bytes\<close>

lemma byte_low:
  assumes "l < 2 ^ n"
  shows "take_bit n (of_nat l :: byte) = of_nat l"
  using assms by (simp add: take_bit_of_nat take_bit_nat_eq_self)

lemma byte_or_low:
  assumes "l < 2 ^ n" and "n \<le> 7" and "c = 0 \<or> c = (0x80 :: byte)"
  shows "take_bit n (c OR of_nat l) = of_nat l"
proof -
  have "take_bit n (take_bit 7 (0x80 :: byte)) = take_bit n 0x80"
    using assms(2) by (simp only: take_bit_take_bit min_absorb1)
  then have "take_bit n c = 0"
    using assms(3) by auto
  with byte_low [OF assms(1)] show ?thesis
    by simp
qed

lemma byte_or_high:
  assumes "l < 128" and "c = 0 \<or> c = (0x80 :: byte)"
  shows "drop_bit 7 (c OR of_nat l) AND 1 = (if c = 0 then 0 else 1)"
proof -
  have "drop_bit 7 (take_bit 7 (of_nat l :: byte)) = 0"
    by (simp add: drop_bit_take_bit)
  then have "drop_bit 7 (of_nat l :: byte) = 0"
    using byte_low [of l 7] assms(1) by simp
  then show ?thesis
    using assms(2) by auto
qed

lemma and_masks: "(b :: byte) AND 0x0F = take_bit 4 b" "b AND 0x7F = take_bit 7 b"
  by (simp_all add: take_bit_eq_mask mask_eq_exp_minus_1)

lemma rfc_length7_less: "rfc_length7 n < 128"
  by (simp add: rfc_length7_def)

lemma header_byte0:
  assumes "op < 16"
  shows "((if fin then 0x80 else 0) OR of_nat op :: byte) AND 0x0F = of_nat op"
    and "drop_bit 7 ((if fin then 0x80 else 0) OR of_nat op :: byte) AND 1 = (if fin then 1 else 0)"
  using assms byte_or_low [of op 4] byte_or_high [of op] by (auto simp: and_masks)

lemma header_byte1:
  assumes "l < 128"
  shows "unat (((if masked then 0x80 else 0) OR of_nat l :: byte) AND 0x7F) = l"
    and "drop_bit 7 ((if masked then 0x80 else 0) OR of_nat l :: byte) AND 1 = (if masked then 1 else 0)"
proof -
  have "((if masked then 0x80 else 0) OR of_nat l :: byte) AND 0x7F = of_nat l"
    using assms byte_or_low [of l 7] by (auto simp: and_masks)
  then show "unat (((if masked then 0x80 else 0) OR of_nat l :: byte) AND 0x7F) = l"
    using assms by (simp add: unat_of_nat)
qed (use assms byte_or_high [of l] in auto)

subsection \<open>Masks and lengths\<close>

lemma length_apply_mask_from [simp]: "length (apply_mask_from i key bs) = length bs"
  by (induction bs arbitrary: i) auto

lemma apply_mask_from_nth:
  "j < length bs \<Longrightarrow> apply_mask_from i key bs ! j = bs ! j XOR store_le 4 key ! ((i + j) mod 4)"
  by (induction bs arbitrary: i j) (auto simp: nth_Cons split: nat.splits)

lemma length_apply_mask [simp]: "length (apply_mask key bs) = length bs"
  by (simp add: apply_mask_def)

lemma apply_mask_eq_rfc_mask: "apply_mask key bs = rfc_mask (Some (store_le 4 key)) bs"
  by (rule nth_equalityI) (auto simp: apply_mask_def rfc_mask_def apply_mask_from_nth)

lemma apply_mask_twice: "apply_mask key (apply_mask key bs) = bs"
proof (rule nth_equalityI)
  fix i assume "i < length (apply_mask key (apply_mask key bs))"
  then show "apply_mask key (apply_mask key bs) ! i = bs ! i"
    by (simp add: apply_mask_def apply_mask_from_nth xor.assoc)
qed simp

lemma length_rfc_mask [simp]: "length (rfc_mask k bs) = length bs"
  by (auto simp: rfc_mask_def split: option.splits)

lemma bswap_ext:
  "n < 2 ^ 16 \<Longrightarrow> bswap16 (load_le (rev (store_le 2 n))) = n"
  "n < 2 ^ 64 \<Longrightarrow> bswap64 (load_le (rev (store_le 8 n))) = n"
  using bswap16_bswap16 [of n] bswap64_bswap64 [of n]
  unfolding bswap16_def [of n] bswap64_def [of n] by simp_all

lemma store_bswap:
  "store_le 2 (bswap16 n) = rev (store_le 2 n)" "store_le 8 (bswap64 n) = rev (store_le 8 n)"
  using store_load_le [of "rev (store_le 2 n)"] store_load_le [of "rev (store_le 8 n)"]
  by (simp_all add: bswap16_def bswap64_def)

subsection \<open>Parsing an encoded frame\<close>

text \<open>The frame structure that describes an encoded frame.\<close>

definition rfc_parsed :: "rfc_frame \<Rightarrow> WSFrame" where
  "rfc_parsed fr =
     \<lparr>f_fin = (if r_fin fr then 1 else 0), f_opcode = of_nat (r_opcode fr),
      f_mask = (if r_key fr = None then 0 else 1),
      f_payload_len_type = (if length (r_payload fr) < 126 then 7
         else if length (r_payload fr) < 65536 then 16 else 64),
      f_payload_len = length (r_payload fr),
      f_masking_key = (case r_key fr of None \<Rightarrow> 0 | Some k \<Rightarrow> load_le k),
      f_payload = Some (length (rfc_header fr)), f_header_size = length (rfc_header fr)\<rparr>"

definition key_bytes :: "byte list option \<Rightarrow> byte list" where
  "key_bytes k = (case k of None \<Rightarrow> [] | Some k \<Rightarrow> k)"

lemma parse_masking_key_encoded:
  assumes d: "d = pre @ key_bytes k @ body" and h: "length pre = h" "h \<le> 10"
    and k: "\<forall>x. k = Some x \<longrightarrow> length x = 4" and f: "f_mask f = (if k = None then 0 else 1)"
    and len: "h \<le> len" "len \<le> length d"
  shows "parse_masking_key d len f h =
    Some (if len < h + length (key_bytes k) then (1, f)
          else parse_finish len (f\<lparr>f_masking_key := (case k of None \<Rightarrow> f_masking_key f | Some x \<Rightarrow> load_le x)\<rparr>)
                 (h + length (key_bytes k)))"
proof (cases k)
  case None
  with f len show ?thesis
    by (simp add: parse_masking_key_def key_bytes_def)
next
  case (Some x)
  then have x: "length x = 4" "key_bytes k = x"
    using k by (simp_all add: key_bytes_def)
  have "add64 h 4 = h + 4"
    using h(2) by (simp add: arith64)
  moreover have "mem_read d h 4 = Some x" if "\<not> len < h + 4"
    using that len x h(1) d by (simp add: mem_read_def)
  ultimately show ?thesis
    using Some f x by (simp add: parse_masking_key_def)
qed

text \<open>The frame structure after the first two bytes, and after the length.\<close>

definition rfc_start :: "rfc_frame \<Rightarrow> WSFrame" where
  "rfc_start fr = zero_frame\<lparr>f_fin := if r_fin fr then 1 else 0, f_opcode := of_nat (r_opcode fr),
      f_mask := if r_key fr \<noteq> None then 1 else 0\<rparr>"

definition rfc_sized :: "rfc_frame \<Rightarrow> WSFrame" where
  "rfc_sized fr = (rfc_start fr)\<lparr>f_payload_len := length (r_payload fr),
      f_payload_len_type := f_payload_len_type (rfc_parsed fr)\<rparr>"

lemmas rfc_structs = rfc_start_def rfc_sized_def rfc_parsed_def zero_frame_def

lemma rfc_header_split:
  "rfc_header fr =
     ([(if r_fin fr then 0x80 else 0) OR of_nat (r_opcode fr),
       (if r_key fr \<noteq> None then 0x80 else 0) OR of_nat (rfc_length7 (length (r_payload fr)))] @
      rfc_length_ext (length (r_payload fr))) @ key_bytes (r_key fr)"
  by (auto simp: rfc_header_def key_bytes_def)

lemma length_rfc_length_ext: "length (rfc_length_ext n) \<le> 8"
  by (simp add: rfc_length_ext_def)

lemma neon_parse_header:
  assumes valid: "rfc_valid fr" and d: "d = rfc_header fr @ rest" and len: "2 \<le> len"
  shows "neon_parse_ws_frame (Some d) len f0 =
    (if len < 2 + length (rfc_length_ext (length (r_payload fr))) then Some (1, rfc_start fr)
     else parse_masking_key d len (rfc_sized fr) (2 + length (rfc_length_ext (length (r_payload fr)))))"
proof -
  let ?n = "length (r_payload fr)"
  let ?ext = "rfc_length_ext ?n"
  let ?b0 = "(if r_fin fr then 0x80 else 0) OR of_nat (r_opcode fr) :: byte"
  let ?b1 = "(if r_key fr \<noteq> None then 0x80 else 0) OR of_nat (rfc_length7 ?n) :: byte"
  have op: "r_opcode fr < 16" and n: "?n < 2 ^ 63"
    using valid by (simp_all add: rfc_valid_def)
  have g: "mem_get d 0 = Some ?b0" "mem_get d 1 = Some ?b1"
    by (simp_all add: d rfc_header_split mem_get_def)
  have ext: "mem_read d 2 (length ?ext) = Some ?ext"
    by (simp add: d rfc_header_split mem_read_def)
  note bits = header_byte0 [OF op, of "r_fin fr"] header_byte1 [OF rfc_length7_less, of "r_key fr \<noteq> None" ?n]
  consider "?n < 126" | "126 \<le> ?n" "?n < 65536" | "65536 \<le> ?n"
    by linarith
  then show ?thesis
  proof cases
    case 1
    then have "rfc_length7 ?n = ?n" "?ext = []"
      by (simp_all add: rfc_length7_def rfc_length_ext_def)
    with 1 len g bits show ?thesis
      by (simp add: neon_parse_ws_frame_def rfc_structs)
  next
    case 2
    then have "rfc_length7 ?n = 126" "?ext = rev (store_le 2 ?n)"
      by (simp_all add: rfc_length7_def rfc_length_ext_def)
    with 2 len g bits ext bswap_ext(1) [of ?n] show ?thesis
      by (simp add: neon_parse_ws_frame_def rfc_structs)
  next
    case 3
    then have "rfc_length7 ?n = 127" "?ext = rev (store_le 8 ?n)"
      by (simp_all add: rfc_length7_def rfc_length_ext_def)
    with 3 n len g bits ext bswap_ext(2) [of ?n] show ?thesis
      by (simp add: neon_parse_ws_frame_def rfc_structs)
  qed
qed

lemma neon_parse_encoded:
  assumes valid: "rfc_valid fr" and d: "d = rfc_encode fr @ rest"
    and len: "2 \<le> len" "len \<le> length d"
  shows "\<exists>r f. neon_parse_ws_frame (Some d) len f0 = Some (r, f) \<and>
    (if length (rfc_encode fr) \<le> len then r = 0 \<and> f = rfc_parsed fr else r = 1)"
proof -
  let ?n = "length (r_payload fr)" and ?f = "rfc_sized fr"
  let ?h = "2 + length (rfc_length_ext ?n)"
  let ?hh = "?h + length (key_bytes (r_key fr))"
  let ?body = "rfc_mask (r_key fr) (r_payload fr) @ rest"
  have key: "\<forall>x. r_key fr = Some x \<longrightarrow> length x = 4" and n: "?n < 2 ^ 63"
    using valid by (simp_all add: rfc_valid_def)
  have d': "d = rfc_header fr @ ?body"
    by (simp add: d rfc_encode_def)
  have total: "length (rfc_header fr) = ?hh" "length (rfc_encode fr) = ?hh + ?n"
    by (simp_all add: rfc_encode_def rfc_header_split)
  have small: "?h \<le> 10" "length (key_bytes (r_key fr)) \<le> 4"
    using key length_rfc_length_ext [of ?n] by (auto simp: key_bytes_def split: option.splits)
  show ?thesis
  proof (cases "len < ?h")
    case True
    with neon_parse_header [OF valid d' len(1)] total show ?thesis by simp
  next
    case False
    define f3 where "f3 = ?f\<lparr>f_masking_key := (case r_key fr of None \<Rightarrow> f_masking_key ?f | Some x \<Rightarrow> load_le x)\<rparr>"
    have "parse_masking_key d len ?f ?h = Some (if len < ?hh then (1, ?f) else parse_finish len f3 ?hh)"
      unfolding f3_def using False len(2) key small(1)
      by (intro parse_masking_key_encoded [OF d' [unfolded rfc_header_split append_assoc [of _ "key_bytes _"]]])
        (auto simp: rfc_structs)
    moreover have "parse_finish len f3 ?hh =
        (if len < ?hh + ?n then (1, f3\<lparr>f_header_size := ?hh\<rparr>) else (0, rfc_parsed fr))"
      using n small total(1)
      by (simp add: parse_finish_def arith64 f3_def rfc_structs Let_def split: option.splits)
    ultimately show ?thesis
      using neon_parse_header [OF valid d' len(1)] total False by auto
  qed
qed

subsection \<open>Parsing arbitrary bytes\<close>

text \<open>What a successful parse of \<open>len\<close> valid bytes says about the frame.\<close>

definition frame_wf :: "size_t \<Rightarrow> WSFrame \<Rightarrow> bool" where
  "frame_wf len f \<longleftrightarrow> 2 \<le> f_header_size f \<and> f_header_size f \<le> 14 \<and> f_header_size f \<le> len \<and>
     f_payload_len f < 2 ^ 64 \<and> add64 (f_header_size f) (f_payload_len f) \<le> len \<and>
     f_payload f = Some (f_header_size f)"

lemma parse_masking_key_total:
  assumes "len \<le> length d" and "2 \<le> h" and "h \<le> 10" and "h \<le> len" and "f_payload_len f < 2 ^ 64"
  shows "\<exists>r g. parse_masking_key d len f h = Some (r, g) \<and> (r = 1 \<or> r = 0 \<and> frame_wf len g)"
proof -
  have h: "add64 h 4 = h + 4"
    using assms(3) by (simp add: arith64)
  show ?thesis
    using assms by (auto simp: parse_masking_key_def parse_finish_def frame_wf_def Let_def h mem_simps)
qed

lemma bswap64_load: "length b = 8 \<Longrightarrow> bswap64 (load_le b) = load_le (rev b)"
  using store_load_le [of b] by (simp add: bswap64_def)

lemma bswap_less: "length b = 2 \<Longrightarrow> bswap16 (load_le b) < 2 ^ 64" "length b = 8 \<Longrightarrow> bswap64 (load_le b) < 2 ^ 64"
  using load_le_less [of "rev (store_le 2 (load_le b))"] load_le_less [of "rev (store_le 8 (load_le b))"]
  by (simp_all add: bswap16_def bswap64_def)

lemma neon_parse_total:
  assumes "len \<le> length d"
  shows "\<exists>r f. neon_parse_ws_frame (Some d) len f0 = Some (r, f) \<and>
    (if len < 2 then r = -1 \<and> f = f0 else r = 1 \<or> r = 0 \<and> frame_wf len f)"
proof (cases "len < 2")
  case True
  then show ?thesis by (simp add: neon_parse_ws_frame_def)
next
  case False
  define b0 b1 where "b0 = d ! 0" and "b1 = d ! 1"
  have g: "mem_get d 0 = Some b0" "mem_get d 1 = Some b1"
    using False assms by (auto simp: mem_get_def b0_def b1_def)
  have "unat (b1 AND 127) < 2 ^ 64"
    using unat_byte_less [of "b1 AND 127"] by simp
  then show ?thesis
    using False assms g
    by (auto simp: neon_parse_ws_frame_def mem_simps Let_def bswap_less [simplified]
        intro!: parse_masking_key_total)
qed

lemma scalar_eq_neon: "scalar_parse_ws_frame data len frame = neon_parse_ws_frame data len frame"
proof (cases data)
  case None
  then show ?thesis by (simp add: scalar_parse_ws_frame_def neon_parse_ws_frame_def)
next
  case (Some d)
  have k: "(if f_mask f \<noteq> 0 \<and> len < add64 h 4 then Some (1, f)
      else do {
        (f', h') \<leftarrow> (if f_mask f \<noteq> 0
            then map_option (\<lambda>k. (f\<lparr>f_masking_key := load_le k\<rparr>, add64 h 4)) (mem_read d h 4)
            else Some (f, h));
        if len < add64 h' (f_payload_len f') then Some (1, f'\<lparr>f_header_size := h'\<rparr>)
        else Some (0, f'\<lparr>f_header_size := h', f_payload := Some h'\<rparr>)
      }) = parse_masking_key d len f h" for f h
    by (cases "mem_read d h 4") (auto simp: parse_masking_key_def parse_finish_def Let_def)
  show ?thesis
    by (cases "mem_get d 0"; cases "mem_get d 1"; cases "mem_read d 2 2"; cases "mem_read d 2 8")
      (simp_all add: Some scalar_parse_ws_frame_def neon_parse_ws_frame_def scalar_length_def k Let_def)
qed

subsection \<open>Built frames\<close>

lemma opcode_bytes: "WS_OPCODE_TEXT = of_nat 1" "WS_OPCODE_BINARY = of_nat 2" "WS_OPCODE_PONG = of_nat 10"
  by (simp_all add: WS_OPCODE_TEXT_def WS_OPCODE_BINARY_def WS_OPCODE_PONG_def)

lemma send_header_rfc:
  "send_header is_text (length p) @ p =
     rfc_encode \<lparr>r_fin = True, r_opcode = (if is_text then 1 else 2), r_key = None, r_payload = p\<rparr>"
  by (simp add: send_header_def rfc_encode_def rfc_header_def rfc_mask_def rfc_length7_def
      rfc_length_ext_def store_bswap opcode_bytes Let_def)

lemma four_nths: "length k = 4 \<Longrightarrow> [k ! 0, k ! 1, k ! 2, k ! 3] = k"
  by (auto simp: length_Suc_conv numeral_eq_Suc)

lemma pong_header_rfc:
  "pong_header key (length p) @ apply_mask key p =
     rfc_encode \<lparr>r_fin = True, r_opcode = 10, r_key = Some (store_le 4 key), r_payload = p\<rparr>"
  using four_nths [of "store_le 4 key"]
  by (simp add: pong_header_def rfc_encode_def rfc_header_def apply_mask_eq_rfc_mask rfc_length7_def
      rfc_length_ext_def store_bswap opcode_bytes Let_def)

subsection \<open>Streams of frames\<close>

text \<open>
  What the receive path relies on in a frame parser: it never reads past the valid bytes, it
  describes a complete frame at the front of the data exactly, and it asks for more data on an
  incomplete one.
\<close>

type_synonym parser = "byte list option \<Rightarrow> size_t \<Rightarrow> WSFrame \<Rightarrow> (int \<times> WSFrame) option"

fun split_frames :: "parser \<Rightarrow> nat \<Rightarrow> byte list \<Rightarrow> WSFrame list \<times> byte list" where
  "split_frames parse 0 d = ([], d)"
| "split_frames parse (Suc n) d =
     (case parse (Some d) (length d) zero_frame of
        None \<Rightarrow> ([], d)
      | Some (r, f) \<Rightarrow>
          if r \<noteq> 0 then ([], d)
          else
            let (fs, rest) = split_frames parse n (drop (add64 (f_header_size f) (f_payload_len f)) d)
            in (f # fs, rest))"

locale frame_parser =
  fixes parse :: parser
  assumes parse_total: "len \<le> length d \<Longrightarrow>
      \<exists>r f. parse (Some d) len f0 = Some (r, f) \<and>
        (if len < 2 then r = -1 \<and> f = f0 else r = 1 \<or> r = 0 \<and> frame_wf len f)"
    and parse_encoded: "rfc_valid fr \<Longrightarrow> 2 \<le> len \<Longrightarrow> len \<le> length (rfc_encode fr @ rest) \<Longrightarrow>
      \<exists>r f. parse (Some (rfc_encode fr @ rest)) len f0 = Some (r, f) \<and>
        (if length (rfc_encode fr) \<le> len then r = 0 \<and> f = rfc_parsed fr else r = 1)"
begin

lemma parse_complete:
  assumes "rfc_valid fr"
  shows "parse (Some (rfc_encode fr @ rest)) (length (rfc_encode fr @ rest)) f0 = Some (0, rfc_parsed fr)"
proof -
  have "2 \<le> length (rfc_encode fr @ rest)"
    by (simp add: rfc_encode_def rfc_header_split)
  from parse_encoded [OF assms this order_refl, of f0] show ?thesis
    by auto
qed

lemma parse_incomplete:
  assumes "rfc_valid fr" and "2 \<le> len" and "len < length (rfc_encode fr)"
  shows "\<exists>f. parse (Some (rfc_encode fr)) len f0 = Some (1, f)"
  using parse_encoded [OF assms(1,2), of "[]" f0] assms(3) by auto

lemma split_encoded:
  assumes "\<forall>fr \<in> set frs. rfc_valid fr"
  shows "split_frames parse (length frs) (concat (map rfc_encode frs) @ rest) = (map rfc_parsed frs, rest)"
  using assms
proof (induction frs)
  case Nil
  then show ?case by simp
next
  case (Cons fr frs)
  then have v: "rfc_valid fr" by simp
  have "length (rfc_header fr) \<le> 14" "length (r_payload fr) < 2 ^ 63"
    using v length_rfc_length_ext [of "length (r_payload fr)"]
    by (auto simp: rfc_valid_def rfc_header_split key_bytes_def split: option.splits)
  then have "add64 (f_header_size (rfc_parsed fr)) (f_payload_len (rfc_parsed fr)) = length (rfc_encode fr)"
    by (simp add: rfc_parsed_def rfc_encode_def arith64)
  with Cons parse_complete [OF v, of "concat (map rfc_encode frs) @ rest" zero_frame] show ?case
    by simp
qed

end

interpretation neon: frame_parser neon_parse_ws_frame
  by unfold_locales (rule neon_parse_total, assumption, rule neon_parse_encoded, auto)

interpretation scalar: frame_parser scalar_parse_ws_frame
  unfolding frame_parser_def scalar_eq_neon
  using neon.frame_parser_axioms unfolding frame_parser_def .

end
