(* ===== verification/Frame_Props.thy ===== *)
theory Frame_Props
  imports Ws_Frame
begin

text \<open>The properties of frame parsing and frame building.\<close>

definition hello_frame :: rfc_frame where
  "hello_frame = \<lparr>r_fin = True, r_opcode = 1, r_key = Some [1, 2, 3, 4], r_payload = [72, 105]\<rparr>"

definition ping_frame :: rfc_frame where
  "ping_frame = \<lparr>r_fin = True, r_opcode = 9, r_key = None, r_payload = []\<rparr>"

lemma example_frames: "rfc_valid hello_frame" "rfc_valid ping_frame"
  by (simp_all add: rfc_valid_def hello_frame_def ping_frame_def)

text \<open>
  C11. Memory safety of frame parsing: whatever the bytes are, the parser never reads past the
  bytes it was told are valid, and its return code is \<open>-1\<close> exactly when there are fewer than
  two bytes, \<open>1\<close> or \<open>0\<close> otherwise.
\<close>

theorem neon_parse_memory_safe:
  assumes "len \<le> length d"
  shows "\<exists>r f. neon_parse_ws_frame (Some d) len f0 = Some (r, f) \<and>
           (r = -1 \<longleftrightarrow> len < 2) \<and> (r = -1 \<or> r = 0 \<or> r = 1)"
  using neon.parse_total [OF assms, of f0] by (auto split: if_splits)

theorem neon_parse_memory_safe_witness:
  "\<exists>r f. neon_parse_ws_frame (Some [0x81, 0xFE, 1]) 3 zero_frame = Some (r, f) \<and> r \<noteq> -1"
  using neon_parse_memory_safe [of 3 "[0x81, 0xFE, 1]" zero_frame] by auto

text \<open>
  C10. The parser decodes RFC 6455: on data that starts with an encoded frame, of which at least
  two and not necessarily all bytes have arrived, it returns \<open>0\<close> with exactly that frame's
  fields, key, payload position and length once the whole frame is there, and \<open>1\<close> (more data
  needed) as long as it is not.
\<close>

theorem neon_parse_decodes_rfc:
  assumes "rfc_valid fr" and "2 \<le> len" and "len \<le> length (rfc_encode fr @ rest)"
  shows "\<exists>r f. neon_parse_ws_frame (Some (rfc_encode fr @ rest)) len f0 = Some (r, f) \<and>
           (if length (rfc_encode fr) \<le> len then r = 0 \<and> f = rfc_parsed fr else r = 1)"
  using assms by (rule neon.parse_encoded)

theorem neon_parse_decodes_rfc_witness:
  "rfc_valid hello_frame \<and> length (rfc_encode hello_frame) = 8 \<and>
   (\<exists>f. neon_parse_ws_frame (Some (rfc_encode hello_frame @ [7])) 7 zero_frame = Some (1, f)) \<and>
   neon_parse_ws_frame (Some (rfc_encode hello_frame @ [7])) 9 zero_frame = Some (0, rfc_parsed hello_frame)"
proof -
  have l: "length (rfc_encode hello_frame) = 8"
    by (simp add: rfc_encode_def rfc_header_def hello_frame_def rfc_length_ext_def)
  then show ?thesis
    using neon_parse_decodes_rfc [OF example_frames(1), of 7 "[7]" zero_frame]
      neon_parse_decodes_rfc [OF example_frames(1), of 9 "[7]" zero_frame] example_frames(1)
    by auto
qed

text \<open>C23. The scalar parser agrees with the accelerated one on every input, faults included.\<close>

theorem scalar_neon_equiv:
  "scalar_parse_ws_frame data len frame = neon_parse_ws_frame data len frame"
  by (rule scalar_eq_neon)

text \<open>
  A stream that starts with any number of encoded frames is split into exactly those
  frames, in order, and the bytes after them are left over.
\<close>

theorem frame_stream_split:
  assumes "\<forall>fr \<in> set frs. rfc_valid fr"
  shows "split_frames neon_parse_ws_frame (length frs) (concat (map rfc_encode frs) @ rest) =
           (map rfc_parsed frs, rest)"
  using assms by (rule neon.split_encoded)

theorem frame_stream_split_witness:
  "split_frames neon_parse_ws_frame 2 (rfc_encode hello_frame @ rfc_encode ping_frame @ [5]) =
     ([rfc_parsed hello_frame, rfc_parsed ping_frame], [5])"
  using frame_stream_split [of "[hello_frame, ping_frame]" "[5]"] example_frames
  by (simp add: numeral_2_eq_2)

text \<open>
  C24. Round trip of a sent message: the header that \<open>websocket_send\<close> builds, followed by the
  message, parses as one complete final frame of the right opcode whose payload is the message.
\<close>

theorem send_parse_roundtrip:
  assumes "length p < 2 ^ 63"
  shows "\<exists>f. neon_parse_ws_frame (Some (send_header is_text (length p) @ p))
               (length (send_header is_text (length p) @ p)) f0 = Some (0, f) \<and>
             f_fin f = 1 \<and> f_opcode f = (if is_text then WS_OPCODE_TEXT else WS_OPCODE_BINARY) \<and>
             f_mask f = 0 \<and> f_payload_len f = length p \<and>
             take (f_payload_len f) (drop (f_header_size f) (send_header is_text (length p) @ p)) = p"
proof -
  let ?fr = "\<lparr>r_fin = True, r_opcode = (if is_text then 1 else 2), r_key = None, r_payload = p\<rparr>"
  have "rfc_valid ?fr"
    using assms by (simp add: rfc_valid_def)
  from neon.parse_complete [OF this, of "[]" f0] show ?thesis
    by (simp add: send_header_rfc rfc_parsed_def opcode_bytes) (simp add: rfc_encode_def rfc_mask_def)
qed

theorem send_parse_roundtrip_witness:
  "\<exists>f. neon_parse_ws_frame (Some (send_header True 2 @ replicate 2 72)) 4 zero_frame = Some (0, f) \<and>
       f_payload_len f = 2 \<and> take 2 (drop (f_header_size f) (send_header True 2 @ replicate 2 72)) = replicate 2 72"
proof -
  have "length (send_header True 2) = 2"
    by (simp add: send_header_def)
  with send_parse_roundtrip [of "replicate 2 72" True zero_frame] show ?thesis
    by auto
qed

text \<open>
  Round trip of a pong: the header that \<open>websocket_send_pong\<close> builds, followed by the
  masked payload, parses as one complete final masked PONG frame with that key, and unmasking
  its payload gives the payload of the ping back.
\<close>

theorem pong_parse_roundtrip:
  assumes "length p < 2 ^ 63" and "key < 2 ^ 32"
  shows "\<exists>f. neon_parse_ws_frame (Some (pong_header key (length p) @ apply_mask key p))
               (length (pong_header key (length p) @ apply_mask key p)) f0 = Some (0, f) \<and>
             f_fin f = 1 \<and> f_opcode f = WS_OPCODE_PONG \<and> f_mask f = 1 \<and> f_masking_key f = key \<and>
             apply_mask (f_masking_key f)
               (take (f_payload_len f) (drop (f_header_size f) (pong_header key (length p) @ apply_mask key p))) = p"
proof -
  let ?fr = "\<lparr>r_fin = True, r_opcode = 10, r_key = Some (store_le 4 key), r_payload = p\<rparr>"
  have "rfc_valid ?fr"
    using assms by (simp add: rfc_valid_def)
  moreover have "load_le (store_le 4 key) = key"
    using assms(2) by simp
  moreover have "apply_mask key (rfc_mask (Some (store_le 4 key)) p) = p"
    by (simp add: apply_mask_eq_rfc_mask [symmetric] apply_mask_twice)
  ultimately show ?thesis
    using neon.parse_complete [of ?fr "[]" f0]
    by (simp add: pong_header_rfc rfc_parsed_def opcode_bytes) (simp add: rfc_encode_def)
qed

theorem pong_parse_roundtrip_witness:
  "\<exists>f. neon_parse_ws_frame (Some (pong_header 305419896 2 @ apply_mask 305419896 (replicate 2 72))) 8 zero_frame =
         Some (0, f) \<and> f_masking_key f = 305419896"
proof -
  have "length (pong_header 305419896 2) = 6"
    by (simp add: pong_header_def Let_def)
  with pong_parse_roundtrip [of "replicate 2 72" 305419896 zero_frame] show ?thesis
    by auto
qed

text \<open>
  A frame accepted by the parser lies inside the valid bytes if its declared length is
  below \<open>2 ^ 63\<close>, as RFC 6455 requires of every frame.
\<close>

theorem accepted_frame_in_bounds:
  assumes "len \<le> length d" and "len < 2 ^ 63"
    and "neon_parse_ws_frame (Some d) len f0 = Some (0, f)" and "f_payload_len f < 2 ^ 63"
  shows "f_header_size f + f_payload_len f \<le> len \<and> f_payload f = Some (f_header_size f)"
proof -
  have "frame_wf len f"
    using neon.parse_total [OF assms(1), of f0] assms(3) by (auto split: if_splits)
  with assms(4) show ?thesis
    by (auto simp: frame_wf_def add64_exact)
qed

theorem accepted_frame_in_bounds_witness:
  "\<exists>f. neon_parse_ws_frame (Some [0x82, 1, 9]) 3 zero_frame = Some (0, f) \<and>
       f_header_size f + f_payload_len f \<le> 3"
proof -
  have "rfc_encode \<lparr>r_fin = True, r_opcode = 2, r_key = None, r_payload = [9]\<rparr> = [0x82, 1, 9]"
    by (simp add: rfc_encode_def rfc_header_def rfc_mask_def rfc_length7_def rfc_length_ext_def)
  then have p: "neon_parse_ws_frame (Some [0x82, 1, 9]) 3 zero_frame =
      Some (0, rfc_parsed \<lparr>r_fin = True, r_opcode = 2, r_key = None, r_payload = [9]\<rparr>)"
    using neon.parse_complete [of "\<lparr>r_fin = True, r_opcode = 2, r_key = None, r_payload = [9]\<rparr>" "[]" zero_frame]
    by (simp add: rfc_valid_def numeral_3_eq_3)
  with accepted_frame_in_bounds [OF _ _ p] show ?thesis
    by (auto simp: rfc_parsed_def)
qed

text \<open>
  Without that restriction it need not: the sum of header size and declared length wraps
  around, and ten bytes that declare a payload of \<open>2 ^ 64 - 8\<close> bytes are accepted as a
  complete frame.
\<close>

theorem oversized_frame_accepted:
  "\<exists>f. neon_parse_ws_frame (Some [0x82, 0x7F, 0xFF, 0xFF, 0xFF, 0xFF, 0xFF, 0xFF, 0xFF, 0xF8]) 10 f0 =
         Some (0, f) \<and> f_header_size f = 10 \<and> f_payload_len f = 2 ^ 64 - 8"
proof -
  have "bswap64 (load_le [0xFF, 0xFF, 0xFF, 0xFF, 0xFF, 0xFF, 0xFF, 0xF8]) = 2 ^ 64 - 8"
    by (subst bswap64_load) simp_all
  then show ?thesis
    by (simp add: neon_parse_ws_frame_def mem_get_def mem_read_def parse_masking_key_def parse_finish_def
        add64_def zero_frame_def Let_def)
qed

end
