(* ===== verification/C_Strings.thy ===== *)
theory C_Strings
  imports WS_Prelude
begin

text \<open>
  What the program uses of the C library's string functions. A C string is the list of its
  bytes without the final NUL; a function that is handed memory which need not be terminated
  works on the bytes of the object, and gives \<open>None\<close> where the library would read past its end.
\<close>

text \<open>The bytes of a string literal.\<close>

definition bytes_of :: "string \<Rightarrow> byte list" where
  "bytes_of s = map of_char s"

lemma length_bytes_of [simp]: "length (bytes_of s) = length s"
  by (simp add: bytes_of_def)

lemma bytes_of_append: "bytes_of (s @ t) = bytes_of s @ bytes_of t"
  by (simp add: bytes_of_def)

text \<open>
  \<^verbatim>\<open>strstr\<close> of the C library: the first occurrence in the string that ends at the first NUL; a
  text without a NUL is read past its end.
\<close>

definition strstr :: "byte list \<Rightarrow> byte list \<Rightarrow> nat option option" where
  "strstr m pat =
     (if 0 \<in> set m then
        let s = takeWhile (\<lambda>c. c \<noteq> 0) m
        in Some (find (\<lambda>p. take (length pat) (drop p s) = pat) [0..<Suc (length s)])
      else None)"

text \<open>
  \<^verbatim>\<open>strncmp(m + pos, literal, n) == 0\<close> for a literal of length \<open>n\<close>: the bytes are read one by one
  until the first difference.
\<close>

fun strncmp_eq :: "byte list \<Rightarrow> nat \<Rightarrow> byte list \<Rightarrow> bool option" where
  "strncmp_eq m pos [] = Some True"
| "strncmp_eq m pos (c # cs) = do {
     b \<leftarrow> mem_get m pos;
     if b = c then strncmp_eq m (Suc pos) cs else Some False
   }"

text \<open>\<^verbatim>\<open>strchr\<close>: the index of the first occurrence.\<close>

definition strchr :: "byte list \<Rightarrow> byte \<Rightarrow> nat option" where
  "strchr s c = find (\<lambda>i. s ! i = c) [0..<length s]"

text \<open>\<^verbatim>\<open>tolower\<close> in the C locale.\<close>

definition tolower :: "byte \<Rightarrow> byte" where
  "tolower c = (if 65 \<le> c \<and> c \<le> 90 then c + 32 else c)"

text \<open>\<^verbatim>\<open>atoi\<close>: undefined when the value is not an \<open>int\<close>.\<close>

definition isspace :: "byte \<Rightarrow> bool" where
  "isspace c \<longleftrightarrow> c = 32 \<or> (9 \<le> c \<and> c \<le> 13)"

definition isdigit :: "byte \<Rightarrow> bool" where
  "isdigit c \<longleftrightarrow> 48 \<le> c \<and> c \<le> 57"

fun digits_value :: "nat \<Rightarrow> byte list \<Rightarrow> nat" where
  "digits_value acc [] = acc"
| "digits_value acc (c # cs) = (if isdigit c then digits_value (acc * 10 + (unat c - 48)) cs else acc)"

definition atoi :: "byte list \<Rightarrow> int option" where
  "atoi s =
     (let s1 = dropWhile isspace s;
          neg = (s1 \<noteq> [] \<and> hd s1 = 45);
          s2 = (if s1 \<noteq> [] \<and> (hd s1 = 45 \<or> hd s1 = 43) then tl s1 else s1);
          v = int (digits_value 0 s2);
          v = (if neg then - v else v)
      in if - (2 ^ 31) \<le> v \<and> v < 2 ^ 31 then Some v else None)"

subsection \<open>Occurrences\<close>

definition occ :: "byte list \<Rightarrow> byte list \<Rightarrow> nat \<Rightarrow> bool" where
  "occ pat xs p \<longleftrightarrow> p + length pat \<le> length xs \<and> take (length pat) (drop p xs) = pat"

lemma occ_alt: "pat \<noteq> [] \<Longrightarrow> occ pat xs p \<longleftrightarrow> take (length pat) (drop p xs) = pat"
proof -
  assume p: "pat \<noteq> []"
  have "p + length pat \<le> length xs" if "take (length pat) (drop p xs) = pat"
  proof -
    from that have "min (length pat) (length xs - p) = length pat"
      by (metis length_drop length_take min.commute)
    moreover have "0 < length pat"
      using p by simp
    ultimately show ?thesis by linarith
  qed
  then show ?thesis by (auto simp: occ_def)
qed

lemma occ_take:
  assumes "len \<le> length json" and "p + length pat \<le> len"
  shows "occ pat (take len json) p \<longleftrightarrow> take (length pat) (drop p json) = pat"
proof -
  have "take (length pat) (drop p (take len json)) = take (length pat) (drop p json)"
    using assms(2) by (simp add: drop_take min_absorb1 le_diff_conv2)
  with assms show ?thesis by (simp add: occ_def)
qed

lemma occ_head:
  assumes "occ pat (take len json) p" and "pat \<noteq> []"
  shows "json ! p = pat ! 0"
proof -
  have "p < length (take len json)"
    using assms by (cases pat) (auto simp: occ_def)
  moreover have "take (length pat) (drop p (take len json)) ! 0 = pat ! 0"
    using assms(1) by (simp add: occ_def)
  ultimately show ?thesis
    using assms(2) by simp
qed

lemma find_upt_split:
  assumes "a \<le> b" and "b \<le> c"
  shows "find P [a..<c] = (case find P [a..<b] of None \<Rightarrow> find P [b..<c] | Some p \<Rightarrow> Some p)"
proof -
  have "[a..<c] = [a..<b] @ [b..<c]"
    using assms by (metis le_add_diff_inverse upt_add_eq_append)
  moreover have "find P (xs @ ys) = (case find P xs of None \<Rightarrow> find P ys | Some p \<Rightarrow> Some p)" for xs ys
    by (induction xs) auto
  ultimately show ?thesis by simp
qed

text \<open>\<open>strstr\<close> returns the first occurrence.\<close>

lemma strstr_Some:
  assumes "0 \<notin> set s" and "pat \<noteq> []"
  shows "strstr (s @ 0 # rest) pat = Some (find (occ pat s) [0..<Suc (length s)])"
proof -
  have "takeWhile (\<lambda>c. c \<noteq> 0) (s @ 0 # rest) = s"
    using assms(1) by (simp add: takeWhile_append)
  then show ?thesis
    using assms(2) by (simp add: strstr_def occ_alt cong: find_cong)
qed

lemma strncmp_eq_in:
  assumes "pos + length cs \<le> length m"
  shows "strncmp_eq m pos cs = Some (take (length cs) (drop pos m) = cs)"
  using assms
proof (induction cs arbitrary: pos)
  case (Cons c cs)
  then have "drop pos m = m ! pos # drop (Suc pos) m"
    by (subst Cons_nth_drop_Suc) simp_all
  with Cons show ?case
    by (auto simp: mem_get_def)
qed simp

lemma strchr_append:
  assumes "c \<notin> set s"
  shows "strchr (s @ c # t) c = Some (length s)"
  unfolding strchr_def find_upt_Some using assms by (auto simp: nth_append in_set_conv_nth)

lemma strchr_None: "c \<notin> set s \<Longrightarrow> strchr s c = None"
  by (auto simp: strchr_def find_upt_None in_set_conv_nth)

subsection \<open>Decimal numbers\<close>

fun decimal :: "nat \<Rightarrow> byte list" where
  "decimal n = (if n < 10 then [of_nat (48 + n)] else decimal (n div 10) @ [of_nat (48 + n mod 10)])"

declare decimal.simps [simp del]

lemma digit_byte:
  assumes "d < 10"
  shows "isdigit (of_nat (48 + d))" and "unat (of_nat (48 + d) :: byte) = 48 + d"
proof -
  show u: "unat (of_nat (48 + d) :: byte) = 48 + d"
    using assms by (simp only: unsigned_of_nat) (simp add: take_bit_nat_eq_self)
  show "isdigit (of_nat (48 + d))"
    using assms u unfolding isdigit_def word_le_nat_alt by simp
qed

lemma digits_value_append:
  "\<forall>c \<in> set ds. isdigit c \<Longrightarrow> digits_value acc (ds @ cs) = digits_value (digits_value acc ds) cs"
  by (induction ds arbitrary: acc) auto

lemma decimal_digits: "\<forall>c \<in> set (decimal n). isdigit c"
proof (induction n rule: decimal.induct)
  case (1 n)
  then show ?case
    using digit_byte(1) [of "n mod 10"] digit_byte(1) [of n] by (subst decimal.simps) auto
qed

lemma decimal_ne [simp]: "decimal n \<noteq> []"
  by (subst decimal.simps) simp

lemma digits_value_decimal: "digits_value 0 (decimal n) = n"
proof (induction n rule: decimal.induct)
  case (1 n)
  show ?case
  proof (cases "n < 10")
    case True
    then show ?thesis
      using digit_byte [of n] by (subst decimal.simps) simp
  next
    case False
    then have "digits_value 0 (decimal n) = digits_value (n div 10) [of_nat (48 + n mod 10)]"
      using 1 decimal_digits by (subst decimal.simps) (simp add: digits_value_append)
    also have "\<dots> = n div 10 * 10 + n mod 10"
      using digit_byte [of "n mod 10"] by simp
    finally show ?thesis by simp
  qed
qed

lemma atoi_decimal:
  assumes "n < 2 ^ 31"
  shows "atoi (decimal n) = Some (int n)"
proof -
  have d: "isdigit (hd (decimal n))"
    using decimal_digits [of n] by simp
  then have "\<not> isspace (hd (decimal n))" "hd (decimal n) \<noteq> 45" "hd (decimal n) \<noteq> 43"
    by (auto simp: isdigit_def isspace_def word_le_nat_alt)
  then have "dropWhile isspace (decimal n) = decimal n"
    by (cases "decimal n") auto
  with \<open>hd (decimal n) \<noteq> 45\<close> \<open>hd (decimal n) \<noteq> 43\<close> assms show ?thesis
    by (simp add: atoi_def digits_value_decimal)
qed

end
