(* ===== verification/Json_Extract.thy ===== *)
theory Json_Extract
  imports C_Strings
begin

text \<open>
  The JSON field extraction of \<^verbatim>\<open>src/src/parser_neon.c\<close>: the accelerated search for
  \<open>"field":\<close>, the scalar one, the scanners for the value, and the extraction of several
  fields. The JSON text is a byte list of which \<open>json_len\<close> bytes are declared valid. A position
  inside an object cannot wrap, so positions are added without a modulus; the two subtractions
  that can wrap, \<^verbatim>\<open>json_len - pattern_len\<close> and \<^verbatim>\<open>value_buf_size - 1\<close>, are kept at their width.
\<close>

unbundle bit_operations_syntax

subsection \<open>Searching for the field\<close>

text \<open>
  \<^verbatim>\<open>snprintf(search_pattern, 256, "\"%s\":", field_name)\<close>: the pattern, whose length is
  tested against the size of the buffer.
\<close>

definition search_pattern :: "byte list \<Rightarrow> byte list" where
  "search_pattern field_name = 34 # field_name @ [34, 58]"

text \<open>
  The sixteen lanes of one chunk: a lane that equals the first byte of the pattern is verified
  by \<open>memcmp\<close>, if the pattern fits before \<open>json_len\<close>.
\<close>

fun chunk_loop :: "byte list \<Rightarrow> size_t \<Rightarrow> byte list \<Rightarrow> size_t \<Rightarrow> byte list \<Rightarrow> nat list \<Rightarrow> size_t option option" where
  "chunk_loop json json_len pat i cmp [] = Some None"
| "chunk_loop json json_len pat i cmp (j # js) =
     (if \<not> i + j < json_len then Some None
      else if cmp ! j \<noteq> 0 \<and> i + j + length pat \<le> json_len then do {
        b \<leftarrow> mem_read json (i + j) (length pat);
        if b = pat then Some (Some (i + j + length pat)) else chunk_loop json json_len pat i cmp js
      }
      else chunk_loop json json_len pat i cmp js)"

text \<open>\<open>vdupq_n_u8\<close> and \<open>vceqq_u8\<close>: all ones in the lanes that hold the byte.\<close>

definition lane_eq :: "byte \<Rightarrow> byte list \<Rightarrow> byte list" where
  "lane_eq c chunk = map (\<lambda>b. if b = c then 0xFF else 0) chunk"

function neon_scan :: "byte list \<Rightarrow> size_t \<Rightarrow> byte list \<Rightarrow> size_t \<Rightarrow> (size_t \<times> size_t option) option" where
  "neon_scan json json_len pat i =
     (if i + 16 \<le> json_len then do {
        chunk \<leftarrow> mem_read json i 16;
        r \<leftarrow> chunk_loop json json_len pat i (lane_eq (pat ! 0) chunk) [0..<16];
        case r of
          None \<Rightarrow> neon_scan json json_len pat (i + 16)
        | Some field_start \<Rightarrow> Some (i + 16, Some field_start)
      }
      else Some (i, None))"
  by pat_completeness auto

termination
  by (relation "measure (\<lambda>(json, json_len, pat, i). json_len - i)") auto

text \<open>The scalar search of the remaining bytes; its bound is a wrapping subtraction.\<close>

function tail_scan :: "byte list \<Rightarrow> size_t \<Rightarrow> byte list \<Rightarrow> size_t \<Rightarrow> size_t option option" where
  "tail_scan json json_len pat i =
     (if i < sub64 json_len (length pat) then do {
        b \<leftarrow> mem_read json i (length pat);
        if b = pat then Some (Some (i + length pat)) else tail_scan json json_len pat (Suc i)
      }
      else Some None)"
  by pat_completeness auto

termination
  by (relation "measure (\<lambda>(json, json_len, pat, i). sub64 json_len (length pat) - i)") auto

declare neon_scan.simps [simp del] tail_scan.simps [simp del]

definition neon_find :: "byte list \<Rightarrow> size_t \<Rightarrow> byte list \<Rightarrow> size_t option option" where
  "neon_find json json_len pat = do {
     (i, found) \<leftarrow> neon_scan json json_len pat 0;
     case found of None \<Rightarrow> tail_scan json json_len pat i | Some field_start \<Rightarrow> Some (Some field_start)
   }"

subsection \<open>Scanning the value\<close>

text \<open>The loops \<^verbatim>\<open>while (i < json_len && P(json[i])) i++\<close> over whitespace and over a bare value.\<close>

function scan_while :: "(byte \<Rightarrow> bool) \<Rightarrow> byte list \<Rightarrow> size_t \<Rightarrow> size_t \<Rightarrow> size_t option" where
  "scan_while P json json_len i =
     (if i < json_len then do {
        c \<leftarrow> mem_get json i;
        if P c then scan_while P json json_len (Suc i) else Some i
      }
      else Some i)"
  by pat_completeness auto

termination
  by (relation "measure (\<lambda>(P, json, json_len, i). json_len - i)") auto

definition blank :: "byte \<Rightarrow> bool" where
  "blank c \<longleftrightarrow> c = 32 \<or> c = 9"

definition bare :: "byte \<Rightarrow> bool" where
  "bare c \<longleftrightarrow> c \<noteq> 44 \<and> c \<noteq> 125 \<and> c \<noteq> 93 \<and> c \<noteq> 32 \<and> c \<noteq> 9 \<and> c \<noteq> 10 \<and> c \<noteq> 13"

text \<open>The loop over a string value, which steps over escaped characters.\<close>

function string_end :: "byte list \<Rightarrow> size_t \<Rightarrow> size_t \<Rightarrow> size_t option" where
  "string_end json json_len e =
     (if e < json_len then do {
        c \<leftarrow> mem_get json e;
        if c = 34 \<or> c = 0 then Some e
        else if c = 92 \<and> Suc e < json_len then string_end json json_len (e + 2)
        else string_end json json_len (Suc e)
      }
      else Some e)"
  by pat_completeness auto

termination
  by (relation "measure (\<lambda>(json, json_len, e). json_len - e)") auto

declare scan_while.simps [simp del] string_end.simps [simp del]

text \<open>Start and end of the value.\<close>

definition value_span :: "byte list \<Rightarrow> size_t \<Rightarrow> size_t \<Rightarrow> (size_t \<times> size_t) option" where
  "value_span json json_len field_start = do {
     s \<leftarrow> scan_while blank json json_len field_start;
     if s < json_len then do {
       c \<leftarrow> mem_get json s;
       if c = 34 then map_option (Pair (Suc s)) (string_end json json_len (Suc s))
       else map_option (Pair s) (scan_while bare json json_len s)
     }
     else Some (s, s)
   }"

text \<open>Copying the value, cut to the size of the caller's buffer, with the final NUL.\<close>

definition store_value ::
  "byte list \<Rightarrow> size_t \<times> size_t \<Rightarrow> byte list \<Rightarrow> size_t \<Rightarrow> (byte list \<times> size_t) option" where
  "store_value json span value_buf value_buf_size =
     (let extracted_len = sub64 (snd span) (fst span);
          extracted_len = (if value_buf_size \<le> extracted_len then sub64 value_buf_size 1 else extracted_len)
      in do {
        buf \<leftarrow> memcpy value_buf 0 json (fst span) extracted_len;
        buf \<leftarrow> mem_write buf extracted_len [0];
        Some (buf, extracted_len)
      })"

subsection \<open>The two extractors\<close>

text \<open>The result is the return code, the caller's buffer and the length stored through \<open>value_len\<close>.\<close>

definition neon_parse_json_market_data ::
  "byte list option \<Rightarrow> size_t \<Rightarrow> byte list option \<Rightarrow> byte list option \<Rightarrow> size_t \<Rightarrow> size_t option \<Rightarrow>
     (int \<times> byte list option \<times> size_t option) option" where
  "neon_parse_json_market_data json json_len field_name value_buf value_buf_size value_len =
     (case (json, field_name, value_buf, value_len) of
        (Some js, Some name, Some buf, Some _) \<Rightarrow>
          let pat = search_pattern name in
          if 256 \<le> length pat then Some (-1, value_buf, value_len)
          else do {
            found \<leftarrow> neon_find js json_len pat;
            case found of
              None \<Rightarrow> Some (-1, value_buf, value_len)
            | Some field_start \<Rightarrow> do {
                span \<leftarrow> value_span js json_len field_start;
                (buf, n) \<leftarrow> store_value js span buf value_buf_size;
                Some (0, Some buf, Some n)
              }
          }
      | _ \<Rightarrow> Some (-1, value_buf, value_len))"

text \<open>The scalar extractor tests none of its pointers.\<close>

definition scalar_parse_json_market_data ::
  "byte list option \<Rightarrow> size_t \<Rightarrow> byte list option \<Rightarrow> byte list option \<Rightarrow> size_t \<Rightarrow> size_t option \<Rightarrow>
     (int \<times> byte list option \<times> size_t option) option" where
  "scalar_parse_json_market_data json json_len field_name value_buf value_buf_size value_len = do {
     name \<leftarrow> field_name;
     let pat = search_pattern name;
     if 256 \<le> length pat then Some (-1, value_buf, value_len)
     else do {
       js \<leftarrow> json;
       pos \<leftarrow> strstr js pat;
       case pos of
         None \<Rightarrow> Some (-1, value_buf, value_len)
       | Some p \<Rightarrow> do {
           span \<leftarrow> value_span js json_len (p + length pat);
           buf \<leftarrow> value_buf;
           _ \<leftarrow> value_len;
           (buf, n) \<leftarrow> store_value js span buf value_buf_size;
           Some (0, Some buf, Some n)
         }
     }
   }"

subsection \<open>Several fields\<close>

text \<open>
  A field's value pointer is null, a pointer of the caller, or a pointer to the local
  \<open>value_buf\<close> of \<open>neon_extract_json_fields\<close>, whose lifetime ends with the loop body.
\<close>

datatype value_ptr = Null_ptr | Caller_ptr addr | Local_value_buf

record JSONField =
  j_field_name :: "byte list option"
  j_field_value :: value_ptr
  j_value_len :: size_t
  j_found :: bool

text \<open>
  One field of the array \<open>farr\<close>, whose length is \<open>field_count\<close>. The local buffer is uninitialised storage, \<open>stack\<close>; its contents after the loop
  body are not observable through a valid pointer.
\<close>

definition extract_field :: "byte list \<Rightarrow> byte list \<Rightarrow> size_t \<Rightarrow> JSONField \<Rightarrow> (JSONField \<times> int) option" where
  "extract_field stack json json_len fld =
     (case j_field_name fld of
        None \<Rightarrow> Some (fld, 0)
      | Some name \<Rightarrow> do {
          (r, buf, n) \<leftarrow> neon_parse_json_market_data (Some json) json_len (Some name) (Some stack) 256 (Some 0);
          if r = 0
          then Some (fld\<lparr>j_found := True, j_field_value := Local_value_buf,
                         j_value_len := (case n of None \<Rightarrow> 0 | Some k \<Rightarrow> k)\<rparr>, 1)
          else Some (fld\<lparr>j_found := False\<rparr>, 0)
        })"

fun extract_loop :: "byte list \<Rightarrow> byte list \<Rightarrow> size_t \<Rightarrow> JSONField list \<Rightarrow> (JSONField list \<times> int) option" where
  "extract_loop stack json json_len [] = Some ([], 0)"
| "extract_loop stack json json_len (fld # flds) = do {
     (fld', k) \<leftarrow> extract_field stack json json_len fld;
     (flds', found_count) \<leftarrow> extract_loop stack json json_len flds;
     Some (fld' # flds', k + found_count)
   }"

definition neon_extract_json_fields ::
  "byte list \<Rightarrow> byte list option \<Rightarrow> size_t \<Rightarrow> JSONField list option \<Rightarrow> (JSONField list option \<times> int) option" where
  "neon_extract_json_fields stack json json_len farr =
     (case (json, farr) of
        (Some js, Some flds) \<Rightarrow>
          if flds = [] then Some (farr, -1)
          else map_option (\<lambda>(fs, k). (Some fs, k)) (extract_loop stack js json_len flds)
      | _ \<Rightarrow> Some (farr, -1))"

subsection \<open>What the search finds\<close>

lemma search_pattern_simps [simp]:
  "length (search_pattern name) = length name + 3" "search_pattern name \<noteq> []"
  by (simp_all add: search_pattern_def)

lemma chunk_loop_find:
  assumes "len \<le> length json" and "i + 16 \<le> len" and "pat \<noteq> []" and "set js \<subseteq> {..<16}"
  shows "chunk_loop json len pat i (lane_eq (pat ! 0) (take 16 (drop i json))) js =
    Some (map_option (\<lambda>p. p + length pat) (find (occ pat (take len json)) (map ((+) i) js)))"
  using assms(4)
proof (induction js)
  case Nil
  then show ?case by simp
next
  case (Cons j js)
  let ?o = "occ pat (take len json) (i + j)"
  have lane: "lane_eq (pat ! 0) (take 16 (drop i json)) ! j \<noteq> 0 \<longleftrightarrow> json ! (i + j) = pat ! 0"
    using Cons.prems assms(1,2) by (simp add: lane_eq_def)
  have fits: "i + j + length pat \<le> len" if ?o
    using that assms(1) by (simp add: occ_def)
  have ih: "chunk_loop json len pat i (lane_eq (pat ! 0) (take 16 (drop i json))) js =
      Some (map_option (\<lambda>p. p + length pat) (find (occ pat (take len json)) (map ((+) i) js)))"
    using Cons by simp
  have j: "i + j < len"
    using Cons.prems assms(2) by simp
  show ?case
  proof (cases "i + j + length pat \<le> len")
    case False
    with fits have "\<not> ?o" by blast
    with False j ih show ?thesis by simp
  next
    case True
    then have r: "mem_read json (i + j) (length pat) = Some (take (length pat) (drop (i + j) json))"
      using assms(1) by (simp add: mem_simps)
    have o: "?o \<longleftrightarrow> take (length pat) (drop (i + j) json) = pat"
      using occ_take [OF assms(1) True] .
    have "?o \<Longrightarrow> json ! (i + j) = pat ! 0"
      by (rule occ_head [OF _ assms(3)])
    with True j ih r lane show ?thesis
      by (cases ?o) (simp_all add: o)
  qed
qed

lemma neon_scan_find:
  assumes "len \<le> length json" and "pat \<noteq> []" and "i \<le> len"
  shows "\<exists>k. neon_scan json len pat i =
    Some (k, map_option (\<lambda>p. p + length pat) (find (occ pat (take len json)) [i..<i + 16 * ((len - i) div 16)])) \<and>
    (find (occ pat (take len json)) [i..<i + 16 * ((len - i) div 16)] = None \<longrightarrow> k = i + 16 * ((len - i) div 16))"
  using assms(3)
proof (induction "len - i" arbitrary: i rule: less_induct)
  case less
  show ?case
  proof (cases "i + 16 \<le> len")
    case False
    then show ?thesis
      by (subst neon_scan.simps) simp
  next
    case True
    let ?o = "occ pat (take len json)"
    let ?e = "i + 16 * ((len - i) div 16)"
    have "(len - i) div 16 = Suc ((len - (i + 16)) div 16)"
      using True by (simp add: le_div_geq)
    then have e: "i + 16 + 16 * ((len - (i + 16)) div 16) = ?e"
      by simp
    have m: "map ((+) i) [0..<16] = [i..<i + 16]"
      by (rule nth_equalityI) simp_all
    have r: "mem_read json i 16 = Some (take 16 (drop i json))"
      using True assms(1) by (simp add: mem_simps)
    have c: "chunk_loop json len pat i (lane_eq (pat ! 0) (take 16 (drop i json))) [0..<16] =
        Some (map_option (\<lambda>p. p + length pat) (find ?o [i..<i + 16]))"
      using chunk_loop_find [OF assms(1) True assms(2), of "[0..<16]"] m by (simp add: atLeast0LessThan)
    have s: "find ?o [i..<?e] =
        (case find ?o [i..<i + 16] of None \<Rightarrow> find ?o [i + 16..<?e] | Some p \<Rightarrow> Some p)"
      using True by (intro find_upt_split) (simp_all flip: e)
    have "len - (i + 16) < len - i"
      using True by simp
    from less(1) [OF this True, unfolded e]
    obtain k where k: "neon_scan json len pat (i + 16) =
        Some (k, map_option (\<lambda>p. p + length pat) (find ?o [i + 16..<?e]))"
      and kn: "find ?o [i + 16..<?e] = None \<longrightarrow> k = ?e"
      by (elim exE conjE)
    show ?thesis
    proof (cases "find ?o [i..<i + 16]")
      case None
      have f: "find ?o [i..<?e] = find ?o [i + 16..<?e]"
        by (simp only: s None option.case)
      have "neon_scan json len pat i = neon_scan json len pat (i + 16)"
        by (subst neon_scan.simps) (simp only: True r c None if_True Option.bind.simps option.map option.case)
      then show ?thesis
        unfolding f using k kn by (intro exI [of _ k]) (simp only: simp_thms)
    next
      case (Some p)
      have f: "find ?o [i..<?e] = Some p"
        by (simp only: s Some option.case)
      have "neon_scan json len pat i = Some (i + 16, Some (p + length pat))"
        by (subst neon_scan.simps) (simp only: True r c Some if_True Option.bind.simps option.map option.case)
      then show ?thesis
        unfolding f by simp
    qed
  qed
qed

lemma tail_scan_find:
  assumes "len \<le> length json" and "length pat \<le> len" and "len < 2 ^ 64"
  shows "tail_scan json len pat i =
    Some (map_option (\<lambda>p. p + length pat) (find (occ pat (take len json)) [i..<len - length pat]))"
proof (induction "len - length pat - i" arbitrary: i rule: less_induct)
  case less
  have s: "sub64 len (length pat) = len - length pat"
    using assms by (simp add: arith64)
  show ?case
  proof (cases "i < len - length pat")
    case False
    then show ?thesis by (subst tail_scan.simps) (simp add: s)
  next
    case True
    with less [of "Suc i"] assms occ_take [OF assms(1), of i pat] show ?thesis
      by (subst tail_scan.simps) (simp add: s mem_simps upt_conv_Cons)
  qed
qed

text \<open>
  The accelerated search finds the first occurrence; only an occurrence that ends exactly at
  the end of the text, past the last full chunk, is missed.
\<close>

lemma neon_find_eq:
  assumes "len \<le> length json" and "length pat \<le> len" and "len < 2 ^ 64" and "pat \<noteq> []"
  shows "neon_find json len pat =
    Some (map_option (\<lambda>p. p + length pat)
      (find (occ pat (take len json)) [0..<max (16 * (len div 16)) (len - length pat)]))"
proof -
  let ?o = "occ pat (take len json)"
  let ?m = "16 * (len div 16)"
  obtain k where k: "neon_scan json len pat 0 = Some (k, map_option (\<lambda>p. p + length pat) (find ?o [0..<?m]))"
    and kn: "find ?o [0..<?m] = None \<longrightarrow> k = ?m"
    using neon_scan_find [OF assms(1,4), of 0] by auto
  have "find ?o [0..<max ?m (len - length pat)] =
      (case find ?o [0..<?m] of None \<Rightarrow> find ?o [?m..<max ?m (len - length pat)] | Some p \<Rightarrow> Some p)"
    by (intro find_upt_split) simp_all
  moreover have "find ?o [?m..<max ?m (len - length pat)] = find ?o [?m..<len - length pat]"
    by (cases "?m \<le> len - length pat") (simp_all add: max_def)
  ultimately show ?thesis
    using k kn by (auto simp: neon_find_def tail_scan_find [OF assms(1-3)] split: option.splits)
qed

subsection \<open>What the value scanners return\<close>

text \<open>
  The value of a field as a function of the text after the colon: the characters up to the
  closing quote, escapes skipped, or up to the next delimiter.
\<close>

fun string_body :: "byte list \<Rightarrow> byte list" where
  "string_body [] = []"
| "string_body [c] = (if c = 34 \<or> c = 0 then [] else [c])"
| "string_body (c # d # cs) =
     (if c = 34 \<or> c = 0 then [] else if c = 92 then c # d # string_body cs else c # string_body (d # cs))"

definition json_value :: "byte list \<Rightarrow> byte list" where
  "json_value xs =
     (case dropWhile blank xs of
        [] \<Rightarrow> []
      | c # cs \<Rightarrow> if c = 34 then string_body cs else takeWhile bare (c # cs))"

lemma string_body_prefix: "take (length (string_body xs)) xs = string_body xs"
  by (induction xs rule: string_body.induct) auto

lemma drop_take_Cons:
  assumes "i < len" and "len \<le> length json"
  shows "drop i (take len json) = json ! i # drop (Suc i) (take len json)"
  using assms by (subst Cons_nth_drop_Suc [symmetric]) simp_all

lemma scan_while_eq:
  assumes "len \<le> length json" and "i \<le> len"
  shows "scan_while P json len i = Some (i + length (takeWhile P (drop i (take len json))))"
  using assms(2)
proof (induction "len - i" arbitrary: i)
  case 0
  then show ?case by (subst scan_while.simps) simp
next
  case (Suc n)
  then have "i < len" by simp
  with Suc(1) [of "Suc i"] Suc(2) assms(1) show ?case
    by (subst scan_while.simps) (simp add: mem_simps drop_take_Cons)
qed

lemma string_end_eq:
  assumes "len \<le> length json" and "e \<le> len"
  shows "string_end json len e = Some (e + length (string_body (drop e (take len json))))"
  using assms(2)
proof (induction "len - e" arbitrary: e rule: less_induct)
  case less
  consider "e = len" | "Suc e = len" | "Suc e < len"
    using less.prems by linarith
  then show ?case
  proof cases
    case 1
    then show ?thesis by (subst string_end.simps) simp
  next
    case 2
    then have "e < len" by simp
    with 2 less(1) [of "Suc e"] assms(1) show ?thesis
      by (subst string_end.simps) (simp add: mem_simps drop_take_Cons)
  next
    case 3
    then have "e < len" by simp
    have "drop e (take len json) = json ! e # json ! Suc e # drop (Suc (Suc e)) (take len json)"
      "drop (Suc e) (take len json) = json ! Suc e # drop (Suc (Suc e)) (take len json)"
      using 3 assms(1) by (simp_all add: drop_take_Cons)
    with 3 less(1) [of "Suc e"] less(1) [of "Suc (Suc e)"] assms(1) \<open>e < len\<close> show ?thesis
      by (subst string_end.simps) (simp add: mem_simps)
  qed
qed

lemma value_span_eq:
  assumes "len \<le> length json" and "fs \<le> len"
  shows "\<exists>s. value_span json len fs = Some (s, s + length (json_value (drop fs (take len json)))) \<and>
    s + length (json_value (drop fs (take len json))) \<le> len \<and>
    take (length (json_value (drop fs (take len json)))) (drop s json) = json_value (drop fs (take len json))"
proof -
  let ?t = "drop fs (take len json)"
  define s where "s = fs + length (takeWhile blank ?t)"
  have sl: "s \<le> len"
    using assms length_takeWhile_le [of blank ?t] by (simp add: s_def)
  have d: "dropWhile blank ?t = drop s (take len json)"
    by (simp add: s_def dropWhile_eq_drop add.commute)
  have w: "scan_while blank json len fs = Some s"
    using scan_while_eq [OF assms] by (simp add: s_def)
  have pre: "take (length v) (drop q json) = v \<and> q + length v \<le> len"
    if "take (length v) (drop q (take len json)) = v" "q \<le> len" for v q
  proof -
    have "length (take (length v) (drop q (take len json))) = length v"
      by (simp only: that(1))
    then have "length v \<le> len - q"
      using assms(1) by (simp add: min_def split: if_splits)
    moreover from this have "take (length v) (drop q (take len json)) = take (length v) (drop q json)"
      by (simp add: drop_take min_absorb1)
    ultimately show ?thesis
      using that by simp
  qed
  show ?thesis
  proof (cases "s < len")
    case False
    then have "dropWhile blank ?t = []"
      by (simp add: d)
    then have jv: "json_value ?t = []"
      unfolding json_value_def by (simp only: list.case)
    from False w sl show ?thesis
      unfolding jv by (simp add: value_span_def)
  next
    case True
    note c = drop_take_Cons [OF True assms(1)]
    have g: "mem_get json s = Some (json ! s)"
      using True assms(1) by (simp add: mem_get_in)
    show ?thesis
    proof (cases "json ! s = 34")
      case q: True
      let ?v = "string_body (drop (Suc s) (take len json))"
      have jv: "json_value ?t = ?v"
        unfolding json_value_def d c by (simp add: q)
      have "value_span json len fs = Some (Suc s, Suc s + length ?v)"
        using True w q g string_end_eq [OF assms(1), of "Suc s"] by (simp add: value_span_def)
      moreover have "take (length ?v) (drop (Suc s) json) = ?v \<and> Suc s + length ?v \<le> len"
        using True by (intro pre string_body_prefix) simp
      ultimately show ?thesis
        unfolding jv by (intro exI [of _ "Suc s"]) simp
    next
      case q: False
      let ?v = "takeWhile bare (drop s (take len json))"
      have jv: "json_value ?t = ?v"
        unfolding json_value_def d c by (simp add: q)
      have "value_span json len fs = Some (s, s + length ?v)"
        using True w q g scan_while_eq [OF assms(1) sl] by (simp add: value_span_def)
      moreover have "take (length ?v) (drop s json) = ?v \<and> s + length ?v \<le> len"
        using sl by (intro pre takeWhile_eq_take [symmetric])
      ultimately show ?thesis
        unfolding jv by (intro exI [of _ s]) simp
    qed
  qed
qed

text \<open>The caller's buffer after storing the value \<open>v\<close>, cut to leave room for the NUL.\<close>

definition stored :: "byte list \<Rightarrow> size_t \<Rightarrow> byte list \<Rightarrow> byte list" where
  "stored buf sz v = take (sz - 1) v @ 0 # drop (Suc (min (length v) (sz - 1))) buf"

lemma store_value_eq:
  assumes "s + length v \<le> length json" and "take (length v) (drop s json) = v"
    and "0 < sz" and "sz \<le> length buf" and "length json < 2 ^ 64" and "sz < 2 ^ 64"
  shows "store_value json (s, s + length v) buf sz = Some (stored buf sz v, min (length v) (sz - 1))"
proof -
  have l: "sub64 (s + length v) s = length v" "sub64 sz 1 = sz - 1"
    using assms by (simp_all add: arith64)
  define n where "n = min (length v) (sz - 1)"
  have n: "(if sz \<le> length v then sz - 1 else length v) = n"
    using assms(3) by (auto simp: n_def)
  have r: "take n (drop s json) = take (sz - 1) v"
    using assms(2) by (metis n_def min.commute take_take)
  have tk: "take n v = take (sz - 1) v"
    by (simp add: n_def min_def)
  have nl: "n < sz" "s + n \<le> length json" "length (take (sz - 1) v) = n"
    using assms by (auto simp: n_def)
  show ?thesis
    using nl assms(4) unfolding store_value_def fst_conv snd_conv l Let_def n stored_def n_def [symmetric]
    by (simp add: memcpy_def mem_read_in r tk [simplified] mem_write_def)
qed

end
