(* ===== verification/Json_Props.thy ===== *)
theory Json_Props
  imports Json_Extract
begin

text \<open>The properties of JSON field extraction.\<close>

text \<open>What the accelerated extractor returns once the position of the field is known.\<close>

lemma neon_extract_at:
  assumes "len \<le> length json" and "length json < 2 ^ 64"
    and "length (search_pattern name) \<le> len" and "length (search_pattern name) < 256"
    and "0 < sz" and "sz \<le> length buf" and "sz < 2 ^ 64"
  shows "neon_parse_json_market_data (Some json) len (Some name) (Some buf) sz (Some n0) =
    Some (case find (occ (search_pattern name) (take len json))
                 [0..<max (16 * (len div 16)) (len - length (search_pattern name))] of
       None \<Rightarrow> (-1, Some buf, Some n0)
     | Some p \<Rightarrow>
         let v = json_value (drop (p + length (search_pattern name)) (take len json))
         in (0, Some (stored buf sz v), Some (min (length v) (sz - 1))))"
proof -
  let ?pat = "search_pattern name"
  let ?f = "find (occ ?pat (take len json)) [0..<max (16 * (len div 16)) (len - length ?pat)]"
  have f: "neon_find json len ?pat = Some (map_option (\<lambda>p. p + length ?pat) ?f)"
    using assms by (intro neon_find_eq) simp_all
  have l: "\<not> 256 \<le> length ?pat"
    using assms(4) by linarith
  show ?thesis
  proof (cases ?f)
    case None
    with f l show ?thesis
      unfolding neon_parse_json_market_data_def Let_def by simp
  next
    case (Some p)
    let ?v = "json_value (drop (p + length ?pat) (take len json))"
    from Some have "p + length ?pat \<le> len"
      using assms(1) by (simp add: find_upt_Some occ_def)
    from value_span_eq [OF assms(1) this] obtain s
      where s: "value_span json len (p + length ?pat) = Some (s, s + length ?v)"
        and b: "s + length ?v \<le> len" and v: "take (length ?v) (drop s json) = ?v"
      by (elim exE conjE)
    have "s + length ?v \<le> length json"
      using b assms(1) by linarith
    from store_value_eq [OF this v assms(5,6,2,7)] f l Some s show ?thesis
      unfolding neon_parse_json_market_data_def Let_def by simp
  qed
qed

text \<open>
  C25. JSON extraction is correct: for a text whose declared length is in bounds and at least
  that of the quoted field name, and a non-empty result buffer, the extractor accesses nothing
  out of bounds; it returns \<open>-1\<close> and leaves the results alone if the field does not occur, and
  if its first occurrence is followed by something it returns the value after that occurrence,
  cut to the buffer and NUL-terminated.
\<close>

theorem json_extract_correct:
  assumes "len \<le> length json" and "length json < 2 ^ 64"
    and "length (search_pattern name) \<le> len" and "length (search_pattern name) < 256"
    and "0 < sz" and "sz \<le> length buf" and "sz < 2 ^ 64"
  shows "((\<forall>q. \<not> occ (search_pattern name) (take len json) q) \<longrightarrow>
      neon_parse_json_market_data (Some json) len (Some name) (Some buf) sz (Some n0) =
        Some (-1, Some buf, Some n0)) \<and>
    (\<forall>p. occ (search_pattern name) (take len json) p \<and>
         (\<forall>q<p. \<not> occ (search_pattern name) (take len json) q) \<and>
         p + length (search_pattern name) < len \<longrightarrow>
      neon_parse_json_market_data (Some json) len (Some name) (Some buf) sz (Some n0) =
        (let v = json_value (drop (p + length (search_pattern name)) (take len json))
         in Some (0, Some (stored buf sz v), Some (min (length v) (sz - 1)))))"
proof (intro conjI impI allI)
  let ?f = "\<lambda>n. find (occ (search_pattern name) (take len json)) [0..<n]"
  assume "\<forall>q. \<not> occ (search_pattern name) (take len json) q"
  then have "?f n = None" for n
    by (simp add: find_upt_None)
  then show "neon_parse_json_market_data (Some json) len (Some name) (Some buf) sz (Some n0) =
      Some (-1, Some buf, Some n0)"
    by (simp only: neon_extract_at [OF assms] option.case)
next
  let ?f = "\<lambda>n. find (occ (search_pattern name) (take len json)) [0..<n]"
  fix p
  assume p: "occ (search_pattern name) (take len json) p \<and>
    (\<forall>q<p. \<not> occ (search_pattern name) (take len json) q) \<and> p + length (search_pattern name) < len"
  then have "p < max (16 * (len div 16)) (len - length (search_pattern name))"
    by linarith
  with p have "?f (max (16 * (len div 16)) (len - length (search_pattern name))) = Some p"
    unfolding find_upt_Some by blast
  then show "neon_parse_json_market_data (Some json) len (Some name) (Some buf) sz (Some n0) =
      (let v = json_value (drop (p + length (search_pattern name)) (take len json))
       in Some (0, Some (stored buf sz v), Some (min (length v) (sz - 1))))"
    by (simp only: neon_extract_at [OF assms] option.case Let_def)
qed

text \<open>The text \<^verbatim>\<open>{"p":"42","q":7}\<close> as bytes.\<close>

definition sample_json :: "byte list" where
  "sample_json = [123, 34, 112, 34, 58, 34, 52, 50, 34, 44, 34, 113, 34, 58, 55, 125]"

theorem json_extract_correct_witness:
  "neon_parse_json_market_data (Some sample_json) 16 (Some [112]) (Some (replicate 4 1)) 4 (Some 9) =
     Some (0, Some [52, 50, 0, 1], Some 2)"
proof -
  have o: "occ (search_pattern [112]) (take 16 sample_json) 1"
    by (simp add: occ_def search_pattern_def sample_json_def)
  have n: "\<forall>q<1. \<not> occ (search_pattern [112]) (take 16 sample_json) q"
    by (simp add: occ_def search_pattern_def sample_json_def)
  have v: "json_value (drop (1 + length (search_pattern [112])) (take 16 sample_json)) = [52, 50]"
    by (simp add: json_value_def blank_def search_pattern_def sample_json_def)
  have s: "stored (replicate 4 1) 4 [52, 50] = [52, 50, 0, 1]"
    by (simp add: stored_def numeral_eq_Suc)
  have l: "length sample_json = 16"
    by (simp add: sample_json_def)
  from json_extract_correct [of 16 sample_json "[112]" 4 "replicate 4 1" 9] o n v s l show ?thesis
    by (auto simp: Let_def)
qed

text \<open>
  C26. The accelerated extractor and the scalar one give the same result on every
  NUL-terminated text that is passed with its length, is at least as long as the quoted field
  name and does not end with it.
\<close>

theorem json_scalar_neon_equiv:
  assumes "0 \<notin> set s" and "length s + length rest + 1 < 2 ^ 64"
    and "length (search_pattern name) \<le> length s" and "length (search_pattern name) < 256"
    and "drop (length s - length (search_pattern name)) s \<noteq> search_pattern name"
    and "0 < sz" and "sz \<le> length buf" and "sz < 2 ^ 64"
  shows "scalar_parse_json_market_data (Some (s @ 0 # rest)) (length s) (Some name) (Some buf) sz (Some n0) =
    neon_parse_json_market_data (Some (s @ 0 # rest)) (length s) (Some name) (Some buf) sz (Some n0)"
proof -
  let ?pat = "search_pattern name"
  let ?json = "s @ 0 # rest"
  let ?B = "max (16 * (length s div 16)) (length s - length ?pat)"
  have tk: "take (length s) ?json = s" by simp
  have "\<not> occ ?pat s q" if "?B \<le> q" for q
  proof
    assume q: "occ ?pat s q"
    then have "q = length s - length ?pat"
      using that by (auto simp: occ_def)
    with q assms(3,5) show False
      by (simp add: occ_def)
  qed
  then have "find (occ ?pat s) [?B..<Suc (length s)] = None"
    unfolding find_None_iff set_upt by (meson atLeastLessThan_iff)
  moreover have "find (occ ?pat s) [0..<Suc (length s)] =
      (case find (occ ?pat s) [0..<?B] of None \<Rightarrow> find (occ ?pat s) [?B..<Suc (length s)] | Some p \<Rightarrow> Some p)"
    using times_div_less_eq_dividend [of 16 "length s"] by (intro find_upt_split) linarith+
  ultimately have e: "find (occ ?pat s) [0..<Suc (length s)] = find (occ ?pat s) [0..<?B]"
    by (cases "find (occ ?pat s) [0..<?B]") (simp_all only: option.case)
  have st: "strstr ?json ?pat = Some (find (occ ?pat s) [0..<?B])"
    unfolding e [symmetric] using assms(1) by (intro strstr_Some) simp_all
  note n = neon_extract_at [of "length s" ?json name sz buf n0, unfolded tk]
  have l: "\<not> 256 \<le> length ?pat"
    using assms(4) by linarith
  show ?thesis
  proof (cases "find (occ ?pat s) [0..<?B]")
    case None
    with n assms l st show ?thesis
      unfolding scalar_parse_json_market_data_def Let_def by simp
  next
    case (Some p)
    let ?v = "json_value (drop (p + length ?pat) s)"
    from Some have "p + length ?pat \<le> length s"
      by (simp add: find_upt_Some occ_def)
    from value_span_eq [of "length s" ?json, OF _ this, unfolded tk] obtain q
      where q: "value_span ?json (length s) (p + length ?pat) = Some (q, q + length ?v)"
        and b: "q + length ?v \<le> length s" and v: "take (length ?v) (drop q ?json) = ?v"
      by (elim exE conjE meta_impE) simp_all
    have "store_value ?json (q, q + length ?v) buf sz = Some (stored buf sz ?v, min (length ?v) (sz - 1))"
      using b v assms by (intro store_value_eq) simp_all
    with n assms l st q Some show ?thesis
      unfolding scalar_parse_json_market_data_def Let_def by simp
  qed
qed

theorem json_scalar_neon_equiv_witness:
  "scalar_parse_json_market_data (Some (sample_json @ [0])) 16 (Some [112]) (Some (replicate 4 1)) 4 (Some 9) =
   neon_parse_json_market_data (Some (sample_json @ [0])) 16 (Some [112]) (Some (replicate 4 1)) 4 (Some 9)"
proof -
  have l: "length sample_json = 16" "length (search_pattern [112]) = 4"
    by (simp_all add: sample_json_def)
  have "0 \<notin> set sample_json" "drop 12 sample_json \<noteq> search_pattern [112]"
    by (simp_all add: sample_json_def search_pattern_def)
  with json_scalar_neon_equiv [of sample_json "[]" "[112]" 4 "replicate 4 1" 9, unfolded l] show ?thesis
    by simp
qed

text \<open>
  A text shorter than the quoted field name makes the bound of the fallback loop wrap around,
  and the comparison reads past the end of the text.
\<close>

theorem json_short_text_overrun:
  assumes "length json < length (search_pattern name)" and "length (search_pattern name) < 256"
  shows "neon_parse_json_market_data (Some json) (length json) (Some name) (Some buf) sz (Some n0) = None"
proof -
  let ?pat = "search_pattern name"
  let ?k = "16 * (length json div 16)"
  have "\<not> occ ?pat (take (length json) json) q" for q
    using assms(1) by (simp add: occ_def)
  then have f: "find (occ ?pat (take (length json) json)) xs = None" for xs
    by (simp add: find_None_iff)
  from neon_scan_find [of "length json" json ?pat 0, unfolded f]
  have s: "neon_scan json (length json) ?pat 0 = Some (?k, None)"
    by auto
  have "sub64 (length json) (length ?pat) = 2 ^ 64 - (length ?pat - length json)"
    using assms by (simp add: sub64_def)
  then have "?k < sub64 (length json) (length ?pat)"
    using assms by simp
  moreover have "mem_read json ?k (length ?pat) = None"
    using assms(1) by (simp add: mem_read_def)
  ultimately have "tail_scan json (length json) ?pat ?k = None"
    by (subst tail_scan.simps) simp
  with s assms(2) show ?thesis
    by (simp add: neon_parse_json_market_data_def neon_find_def Let_def)
qed

theorem json_short_text_overrun_witness:
  "neon_parse_json_market_data (Some [123, 125]) 2 (Some [112]) (Some [0]) 1 (Some 0) = None"
  using json_short_text_overrun [of "[123, 125]" "[112]" "[0]" 1 0]
  by (simp add: search_pattern_def numeral_2_eq_2)

text \<open>Extraction of several fields.\<close>

definition field_ok :: "size_t \<Rightarrow> JSONField \<Rightarrow> bool" where
  "field_ok len fld \<longleftrightarrow>
     (case j_field_name fld of None \<Rightarrow> True
      | Some name \<Rightarrow> length (search_pattern name) \<le> len \<and> length (search_pattern name) < 256)"

definition field_found :: "byte list \<Rightarrow> byte list \<Rightarrow> size_t \<Rightarrow> JSONField \<Rightarrow> bool" where
  "field_found stack json len fld \<longleftrightarrow>
     (\<exists>buf n. neon_parse_json_market_data (Some json) len (j_field_name fld) (Some stack) 256 (Some 0) =
        Some (0, buf, n))"

lemma extract_field_eq:
  assumes "len \<le> length json" and "length json < 2 ^ 64" and "length stack = 256" and "field_ok len fld"
  shows "\<exists>fld'. extract_field stack json len fld = Some (fld', if field_found stack json len fld then 1 else 0) \<and>
    j_field_name fld' = j_field_name fld \<and>
    (j_field_name fld \<noteq> None \<longrightarrow> j_found fld' = field_found stack json len fld) \<and>
    (field_found stack json len fld \<longrightarrow> j_field_value fld' = Local_value_buf)"
proof (cases "j_field_name fld")
  case None
  then show ?thesis
    by (simp add: extract_field_def field_found_def neon_parse_json_market_data_def)
next
  case (Some name)
  with assms(4) have "length (search_pattern name) \<le> len" "length (search_pattern name) < 256"
    by (simp_all add: field_ok_def)
  note n = neon_extract_at [OF assms(1,2) this, of 256 stack 0]
  have "neon_parse_json_market_data (Some json) len (Some name) (Some stack) 256 (Some 0) \<noteq> None"
    using n assms(3) by simp
  then obtain r buf k where r: "neon_parse_json_market_data (Some json) len (Some name) (Some stack) 256 (Some 0) =
      Some (r, buf, k)"
    by (metis not_None_eq prod_cases3)
  show ?thesis
    using Some r by (simp add: extract_field_def field_found_def)
qed

text \<open>
  Extracting several fields accesses nothing out of bounds, keeps the names, marks exactly
  the fields the single extractor finds and returns their number; but the value pointer of
  every field found is left pointing to the local buffer of the loop body.
\<close>

theorem json_fields_dangling:
  assumes "len \<le> length json" and "length json < 2 ^ 64" and "length stack = 256"
    and "\<forall>fld \<in> set flds. field_ok len fld" and "flds \<noteq> []"
  shows "\<exists>flds'. neon_extract_json_fields stack (Some json) len (Some flds) =
      Some (Some flds', int (length (filter (field_found stack json len) flds))) \<and>
    list_all2 (\<lambda>fld fld'. j_field_name fld' = j_field_name fld \<and>
      (j_field_name fld \<noteq> None \<longrightarrow> j_found fld' = field_found stack json len fld) \<and>
      (field_found stack json len fld \<longrightarrow> j_field_value fld' = Local_value_buf)) flds flds'"
proof -
  let ?R = "\<lambda>fld fld'. j_field_name fld' = j_field_name fld \<and>
      (j_field_name fld \<noteq> None \<longrightarrow> j_found fld' = field_found stack json len fld) \<and>
      (field_found stack json len fld \<longrightarrow> j_field_value fld' = Local_value_buf)"
  have "\<exists>flds'. extract_loop stack json len flds =
      Some (flds', int (length (filter (field_found stack json len) flds))) \<and> list_all2 ?R flds flds'"
    using assms(4)
  proof (induction flds)
    case Nil
    then show ?case by simp
  next
    case (Cons fld flds)
    then have ok: "field_ok len fld" by simp
    from Cons obtain flds' where 1: "extract_loop stack json len flds =
        Some (flds', int (length (filter (field_found stack json len) flds)))" "list_all2 ?R flds flds'"
      by auto
    from extract_field_eq [OF assms(1-3) ok] obtain fld' where
      2: "extract_field stack json len fld = Some (fld', if field_found stack json len fld then 1 else 0)" "?R fld fld'"
      by (elim exE conjE) blast
    show ?case
      using 1 2 by (intro exI [of _ "fld' # flds'"]) simp
  qed
  with assms(5) show ?thesis
    by (auto simp: neon_extract_json_fields_def)
qed

definition price_field :: JSONField where
  "price_field = \<lparr>j_field_name = Some [112], j_field_value = Null_ptr, j_value_len = 0, j_found = False\<rparr>"

theorem json_fields_dangling_witness:
  "\<exists>flds'. neon_extract_json_fields (replicate 256 0) (Some sample_json) 16 (Some [price_field]) =
      Some (Some flds', int (length (filter (field_found (replicate 256 0) sample_json 16) [price_field])))"
proof -
  have l: "length sample_json = 16" by (simp add: sample_json_def)
  have "field_ok 16 price_field" by (simp add: field_ok_def price_field_def)
  then show ?thesis
    using json_fields_dangling [of 16 sample_json "replicate 256 0" "[price_field]"] l
    by (auto simp del: filter.simps)
qed

end
