(* ===== verification/Nic_Clock.thy ===== *)
theory Nic_Clock
  imports Ring_Batch
begin

text \<open>
  Time: the monotonic clock as \<open>get_time_ns\<close> of \<^verbatim>\<open>src/src/websocket.c\<close> reads it, and the arrival
  time of a packet, which \<^verbatim>\<open>src/src/io_kqueue.c\<close> and \<^verbatim>\<open>src/src/ssl.c\<close> take from the control
  messages of \<open>recvmsg\<close> and convert to clock ticks. The clock and its time base are
  operations of the system.
\<close>

record 'w clock_os = "'w vm_os" +
  os_absolute_time :: "'w \<Rightarrow> u64 \<times> 'w"
  os_timebase :: "u32 \<times> u32"

definition get_time_ns :: "('w, 'z) clock_os_scheme \<Rightarrow> 'w \<Rightarrow> (u64 \<times> 'w) option" where
  "get_time_ns os w =
     (let (ticks, w1) = os_absolute_time os w
      in map_option (\<lambda>t. (t, w1)) (udiv (mul64 ticks (fst (os_timebase os))) (snd (os_timebase os))))"

definition timespec_to_ns :: "int \<Rightarrow> int \<Rightarrow> u64" where
  "timespec_to_ns tv_sec tv_nsec = add64 (mul64 (u64_of_int tv_sec) 1000000000) (u64_of_int tv_nsec)"

definition timeval_to_ns :: "int \<Rightarrow> int \<Rightarrow> u64" where
  "timeval_to_ns tv_sec tv_usec =
     add64 (mul64 (u64_of_int tv_sec) 1000000000) (mul64 (u64_of_int tv_usec) 1000)"

text \<open>The control messages of a received packet, and the first one that carries a timestamp.\<close>

datatype cmsg = SCM_TIMESTAMPNS int int | SCM_TIMESTAMP int int | Other_cmsg

fun nic_timestamp :: "cmsg list \<Rightarrow> u64 option" where
  "nic_timestamp [] = None"
| "nic_timestamp (SCM_TIMESTAMPNS s n # cs) = Some (timespec_to_ns s n)"
| "nic_timestamp (SCM_TIMESTAMP s u # cs) = Some (timeval_to_ns s u)"
| "nic_timestamp (Other_cmsg # cs) = nic_timestamp cs"

text \<open>The estimate of the arrival time in ticks, in 64-bit integer arithmetic.\<close>

definition nic_ticks :: "u32 \<Rightarrow> u32 \<Rightarrow> u64 \<Rightarrow> u64 \<Rightarrow> u64 option" where
  "nic_ticks numer denom now_ticks nic_ns = do {
     now_ns \<leftarrow> udiv (mul64 now_ticks numer) denom;
     if nic_ns \<le> now_ns \<and> 0 < now_ns then do {
       diff_ticks \<leftarrow> udiv (mul64 (sub64 now_ns nic_ns) denom) numer;
       Some (if diff_ticks < now_ticks then sub64 now_ticks diff_ticks else 0)
     }
     else Some now_ticks
   }"

definition capture_nic ::
  "('w, 'z) clock_os_scheme \<Rightarrow> cmsg list \<Rightarrow> 'w \<Rightarrow> ((u64 \<times> u64) option \<times> 'w) option" where
  "capture_nic os cs w =
     (case nic_timestamp cs of
        None \<Rightarrow> Some (None, w)
      | Some nic_ns \<Rightarrow>
          let (now_ticks, w1) = os_absolute_time os w
          in map_option (\<lambda>t. (Some (nic_ns, t), w1))
               (nic_ticks (fst (os_timebase os)) (snd (os_timebase os)) now_ticks nic_ns))"

text \<open>The clock returns whenever the time base has a non-zero denominator.\<close>

lemma get_time_ns_total:
  "0 < snd (os_timebase os) \<Longrightarrow> \<exists>t. get_time_ns os w = Some (t, snd (os_absolute_time os w))"
  by (simp add: get_time_ns_def split: prod.splits)

lemma capture_nic_total:
  "0 < fst (os_timebase os) \<Longrightarrow> 0 < snd (os_timebase os) \<Longrightarrow> \<exists>r w'. capture_nic os cs w = Some (r, w')"
  by (auto simp: capture_nic_def nic_ticks_def split: option.splits prod.splits)

text \<open>
  Without overflow the estimate is exact up to rounding: converted back to nanoseconds it is at
  least the arrival time, and exceeds it by less than one nanosecond and one tick.
\<close>

lemma nic_ticks_exact:
  assumes tb: "0 < numer" "0 < denom"
    and small: "now_ticks * numer < 2 ^ 64"
    and past: "nic_ns \<le> now_ticks * numer div denom" "0 < now_ticks * numer div denom"
  shows "\<exists>t. nic_ticks numer denom now_ticks nic_ns = Some t \<and> t \<le> now_ticks \<and>
    nic_ns * denom \<le> t * numer \<and> t * numer < nic_ns * denom + denom + numer"
proof -
  define now_ns where "now_ns = now_ticks * numer div denom"
  define diff where "diff = (now_ns - nic_ns) * denom div numer"
  have n: "now_ns * denom \<le> now_ticks * numer" "now_ticks * numer < now_ns * denom + denom"
    unfolding now_ns_def using tb(2) div_mult_mod_eq [of "now_ticks * numer" denom]
      mod_less_divisor [OF tb(2), of "now_ticks * numer"] by linarith+
  have d: "diff * numer \<le> (now_ns - nic_ns) * denom" "(now_ns - nic_ns) * denom < diff * numer + numer"
    unfolding diff_def using tb(1) div_mult_mod_eq [of "(now_ns - nic_ns) * denom" numer]
      mod_less_divisor [OF tb(1), of "(now_ns - nic_ns) * denom"] by linarith+
  have split: "(now_ns - nic_ns) * denom = now_ns * denom - nic_ns * denom"
    by (simp add: diff_mult_distrib)
  have le: "nic_ns * denom \<le> now_ns * denom"
    using past(1) by (simp add: now_ns_def)
  have "diff * numer \<le> now_ticks * numer"
    using d(1) n(1) split by linarith
  then have dn: "diff \<le> now_ticks"
    using tb(1) by simp
  have nl: "now_ns < 2 ^ 64"
    unfolding now_ns_def using small by (rule le_less_trans [OF div_le_dividend])
  have "now_ticks \<le> now_ticks * numer"
    using tb(1) by simp
  then have tl: "now_ticks < 2 ^ 64"
    using small by linarith
  have "(now_ns - nic_ns) * denom < 2 ^ 64"
    using small n(1) split by linarith
  moreover have "nic_ns \<le> now_ns"
    using past(1) by (simp add: now_ns_def)
  ultimately have m: "mul64 now_ticks numer = now_ticks * numer" "sub64 now_ns nic_ns = now_ns - nic_ns"
    "mul64 (now_ns - nic_ns) denom = (now_ns - nic_ns) * denom" "sub64 now_ticks diff = now_ticks - diff"
    using small nl tl dn by (simp_all only: mul64_exact sub64_exact)
  have "nic_ticks numer denom now_ticks nic_ns = Some (now_ticks - diff)"
    using tb past dn unfolding nic_ticks_def m(1) now_ns_def [symmetric]
    by (simp add: m now_ns_def [symmetric] diff_def [symmetric])
  moreover have "(now_ticks - diff) * numer = now_ticks * numer - diff * numer"
    by (simp add: diff_mult_distrib)
  then have "nic_ns * denom \<le> (now_ticks - diff) * numer"
    "(now_ticks - diff) * numer < nic_ns * denom + denom + numer"
    using n d split le by linarith+
  ultimately show ?thesis
    by simp
qed

end
