(* ===== verification/Io_Kqueue.thy ===== *)
theory Io_Kqueue
  imports Nic_Clock
begin

text \<open>
  The event loop of \<^verbatim>\<open>src/src/io_kqueue.c\<close>: the registry of sockets, its registration with the
  kernel queue, and the transfer of bytes between sockets and rings. The kernel is a record of
  operations over an arbitrary state \<open>'w\<close> of the outside world. A socket refers to its rings
  by pointers of type \<open>'p\<close>, and the operations that move bytes take and return the store
  \<open>'p \<Rightarrow> RingBuffer\<close>, so that the owner of the rings sees the change.
\<close>

unbundle bit_operations_syntax

definition IO_MAX_SOCKETS :: int where "IO_MAX_SOCKETS = 64"

definition O_NONBLOCK :: int where "O_NONBLOCK = 4"

record 'p IOSocket =
  so_fd :: int
  so_rx_ring :: "'p option"
  so_tx_ring :: "'p option"
  so_user_data :: addr
  so_last_nic_timestamp_ns :: u64
  so_last_nic_timestamp_ticks :: u64

record 'p IOContext =
  io_kq :: int
  io_sockets :: "'p IOSocket list"
  io_socket_count :: int
  io_e_core_pinned :: int

datatype errno = EAGAIN | EWOULDBLOCK | Other_errno int

datatype recv_result = Recv "byte list" "cmsg list" | Recv_error errno

datatype kfilter = EVFILT_READ | EVFILT_WRITE

text \<open>
  A change of the kernel queue: registration of a filter on a descriptor with the flags
  \<^verbatim>\<open>EV_ADD | EV_CLEAR | EV_ENABLE | EV_ONESHOT\<close> and the user datum, or its deletion.
\<close>

datatype kchange = EV_ADD_ONESHOT kfilter int int | EV_DELETE kfilter int

record kevent =
  ke_filter :: kfilter
  ke_eof :: bool
  ke_error :: bool
  ke_udata :: int

record 'w io_os = "'w clock_os" +
  os_kqueue :: "'w \<Rightarrow> int \<times> 'w"
  os_kevent_change :: "int \<Rightarrow> kchange \<Rightarrow> 'w \<Rightarrow> int \<times> 'w"
  os_kevent_wait :: "int \<Rightarrow> int \<Rightarrow> int \<times> int \<Rightarrow> 'w \<Rightarrow> kevent list option \<times> 'w"
  os_thread_affinity :: "int \<Rightarrow> 'w \<Rightarrow> bool \<times> 'w"
  os_set_qos_class :: "'w \<Rightarrow> 'w"
  os_setschedparam :: "int \<Rightarrow> 'w \<Rightarrow> int \<times> 'w"
  os_fcntl_getfl :: "int \<Rightarrow> 'w \<Rightarrow> int \<times> 'w"
  os_fcntl_setfl :: "int \<Rightarrow> int \<Rightarrow> 'w \<Rightarrow> int \<times> 'w"
  os_set_timestamp :: "int \<Rightarrow> 'w \<Rightarrow> int \<times> 'w"
  os_recvmsg :: "int \<Rightarrow> size_t \<Rightarrow> 'w \<Rightarrow> recv_result \<times> 'w"
  os_writev :: "int \<Rightarrow> byte list list \<Rightarrow> 'w \<Rightarrow> int \<times> 'w"
  os_shutdown :: "int \<Rightarrow> 'w \<Rightarrow> 'w"
  os_close :: "int \<Rightarrow> 'w \<Rightarrow> 'w"

subsection \<open>Context\<close>

definition zero_socket :: "'p IOSocket" where
  "zero_socket = \<lparr>so_fd = 0, so_rx_ring = None, so_tx_ring = None, so_user_data = 0,
     so_last_nic_timestamp_ns = 0, so_last_nic_timestamp_ticks = 0\<rparr>"

definition zero_context :: "'p IOContext" where
  "zero_context = \<lparr>io_kq = 0, io_sockets = replicate (nat IO_MAX_SOCKETS) zero_socket,
     io_socket_count = 0, io_e_core_pinned = 0\<rparr>"

definition cpu_pin_e_core :: "('w, 'z) io_os_scheme \<Rightarrow> 'w \<Rightarrow> int \<times> 'w" where
  "cpu_pin_e_core os w =
     (let (ok, w1) = os_thread_affinity os 0 w
      in if \<not> ok then (-1, w1) else (0, os_set_qos_class os w1))"

definition io_init :: "('w, 'z) io_os_scheme \<Rightarrow> 'w \<Rightarrow> int \<times> 'p IOContext \<times> 'w" where
  "io_init os w =
     (let (kq, w1) = os_kqueue os w; ctx = zero_context\<lparr>io_kq := kq\<rparr>
      in if kq = -1 then (-1, ctx, w1)
         else
           let (r, w2) = cpu_pin_e_core os w1;
               ctx1 = (if r = 0 then ctx\<lparr>io_e_core_pinned := 1\<rparr> else ctx);
               (_, w3) = os_setschedparam os 49 w2
           in (0, ctx1, w3))"

definition io_add_socket ::
  "('w, 'z) io_os_scheme \<Rightarrow> 'p IOContext \<Rightarrow> int \<Rightarrow> 'p option \<Rightarrow> 'p option \<Rightarrow> addr \<Rightarrow> 'w
   \<Rightarrow> (int \<times> 'p IOContext \<times> 'w) option" where
  "io_add_socket os ctx fd rx_ring tx_ring user_data w =
     (if fd < 0 \<or> IO_MAX_SOCKETS \<le> io_socket_count ctx then Some (-1, ctx, w)
      else
        let (flags, w1) = os_fcntl_getfl os fd w in
        if flags = -1 then Some (-1, ctx, w1)
        else
          let (r, w2) = os_fcntl_setfl os fd (flags OR O_NONBLOCK) w1 in
          if r = -1 then Some (-1, ctx, w2)
          else
            let (r, w3) = os_set_timestamp os fd w2;
                w4 = (if r = -1 then snd (os_set_timestamp os fd w3) else w3);
                idx = io_socket_count ctx
            in do {
              socks \<leftarrow> arr_set (io_sockets ctx) idx
                 \<lparr>so_fd = fd, so_rx_ring = rx_ring, so_tx_ring = tx_ring, so_user_data = user_data,
                  so_last_nic_timestamp_ns = 0, so_last_nic_timestamp_ticks = 0\<rparr>;
              let ctx1 = ctx\<lparr>io_sockets := socks, io_socket_count := idx + 1\<rparr>;
              let (r, w5) = os_kevent_change os (io_kq ctx) (EV_ADD_ONESHOT EVFILT_READ fd idx) w4;
              if r = -1 then Some (-1, ctx1\<lparr>io_socket_count := idx\<rparr>, w5)
              else Some (idx, ctx1, w5)
            })"

text \<open>The search loop, over the indices below \<open>socket_count\<close>.\<close>

fun find_socket :: "'p IOSocket list \<Rightarrow> int \<Rightarrow> nat list \<Rightarrow> nat option option" where
  "find_socket socks fd [] = Some None"
| "find_socket socks fd (i # is) = do {
     s \<leftarrow> arr_get socks (int i);
     if so_fd s = fd then Some (Some i) else find_socket socks fd is
   }"

definition io_remove_socket ::
  "('w, 'z) io_os_scheme \<Rightarrow> 'p IOContext \<Rightarrow> int \<Rightarrow> 'w \<Rightarrow> (int \<times> 'p IOContext \<times> 'w) option" where
  "io_remove_socket os ctx fd w =
     (if fd < 0 then Some (-1, ctx, w)
      else do {
        found \<leftarrow> find_socket (io_sockets ctx) fd [0..<nat (io_socket_count ctx)];
        case found of
          None \<Rightarrow> Some (-1, ctx, w)
        | Some i \<Rightarrow>
            let idx = int i; last_idx = io_socket_count ctx - 1;
                (_, w1) = os_kevent_change os (io_kq ctx) (EV_DELETE EVFILT_READ fd) w
            in if idx < last_idx then do {
                 s \<leftarrow> arr_get (io_sockets ctx) last_idx;
                 socks \<leftarrow> arr_set (io_sockets ctx) idx s;
                 let (_, w2) = os_kevent_change os (io_kq ctx) (EV_ADD_ONESHOT EVFILT_READ (so_fd s) idx) w1;
                 Some (0, ctx\<lparr>io_sockets := socks, io_socket_count := last_idx\<rparr>, w2)
               }
               else Some (0, ctx\<lparr>io_socket_count := last_idx\<rparr>, w1)
      })"

text \<open>
  The loop of \<open>io_cleanup\<close>: the count shrinks while the index grows, so the indices below the
  first count are enough.
\<close>

fun io_cleanup_loop ::
  "('w, 'z) io_os_scheme \<Rightarrow> nat list \<Rightarrow> 'p IOContext \<Rightarrow> 'w \<Rightarrow> ('p IOContext \<times> 'w) option" where
  "io_cleanup_loop os [] ctx w = Some (ctx, w)"
| "io_cleanup_loop os (i # is) ctx w =
     (if int i < io_socket_count ctx then do {
        s \<leftarrow> arr_get (io_sockets ctx) (int i);
        (ctx1, w1) \<leftarrow> (if so_fd s \<noteq> -1
                       then map_option snd (io_remove_socket os ctx (so_fd s) w)
                       else Some (ctx, w));
        io_cleanup_loop os is ctx1 w1
      }
      else Some (ctx, w))"

definition io_cleanup :: "('w, 'z) io_os_scheme \<Rightarrow> 'p IOContext \<Rightarrow> 'w \<Rightarrow> ('p IOContext \<times> 'w) option" where
  "io_cleanup os ctx w = do {
     (ctx1, w1) \<leftarrow> io_cleanup_loop os [0..<nat (io_socket_count ctx)] ctx w;
     let w2 = (if io_kq ctx1 \<noteq> -1 then os_close os (io_kq ctx1) w1 else w1);
     Some (ctx1\<lparr>io_kq := -1, io_socket_count := 0\<rparr>, w2)
   }"

subsection \<open>Polling\<close>

definition poll_timeout :: "int \<Rightarrow> int \<times> int" where
  "poll_timeout timeout_us =
     (if timeout_us \<le> 0 then (0, 0) else (timeout_us div 1000000, timeout_us mod 1000000 * 1000))"

fun io_rearm ::
  "('w, 'z) io_os_scheme \<Rightarrow> 'p IOContext \<Rightarrow> kevent list \<Rightarrow> 'w \<Rightarrow> 'w option" where
  "io_rearm os ctx [] w = Some w"
| "io_rearm os ctx (e # es) w =
     (let socket_idx = ke_udata e in
      if 0 \<le> socket_idx \<and> socket_idx < io_socket_count ctx then do {
        s \<leftarrow> arr_get (io_sockets ctx) socket_idx;
        io_rearm os ctx es
          (snd (os_kevent_change os (io_kq ctx) (EV_ADD_ONESHOT EVFILT_READ (so_fd s) socket_idx) w))
      }
      else io_rearm os ctx es w)"

definition io_poll ::
  "('w, 'z) io_os_scheme \<Rightarrow> 'p IOContext \<Rightarrow> int \<Rightarrow> int \<Rightarrow> 'w \<Rightarrow> (int \<times> kevent list \<times> 'w) option" where
  "io_poll os ctx max_events timeout_us w =
     (if max_events \<le> 0 then Some (-1, [], w)
      else
        let (evs, w1) = os_kevent_wait os (io_kq ctx) max_events (poll_timeout timeout_us) w in
        case evs of
          None \<Rightarrow> Some (-1, [], w1)
        | Some es \<Rightarrow> map_option (\<lambda>w2. (int (length es), es, w2)) (io_rearm os ctx es w1))"

subsection \<open>Reading and writing\<close>

text \<open>The write pointer after \<open>n\<close> received bytes, as \<open>io_read\<close> computes it.\<close>

definition io_advance_write :: "RingBuffer \<Rightarrow> size_t \<Rightarrow> size_t option" where
  "io_advance_write rb n =
     (let wp = rb_write_ptr rb; new_wp = add64 wp n;
          new_wp = (if rb_size rb \<le> new_wp
                    then (let first_part = sub64 (rb_size rb) wp in sub64 n first_part) else new_wp)
      in umod new_wp (rb_size rb))"

definition io_read ::
  "('w, 'z) io_os_scheme \<Rightarrow> 'p IOContext \<Rightarrow> int \<Rightarrow> ('p \<Rightarrow> RingBuffer) \<Rightarrow> 'w
   \<Rightarrow> (int \<times> 'p IOContext \<times> ('p \<Rightarrow> RingBuffer) \<times> 'w) option" where
  "io_read os ctx socket_index h w =
     (if socket_index < 0 \<or> io_socket_count ctx \<le> socket_index then Some (-1, ctx, h, w)
      else do {
        sock \<leftarrow> arr_get (io_sockets ctx) socket_index;
        case so_rx_ring sock of
          None \<Rightarrow> Some (-1, ctx, h, w)
        | Some p \<Rightarrow>
            if so_fd sock < 0 then Some (-1, ctx, h, w)
            else
              let (write_ptr, available) = ringbuffer_write_inline (h p) in
              if available = 0 then Some (0, ctx, h, w)
              else
                case os_recvmsg os (so_fd sock) available w of
                  (Recv_error e, w1) \<Rightarrow> Some (-1, ctx, h, w1)
                | (Recv d cs, w1) \<Rightarrow>
                    if d = [] then Some (-1, ctx, h, w1)
                    else do {
                      (nic, w2) \<leftarrow> capture_nic os cs w1;
                      socks \<leftarrow> (case nic of
                          None \<Rightarrow> Some (io_sockets ctx)
                        | Some (ns, ticks) \<Rightarrow>
                            arr_set (io_sockets ctx) socket_index
                              (sock\<lparr>so_last_nic_timestamp_ns := ns, so_last_nic_timestamp_ticks := ticks\<rparr>));
                      m \<leftarrow> mem_write (rb_mem (h p)) write_ptr d;
                      new_wp \<leftarrow> io_advance_write (h p) (length d);
                      Some (int (length d), ctx\<lparr>io_sockets := socks\<rparr>,
                            h(p := (h p)\<lparr>rb_mem := m, rb_write_ptr := new_wp\<rparr>), w2)
                    }
      })"

text \<open>The scatter-gather list of \<open>io_write\<close>: one part, or two when the data wraps.\<close>

definition io_gather :: "RingBuffer \<Rightarrow> size_t \<times> size_t \<Rightarrow> byte list list option" where
  "io_gather rb win =
     (let (read_ptr, available) = win in
      if rb_size rb < add64 (rb_read_ptr rb) available then
        let iov0_len = sub64 (rb_size rb) (rb_read_ptr rb) in
        do {
          a \<leftarrow> mem_read (rb_mem rb) read_ptr iov0_len;
          b \<leftarrow> mem_read (rb_mem rb) 0 (sub64 available iov0_len);
          Some [a, b]
        }
      else map_option (\<lambda>a. [a]) (mem_read (rb_mem rb) read_ptr available))"

definition io_write ::
  "('w, 'z) io_os_scheme \<Rightarrow> 'p IOContext \<Rightarrow> int \<Rightarrow> ('p \<Rightarrow> RingBuffer) \<Rightarrow> 'w
   \<Rightarrow> (int \<times> ('p \<Rightarrow> RingBuffer) \<times> 'w) option" where
  "io_write os ctx socket_index h w =
     (if socket_index < 0 \<or> io_socket_count ctx \<le> socket_index then Some (-1, h, w)
      else do {
        sock \<leftarrow> arr_get (io_sockets ctx) socket_index;
        case so_tx_ring sock of
          None \<Rightarrow> Some (-1, h, w)
        | Some p \<Rightarrow>
            if so_fd sock < 0 then Some (-1, h, w)
            else
              let win = ringbuffer_read_inline (h p) in
              if snd win = 0 then Some (0, h, w)
              else do {
                iov \<leftarrow> io_gather (h p) win;
                let (n, w1) = os_writev os (so_fd sock) iov w;
                if 0 < n then do {
                  rp \<leftarrow> umod (add64 (rb_read_ptr (h p)) (nat n)) (rb_size (h p));
                  Some (n, h(p := (h p)\<lparr>rb_read_ptr := rp\<rparr>), w1)
                }
                else Some (n, h, w1)
              }
      })"

definition io_get_last_nic_timestamp_ns :: "'p IOContext \<Rightarrow> int \<Rightarrow> u64 option" where
  "io_get_last_nic_timestamp_ns ctx socket_index =
     (if socket_index < 0 \<or> io_socket_count ctx \<le> socket_index then Some 0
      else map_option so_last_nic_timestamp_ns (arr_get (io_sockets ctx) socket_index))"

definition io_get_last_nic_timestamp_ticks :: "'p IOContext \<Rightarrow> int \<Rightarrow> u64 option" where
  "io_get_last_nic_timestamp_ticks ctx socket_index =
     (if socket_index < 0 \<or> io_socket_count ctx \<le> socket_index then Some 0
      else map_option so_last_nic_timestamp_ticks (arr_get (io_sockets ctx) socket_index))"

end
