(* ===== verification/Io_Props.thy ===== *)
theory Io_Props
  imports Io_Kqueue
begin

text \<open>
  The properties of the event loop: the registry stays in step with the kernel queue, and the
  transfer operations move bytes between the sockets and the rings without changing them.
\<close>

subsection \<open>The registry\<close>

definition io_inv :: "'p IOContext \<Rightarrow> bool" where
  "io_inv ctx \<longleftrightarrow> length (io_sockets ctx) = 64 \<and> 0 \<le> io_socket_count ctx \<and> io_socket_count ctx \<le> 64"

definition live :: "'p IOContext \<Rightarrow> 'p IOSocket list" where
  "live ctx = take (nat (io_socket_count ctx)) (io_sockets ctx)"

lemma length_live: "io_inv ctx \<Longrightarrow> length (live ctx) = nat (io_socket_count ctx)"
  by (auto simp: io_inv_def live_def min_def)

text \<open>
  What the kernel documents about its queue, as laws about the registrations \<open>reg\<close> a state of
  the world holds: an addition that succeeds registers the descriptor with its datum, one that
  fails changes nothing, a deletion removes the registration, and the socket options leave the
  registrations alone.
\<close>

definition kqueue_laws ::
  "('w, 'z) io_os_scheme \<Rightarrow> ('w \<Rightarrow> int \<Rightarrow> kfilter \<times> int \<rightharpoonup> int) \<Rightarrow> bool" where
  "kqueue_laws os reg \<longleftrightarrow>
     (\<forall>kq f fd u w. reg (snd (os_kevent_change os kq (EV_ADD_ONESHOT f fd u) w)) =
        (if fst (os_kevent_change os kq (EV_ADD_ONESHOT f fd u) w) = -1 then reg w
         else (reg w)(kq := (reg w kq)((f, fd) \<mapsto> u)))) \<and>
     (\<forall>kq f fd w. reg (snd (os_kevent_change os kq (EV_DELETE f fd) w)) =
        (reg w)(kq := (reg w kq)((f, fd) := None))) \<and>
     (\<forall>fd w. reg (snd (os_fcntl_getfl os fd w)) = reg w) \<and>
     (\<forall>fd fl w. reg (snd (os_fcntl_setfl os fd fl w)) = reg w) \<and>
     (\<forall>fd w. reg (snd (os_set_timestamp os fd w)) = reg w)"

definition io_synced :: "('w \<Rightarrow> int \<Rightarrow> kfilter \<times> int \<rightharpoonup> int) \<Rightarrow> 'p IOContext \<Rightarrow> 'w \<Rightarrow> bool" where
  "io_synced reg ctx w \<longleftrightarrow> distinct (map so_fd (live ctx)) \<and>
     (\<forall>i < length (live ctx). reg w (io_kq ctx) (EVFILT_READ, so_fd (live ctx ! i)) = Some (int i))"

lemma live_nth: "io_inv ctx \<Longrightarrow> i < length (live ctx) \<Longrightarrow> io_sockets ctx ! i = live ctx ! i"
  by (simp add: live_def)

lemma find_socket_eq:
  assumes "set is \<subseteq> {..<length socks}"
  shows "find_socket socks fd is = Some (find (\<lambda>i. so_fd (socks ! i) = fd) is)"
  using assms by (induction "is") (auto simp: arr_get_def)

lemma find_live:
  assumes "io_inv ctx"
  shows "find_socket (io_sockets ctx) fd [0..<nat (io_socket_count ctx)] =
    Some (find (\<lambda>i. so_fd (live ctx ! i) = fd) [0..<length (live ctx)])"
proof -
  have "find_socket (io_sockets ctx) fd [0..<length (live ctx)] =
      Some (find (\<lambda>i. so_fd (io_sockets ctx ! i) = fd) [0..<length (live ctx)])"
    using assms by (intro find_socket_eq) (auto simp: io_inv_def live_def)
  also have "find (\<lambda>i. so_fd (io_sockets ctx ! i) = fd) [0..<length (live ctx)] =
      find (\<lambda>i. so_fd (live ctx ! i) = fd) [0..<length (live ctx)]"
    using live_nth [OF assms] by (intro find_cong) auto
  finally show ?thesis
    by (simp add: length_live [OF assms])
qed

subsection \<open>A small kernel\<close>

text \<open>
  An instance of the system operations for the concrete runs below: the world is the
  registrations of the kernel queues, the packets to be received, the bytes sent, the messages
  delivered to callbacks and the descriptors closed.
\<close>

record demo_world =
  dw_reg :: "int \<Rightarrow> kfilter \<times> int \<rightharpoonup> int"
  dw_inbox :: "recv_result list"
  dw_sent :: "byte list"
  dw_messages :: "byte list list"
  dw_closed :: "int list"

definition demo_change :: "int \<Rightarrow> kchange \<Rightarrow> demo_world \<Rightarrow> int \<times> demo_world" where
  "demo_change kq c w =
     (case c of
        EV_ADD_ONESHOT f fd u \<Rightarrow> (0, w\<lparr>dw_reg := (dw_reg w)(kq := (dw_reg w kq)((f, fd) \<mapsto> u))\<rparr>)
      | EV_DELETE f fd \<Rightarrow> (0, w\<lparr>dw_reg := (dw_reg w)(kq := (dw_reg w kq)((f, fd) := None))\<rparr>))"

definition demo_recvmsg :: "int \<Rightarrow> size_t \<Rightarrow> demo_world \<Rightarrow> recv_result \<times> demo_world" where
  "demo_recvmsg fd n w =
     (case dw_inbox w of [] \<Rightarrow> (Recv_error EAGAIN, w) | r # rs \<Rightarrow> (r, w\<lparr>dw_inbox := rs\<rparr>))"

definition demo_io_os :: "demo_world io_os" where
  "demo_io_os = \<lparr>vm_allocate = \<lambda>n w. (None, w), vm_deallocate = \<lambda>a n w. w, vm_mlock = \<lambda>a n w. (False, w),
     vm_munlock = \<lambda>a n w. w, os_absolute_time = \<lambda>w. (1000, w), os_timebase = (125, 3),
     os_kqueue = \<lambda>w. (3, w), os_kevent_change = demo_change, os_kevent_wait = \<lambda>kq n t w. (Some [], w),
     os_thread_affinity = \<lambda>t w. (True, w), os_set_qos_class = \<lambda>w. w, os_setschedparam = \<lambda>p w. (0, w),
     os_fcntl_getfl = \<lambda>fd w. (2, w), os_fcntl_setfl = \<lambda>fd fl w. (0, w), os_set_timestamp = \<lambda>fd w. (0, w),
     os_recvmsg = demo_recvmsg,
     os_writev = \<lambda>fd iov w. (int (length (concat iov)), w\<lparr>dw_sent := dw_sent w @ concat iov\<rparr>),
     os_shutdown = \<lambda>fd w. w, os_close = \<lambda>fd w. w\<lparr>dw_closed := dw_closed w @ [fd]\<rparr>\<rparr>"

lemma demo_kqueue_laws: "kqueue_laws demo_io_os dw_reg"
  by (simp add: kqueue_laws_def demo_io_os_def demo_change_def)

definition demo_socket :: "int \<Rightarrow> bool IOSocket" where
  "demo_socket fd = \<lparr>so_fd = fd, so_rx_ring = Some True, so_tx_ring = Some False, so_user_data = 0,
     so_last_nic_timestamp_ns = 0, so_last_nic_timestamp_ticks = 0\<rparr>"

definition demo_ctx :: "int list \<Rightarrow> bool IOContext" where
  "demo_ctx fds = \<lparr>io_kq = 3, io_sockets = map demo_socket fds @ replicate (64 - length fds) zero_socket,
     io_socket_count = int (length fds), io_e_core_pinned = 0\<rparr>"

definition demo_start :: "int list \<Rightarrow> recv_result list \<Rightarrow> demo_world" where
  "demo_start fds inbox = \<lparr>dw_reg = (\<lambda>kq (f, fd). map_of (zip fds (map int [0..<length fds])) fd),
     dw_inbox = inbox, dw_sent = [], dw_messages = [], dw_closed = []\<rparr>"

text \<open>Two rings of four bytes: an empty one, and one whose two bytes wrap around the end.\<close>

definition demo_rings :: "bool \<Rightarrow> RingBuffer" where
  "demo_rings rx =
     (if rx then \<lparr>rb_buf = 128, rb_mem = [0, 0, 0, 0], rb_size = 4, rb_read_ptr = 0, rb_write_ptr = 0, rb_locked = False\<rparr>
      else \<lparr>rb_buf = 256, rb_mem = [2, 0, 0, 1], rb_size = 4, rb_read_ptr = 3, rb_write_ptr = 1, rb_locked = False\<rparr>)"

lemma demo_live: "length fds \<le> 64 \<Longrightarrow> live (demo_ctx fds) = map demo_socket fds"
  by (simp add: live_def demo_ctx_def)

lemma demo_inv: "length fds \<le> 64 \<Longrightarrow> io_inv (demo_ctx fds)"
  by (simp add: io_inv_def demo_ctx_def)

lemma demo_synced:
  assumes "distinct fds" and "length fds \<le> 64"
  shows "io_synced dw_reg (demo_ctx fds) (demo_start fds inbox)"
  using assms by (simp add: io_synced_def demo_live demo_start_def comp_def demo_socket_def map_of_zip_nth)

subsection \<open>Registering and removing sockets\<close>

text \<open>
  Registering a socket keeps the registry in step with the kernel: a new descriptor is either
  refused, and nothing is registered, or appended to the registry with its index as the datum
  of its kernel event.
\<close>

theorem io_add_socket_synced:
  assumes "io_inv ctx" and "kqueue_laws os reg" and "io_synced reg ctx w" and "fd \<notin> so_fd ` set (live ctx)"
  shows "\<exists>r ctx' w'. io_add_socket os ctx fd rx tx ud w = Some (r, ctx', w') \<and>
    io_inv ctx' \<and> io_synced reg ctx' w' \<and>
    (r = -1 \<and> live ctx' = live ctx \<or>
     r = io_socket_count ctx \<and> r < 64 \<and> (\<exists>s. live ctx' = live ctx @ [s] \<and> so_fd s = fd \<and>
       so_rx_ring s = rx \<and> so_tx_ring s = tx))"
proof (cases "fd < 0 \<or> 64 \<le> io_socket_count ctx")
  case True
  with assms show ?thesis
    by (auto simp: io_add_socket_def IO_MAX_SOCKETS_def)
next
  case False
  let ?n = "nat (io_socket_count ctx)"
  let ?s = "\<lparr>so_fd = fd, so_rx_ring = rx, so_tx_ring = tx, so_user_data = ud,
    so_last_nic_timestamp_ns = 0, so_last_nic_timestamp_ticks = 0\<rparr>"
  have n: "?n < length (io_sockets ctx)" "0 \<le> io_socket_count ctx" "length (live ctx) = ?n"
    using assms(1) False by (auto simp: io_inv_def live_def)
  have a: "arr_set (io_sockets ctx) (io_socket_count ctx) ?s = Some ((io_sockets ctx)[?n := ?s])"
    using n by (simp add: arr_set_in)
  have "take (Suc ?n) ((io_sockets ctx)[?n := ?s]) = live ctx @ [?s]"
    using n(1) by (simp add: live_def take_Suc_conv_app_nth)
  moreover have "nat (io_socket_count ctx + 1) = Suc ?n"
    using n(2) by simp
  ultimately have l: "live (ctx\<lparr>io_sockets := (io_sockets ctx)[?n := ?s], io_socket_count := io_socket_count ctx + 1\<rparr>) =
      live ctx @ [?s]"
    by (simp add: live_def)
  obtain f1 w1 where g: "os_fcntl_getfl os fd w = (f1, w1)" by force
  obtain r2 w2 where s2: "os_fcntl_setfl os fd (f1 OR O_NONBLOCK) w1 = (r2, w2)" by force
  obtain r3 w3 where s3: "os_set_timestamp os fd w2 = (r3, w3)" by force
  define w4 where "w4 = (if r3 = -1 then snd (os_set_timestamp os fd w3) else w3)"
  obtain r5 w5 where s5: "os_kevent_change os (io_kq ctx) (EV_ADD_ONESHOT EVFILT_READ fd (io_socket_count ctx)) w4 = (r5, w5)"
    by force
  have "\<forall>fd w. reg (snd (os_fcntl_getfl os fd w)) = reg w" "\<forall>fd fl w. reg (snd (os_fcntl_setfl os fd fl w)) = reg w"
    "\<forall>fd w. reg (snd (os_set_timestamp os fd w)) = reg w"
    using assms(2) by (simp_all add: kqueue_laws_def)
  then have reg: "reg w1 = reg w" "reg w2 = reg w" "reg w4 = reg w"
    using g s2 s3 by (metis snd_conv, metis snd_conv, metis w4_def snd_conv)
  have reg5: "reg w5 = (if r5 = -1 then reg w else (reg w)(io_kq ctx :=
      (reg w (io_kq ctx))((EVFILT_READ, fd) \<mapsto> io_socket_count ctx)))"
    using assms(2) s5 reg(3) unfolding kqueue_laws_def by (metis fst_conv snd_conv)
  have keep: "io_synced reg ctx w'" if "reg w' = reg w" for w'
    using assms(3) that by (simp add: io_synced_def)
  have "io_synced reg (ctx\<lparr>io_sockets := (io_sockets ctx)[?n := ?s], io_socket_count := io_socket_count ctx + 1\<rparr>) w5"
    if "r5 \<noteq> -1"
    using assms(3,4) that n unfolding io_synced_def l by (auto simp: reg5 nth_append less_Suc_eq image_iff)
  moreover have "io_synced reg (ctx\<lparr>io_sockets := (io_sockets ctx)[?n := ?s], io_socket_count := io_socket_count ctx\<rparr>) w5"
    if "r5 = -1"
    using keep [of w5] that n(1) by (simp add: reg5 io_synced_def live_def)
  moreover have "io_add_socket os ctx fd rx tx ud w =
      Some (if f1 = -1 then (-1, ctx, w1) else if r2 = -1 then (-1, ctx, w2)
        else if r5 = -1 then (-1, ctx\<lparr>io_sockets := (io_sockets ctx)[?n := ?s], io_socket_count := io_socket_count ctx\<rparr>, w5)
        else (io_socket_count ctx, ctx\<lparr>io_sockets := (io_sockets ctx)[?n := ?s], io_socket_count := io_socket_count ctx + 1\<rparr>, w5))"
    using False by (simp add: io_add_socket_def IO_MAX_SOCKETS_def g s2 s3 s5 w4_def [symmetric] a Let_def)
  moreover have "live (ctx\<lparr>io_sockets := (io_sockets ctx)[?n := ?s], io_socket_count := io_socket_count ctx\<rparr>) = live ctx"
    by (simp add: live_def)
  ultimately show ?thesis
    using False assms(1) l keep reg
    by (cases "f1 = -1"; cases "r2 = -1"; cases "r5 = -1") (auto simp: io_inv_def)
qed

theorem io_add_socket_synced_witness:
  "\<exists>r ctx' w'. io_add_socket demo_io_os (demo_ctx [5, 6]) 7 (Some True) None 0 (demo_start [5, 6] []) = Some (r, ctx', w') \<and>
     io_synced dw_reg ctx' w'"
proof -
  have "(7 :: int) \<notin> so_fd ` set (live (demo_ctx [5, 6]))"
    by (simp add: demo_live demo_socket_def)
  moreover have "io_inv (demo_ctx [5, 6])" "io_synced dw_reg (demo_ctx [5, 6]) (demo_start [5, 6] [])"
    by (rule demo_inv demo_synced; simp)+
  ultimately show ?thesis
    using io_add_socket_synced [of "demo_ctx [5, 6]" demo_io_os dw_reg "demo_start [5, 6] []" 7 "Some True" None 0]
      demo_kqueue_laws by blast
qed

text \<open>Removal by moving the last element into the hole.\<close>

definition swap_remove :: "nat \<Rightarrow> 'a list \<Rightarrow> 'a list" where
  "swap_remove i xs = butlast (xs[i := last xs])"

lemma swap_remove_nth:
  assumes "i < length xs" and "j < length xs - 1"
  shows "swap_remove i xs ! j = (if j = i then last xs else xs ! j)"
  using assms by (simp add: swap_remove_def nth_butlast nth_list_update)

lemma length_swap_remove [simp]: "length (swap_remove i xs) = length xs - 1"
  by (simp add: swap_remove_def)

lemma swap_remove_take:
  assumes "i < length xs"
  shows "swap_remove i xs = take (length xs - 1) (if i < length xs - 1 then xs[i := xs ! (length xs - 1)] else xs)"
proof -
  have "last xs = xs ! (length xs - 1)"
    using assms by (intro last_conv_nth) auto
  then show ?thesis
    using assms by (intro nth_equalityI) (auto simp: swap_remove_nth nth_list_update)
qed

lemma swap_remove_distinct:
  assumes "i < length xs" and "distinct (map f xs)"
  shows "distinct (map f (swap_remove i xs))" and "f ` set (swap_remove i xs) = f ` set xs - {f (xs ! i)}"
proof -
  have last: "last xs = xs ! (length xs - 1)"
    using assms(1) by (intro last_conv_nth) auto
  have inj: "f (xs ! j) = f (xs ! k) \<longleftrightarrow> j = k" if "j < length xs" "k < length xs" for j k
    using nth_eq_iff_index_eq [OF assms(2), of j k] that by simp
  show "distinct (map f (swap_remove i xs))"
    unfolding distinct_conv_nth using assms(1)
    by (auto simp: swap_remove_nth last inj)
  show "f ` set (swap_remove i xs) = f ` set xs - {f (xs ! i)}" (is "?L = ?R")
  proof
    show "?L \<subseteq> ?R"
    proof
      fix y assume "y \<in> ?L"
      then obtain j where j: "j < length xs - 1" "y = f (swap_remove i xs ! j)"
        by (auto simp: in_set_conv_nth)
      then have "\<exists>k < length xs. k \<noteq> i \<and> y = f (xs ! k)"
      proof (cases "j = i")
        case True
        with j assms(1) show ?thesis
          by (intro exI [of _ "length xs - 1"]) (simp add: swap_remove_nth last)
      next
        case False
        with j assms(1) show ?thesis
          by (intro exI [of _ j]) (simp add: swap_remove_nth)
      qed
      then show "y \<in> ?R"
        using inj assms(1) by auto
    qed
  next
    have "f (xs ! k) \<in> ?L" if "k < length xs" "k \<noteq> i" for k
    proof (cases "k = length xs - 1")
      case True
      with that assms(1) have "i < length (swap_remove i xs)" "swap_remove i xs ! i = xs ! k"
        by (auto simp: swap_remove_nth last)
      then show ?thesis by (metis image_eqI nth_mem)
    next
      case False
      with that assms(1) have "k < length (swap_remove i xs)" "swap_remove i xs ! k = xs ! k"
        by (auto simp: swap_remove_nth)
      then show ?thesis by (metis image_eqI nth_mem)
    qed
    then show "?R \<subseteq> ?L"
      by (clarsimp simp: in_set_conv_nth) metis
  qed
qed

lemma live_swap_remove:
  assumes "io_inv ctx" and "i < length (live ctx)"
  shows "live (ctx\<lparr>io_sockets := (if int i < io_socket_count ctx - 1
      then (io_sockets ctx)[i := io_sockets ctx ! nat (io_socket_count ctx - 1)] else io_sockets ctx),
      io_socket_count := io_socket_count ctx - 1\<rparr>) = swap_remove i (live ctx)"
proof -
  have n: "nat (io_socket_count ctx - 1) = length (live ctx) - 1" "length (live ctx) = nat (io_socket_count ctx)"
    using assms(2) length_live [OF assms(1)] by simp_all
  have "int i < io_socket_count ctx - 1 \<longleftrightarrow> i < length (live ctx) - 1"
    using assms n by (auto simp: io_inv_def)
  then show ?thesis
    unfolding swap_remove_take [OF assms(2)] n(1) using n assms
    by (auto simp: live_def io_inv_def take_update_swap min_def)
qed

text \<open>
  C27. Removing a registered socket keeps the registry in step with the kernel: exactly that
  descriptor leaves the registry and the kernel queue, and the socket that takes its place is
  registered under its new index.
\<close>

theorem io_remove_socket_synced:
  assumes "io_inv ctx" and "kqueue_laws os reg" and "io_synced reg ctx w"
    and "0 \<le> fd" and "fd \<in> so_fd ` set (live ctx)"
    and "\<forall>fd' u w. fst (os_kevent_change os (io_kq ctx) (EV_ADD_ONESHOT EVFILT_READ fd' u) w) \<noteq> -1"
  shows "\<exists>ctx' w'. io_remove_socket os ctx fd w = Some (0, ctx', w') \<and> io_inv ctx' \<and> io_synced reg ctx' w' \<and>
    so_fd ` set (live ctx') = so_fd ` set (live ctx) - {fd} \<and>
    reg w' (io_kq ctx) (EVFILT_READ, fd) = None"
proof -
  obtain i where i: "i < length (live ctx)" "so_fd (live ctx ! i) = fd"
    and f: "find (\<lambda>i. so_fd (live ctx ! i) = fd) [0..<length (live ctx)] = Some i"
  proof -
    from assms(5) obtain j where "j < length (live ctx)" "so_fd (live ctx ! j) = fd"
      by (auto simp: in_set_conv_nth)
    then have "find (\<lambda>i. so_fd (live ctx ! i) = fd) [0..<length (live ctx)] \<noteq> None"
      by (auto simp: find_None_iff)
    then show ?thesis
      using that by (auto simp: find_upt_Some)
  qed
  let ?L = "live ctx"
  let ?n = "io_socket_count ctx - 1"
  let ?ctx = "ctx\<lparr>io_sockets := (if int i < ?n
      then (io_sockets ctx)[i := io_sockets ctx ! nat ?n] else io_sockets ctx), io_socket_count := ?n\<rparr>"
  have l: "live ?ctx = swap_remove i ?L"
    by (rule live_swap_remove [OF assms(1) i(1)])
  have b: "nat ?n < length (io_sockets ctx)" "0 \<le> ?n" "nat ?n = length ?L - 1" "i < length (io_sockets ctx)"
    "?n = int (length ?L) - 1"
    using assms(1) i(1) length_live [OF assms(1)] by (auto simp: io_inv_def live_def)
  have sl: "io_sockets ctx ! nat ?n = last ?L"
    using i(1) b live_nth [OF assms(1), of "length ?L - 1"] by (simp add: last_conv_nth)
  obtain w1 r1 where d: "os_kevent_change os (io_kq ctx) (EV_DELETE EVFILT_READ fd) w = (r1, w1)" by force
  obtain w2 r2 where e: "os_kevent_change os (io_kq ctx) (EV_ADD_ONESHOT EVFILT_READ (so_fd (last ?L)) (int i)) w1 = (r2, w2)"
    by force
  let ?w = "if int i < ?n then w2 else w1"
  have fl: "find_socket (io_sockets ctx) fd [0..<nat (io_socket_count ctx)] = Some (Some i)"
    by (simp only: find_live [OF assms(1)] f)
  have g: "arr_get (io_sockets ctx) ?n = Some (last ?L)"
    "arr_set (io_sockets ctx) (int i) x = Some ((io_sockets ctx)[i := x])" for x
    using b(1,2,4) sl by (simp_all add: arr_get_in arr_set_in)
  have res: "io_remove_socket os ctx fd w = Some (0, ?ctx, ?w)"
    using assms(4) unfolding io_remove_socket_def fl by (simp add: d e g sl Let_def)
  have reg1: "reg w1 = (reg w)(io_kq ctx := (reg w (io_kq ctx))((EVFILT_READ, fd) := None))"
    using assms(2) d unfolding kqueue_laws_def by (metis snd_conv)
  have "r2 \<noteq> -1"
    using assms(6) e by (metis fst_conv)
  then have reg2: "reg w2 = (reg w1)(io_kq ctx := (reg w1 (io_kq ctx))((EVFILT_READ, so_fd (last ?L)) \<mapsto> int i))"
    using assms(2) e unfolding kqueue_laws_def by (metis fst_conv snd_conv)
  have dist: "distinct (map so_fd ?L)"
    and old: "\<forall>i < length ?L. reg w (io_kq ctx) (EVFILT_READ, so_fd (?L ! i)) = Some (int i)"
    using assms(3) by (simp_all add: io_synced_def)
  have inj: "so_fd (?L ! j) = so_fd (?L ! k) \<longleftrightarrow> j = k" if "j < length ?L" "k < length ?L" for j k
    using nth_eq_iff_index_eq [OF dist, of j k] that by simp
  have last: "last ?L = ?L ! (length ?L - 1)"
    using i(1) by (intro last_conv_nth) auto
  have "reg ?w (io_kq ctx) (EVFILT_READ, so_fd (swap_remove i ?L ! j)) = Some (int j)"
    if "j < length ?L - 1" for j
    using that i b(5) old by (auto simp: swap_remove_nth reg1 reg2 last inj)
  moreover have "distinct (map so_fd (swap_remove i ?L))"
    "so_fd ` set (swap_remove i ?L) = so_fd ` set ?L - {fd}"
    using swap_remove_distinct [OF i(1) dist] i(2) by simp_all
  moreover have "reg ?w (io_kq ctx) (EVFILT_READ, fd) = None"
    using i b(5) by (auto simp: reg1 reg2 last inj)
  moreover have "io_inv ?ctx"
    using assms(1) b by (auto simp: io_inv_def)
  ultimately show ?thesis
    unfolding res using l by (intro exI [of _ ?ctx] exI [of _ ?w]) (simp add: io_synced_def)
qed

theorem io_remove_socket_synced_witness:
  "\<exists>ctx' w'. io_remove_socket demo_io_os (demo_ctx [5, 6]) 5 (demo_start [5, 6] []) = Some (0, ctx', w') \<and>
     io_synced dw_reg ctx' w' \<and> so_fd ` set (live ctx') = {6}"
proof -
  have m: "(5 :: int) \<in> so_fd ` set (live (demo_ctx [5, 6]))"
    by (simp add: demo_live demo_socket_def)
  have l: "so_fd ` set (live (demo_ctx [5, 6])) - {5} = {6}"
    by (auto simp: demo_live demo_socket_def)
  have e: "\<forall>fd' u w. fst (os_kevent_change demo_io_os (io_kq (demo_ctx [5, 6])) (EV_ADD_ONESHOT EVFILT_READ fd' u) w) \<noteq> -1"
    by (simp add: demo_io_os_def demo_change_def)
  have "io_inv (demo_ctx [5, 6])" "io_synced dw_reg (demo_ctx [5, 6]) (demo_start [5, 6] [])"
    by (rule demo_inv demo_synced; simp)+
  from io_remove_socket_synced [OF this(1) demo_kqueue_laws this(2) _ m e] show ?thesis
    unfolding l by auto
qed

subsection \<open>Moving bytes\<close>

lemma socket_at:
  assumes "io_inv ctx" and "0 \<le> i" and "i < io_socket_count ctx"
  shows "arr_get (io_sockets ctx) i = Some (io_sockets ctx ! nat i)"
    and "arr_set (io_sockets ctx) i x = Some ((io_sockets ctx)[nat i := x])"
  using assms by (auto simp: arr_get_def arr_set_def io_inv_def)

text \<open>The write pointer of \<open>io_read\<close> is the one of a plain advance modulo the size.\<close>

lemma io_advance_write_eq:
  assumes "rb_inv rb" and "rb_write_ptr rb + n \<le> rb_size rb"
  shows "io_advance_write rb n = umod (add64 (rb_write_ptr rb) n) (rb_size rb)"
proof (cases "rb_write_ptr rb + n = rb_size rb")
  case True
  moreover have "sub64 (rb_size rb) (rb_write_ptr rb) = n" "sub64 n n = 0" "add64 (rb_write_ptr rb) n = rb_size rb"
    using True assms by (auto simp: rb_inv_def arith64)
  ultimately show ?thesis
    using assms(1) by (simp add: io_advance_write_def rb_inv_def)
next
  case False
  moreover have "add64 (rb_write_ptr rb) n = rb_write_ptr rb + n"
    using assms by (auto simp: rb_inv_def arith64)
  ultimately show ?thesis
    using assms(2) by (simp add: io_advance_write_def Let_def)
qed

lemma io_read_effect:
  assumes "io_inv ctx" and "0 \<le> i" and "i < io_socket_count ctx"
    and "so_rx_ring (io_sockets ctx ! nat i) = Some p" and "0 \<le> so_fd (io_sockets ctx ! nat i)"
    and "rb_inv (h p)" and "snd (ringbuffer_write_inline (h p)) \<noteq> 0"
    and "os_recvmsg os (so_fd (io_sockets ctx ! nat i)) (snd (ringbuffer_write_inline (h p))) w = (Recv d cs, w1)"
    and "d \<noteq> []" and "length d \<le> snd (ringbuffer_write_inline (h p))"
    and "0 < fst (os_timebase os)" and "0 < snd (os_timebase os)"
  obtains socks rb nic w' where "io_read os ctx i h w = Some (int (length d), ctx\<lparr>io_sockets := socks\<rparr>, h(p := rb), w')"
    and "rb_inv rb"
    and "rb_list rb = (if length d \<le> rb_capacity (h p) - length (rb_list (h p)) then rb_list (h p) @ d else [])"
    and "rb = (h p)\<lparr>rb_mem := rb_mem rb, rb_write_ptr := rb_write_ptr rb\<rparr>"
    and "map so_fd socks = map so_fd (io_sockets ctx)"
    and "capture_nic os cs w1 = Some (nic, w')" and "inline_commit (h p) d = Some rb"
proof -
  let ?s = "io_sockets ctx ! nat i"
  obtain rb where rb: "inline_commit (h p) d = Some rb" "rb_inv rb"
    "rb_list rb = (if length d \<le> rb_capacity (h p) - length (rb_list (h p)) then rb_list (h p) @ d else [])"
    "rb = (h p)\<lparr>rb_mem := rb_mem rb, rb_write_ptr := rb_write_ptr rb\<rparr>"
    using inline_commit_law [OF assms(6,10)] .
  note g = socket_at [OF assms(1-3)]
  obtain off av where wi: "ringbuffer_write_inline (h p) = (off, av)" by force
  have off: "off = rb_write_ptr (h p)"
    using wi by (simp add: ringbuffer_write_inline_def Let_def)
  have "rb_write_ptr (h p) + length d \<le> rb_size (h p)"
    using assms(6,10) by (auto simp: write_inline_eq rb_inv_def split: if_splits)
  note adv = io_advance_write_eq [OF assms(6) this]
  from rb(1) obtain m wp where mw: "mem_write (rb_mem (h p)) off d = Some m"
    "umod (add64 (rb_write_ptr (h p)) (length d)) (rb_size (h p)) = Some wp"
    "rb = (h p)\<lparr>rb_mem := m, rb_write_ptr := wp\<rparr>"
    by (auto simp: inline_commit_def off split: option.splits bind_splits)
  obtain nic w2 where nic: "capture_nic os cs w1 = Some (nic, w2)"
    using capture_nic_total [OF assms(11,12), of cs w1] by blast
  define socks where "socks = (case nic of None \<Rightarrow> io_sockets ctx
    | Some (ns, ticks) \<Rightarrow> (io_sockets ctx)[nat i := ?s\<lparr>so_last_nic_timestamp_ns := ns, so_last_nic_timestamp_ticks := ticks\<rparr>])"
  have fds: "map so_fd socks = map so_fd (io_sockets ctx)"
    by (auto simp: socks_def map_list_update_same split: option.splits prod.splits)
  have "io_read os ctx i h w = Some (int (length d), ctx\<lparr>io_sockets := socks\<rparr>, h(p := rb), w2)"
    using assms(2-5,7,8,9) wi g nic mw adv
    by (cases nic) (auto simp: io_read_def socks_def)
  from that [OF this rb(2,3,4) fds nic rb(1)] show ?thesis .
qed

text \<open>
  C28. Receiving: when the kernel delivers at most as many bytes as it was offered room for,
  they are stored inside the ring, no other ring changes, and the ring holds its old contents
  followed by the received bytes; if they do not fit beside the reserved byte, the pointers
  meet and the ring is empty instead.
\<close>

theorem io_read_appends:
  assumes "io_inv ctx" and "0 \<le> i" and "i < io_socket_count ctx"
    and "so_rx_ring (io_sockets ctx ! nat i) = Some p" and "0 \<le> so_fd (io_sockets ctx ! nat i)"
    and "rb_inv (h p)" and "snd (ringbuffer_write_inline (h p)) \<noteq> 0"
    and "os_recvmsg os (so_fd (io_sockets ctx ! nat i)) (snd (ringbuffer_write_inline (h p))) w = (Recv d cs, w1)"
    and "d \<noteq> []" and "length d \<le> snd (ringbuffer_write_inline (h p))"
    and "0 < fst (os_timebase os)" and "0 < snd (os_timebase os)"
  shows "\<exists>ctx' h' w'. io_read os ctx i h w = Some (int (length d), ctx', h', w') \<and> rb_inv (h' p) \<and>
    rb_list (h' p) =
      (if length d \<le> ringbuffer_writeable (h p) then rb_list (h p) @ d else []) \<and>
    (\<forall>q. q \<noteq> p \<longrightarrow> h' q = h q) \<and> map so_fd (live ctx') = map so_fd (live ctx)"
proof -
  obtain socks rb nic w' where r: "io_read os ctx i h w = Some (int (length d), ctx\<lparr>io_sockets := socks\<rparr>, h(p := rb), w')" "rb_inv rb"
    "rb_list rb = (if length d \<le> rb_capacity (h p) - length (rb_list (h p)) then rb_list (h p) @ d else [])"
    "map so_fd socks = map so_fd (io_sockets ctx)"
    by (rule io_read_effect [of ctx i p h os w d cs w1, OF assms])
  have "map so_fd (live (ctx\<lparr>io_sockets := socks\<rparr>)) = map so_fd (live ctx)"
    using r(4) by (simp add: live_def take_map [symmetric])
  with r show ?thesis
    by (auto simp: writeable_eq [OF assms(6)])
qed

lemma demo_rings_simps:
  "rb_inv (demo_rings True)" "rb_inv (demo_rings False)" "rb_list (demo_rings True) = []" "rb_list (demo_rings False) = [1, 2]"
  "ringbuffer_write_inline (demo_rings True) = (0, 4)" "ringbuffer_writeable (demo_rings True) = 3"
  by (simp_all add: demo_rings_def rb_inv_def rb_list_def ring_list_def ringbuffer_write_inline_def
      ringbuffer_writeable_def sub64_def add64_def)

lemma demo_ctx_simps:
  "io_inv (demo_ctx [5, 6])" "io_socket_count (demo_ctx [5, 6]) = 2" "io_sockets (demo_ctx [5, 6]) ! 0 = demo_socket 5"
  by (simp_all add: io_inv_def demo_ctx_def)

theorem io_read_appends_witness:
  "\<exists>ctx' h' w'. io_read demo_io_os (demo_ctx [5, 6]) 0 demo_rings (demo_start [5, 6] [Recv [7, 8] []]) = Some (2, ctx', h', w') \<and>
     rb_list (h' True) = [7, 8] \<and> h' False = demo_rings False"
proof -
  have r: "os_recvmsg demo_io_os 5 4 (demo_start [5, 6] [Recv [7, 8] []]) = (Recv [7, 8] [], demo_start [5, 6] [])"
    by (simp add: demo_io_os_def demo_recvmsg_def demo_start_def)
  have t: "0 < fst (os_timebase demo_io_os)" "0 < snd (os_timebase demo_io_os)"
    by (simp_all add: demo_io_os_def)
  show ?thesis
    using io_read_appends [of "demo_ctx [5, 6]" 0 True demo_rings demo_io_os "demo_start [5, 6] [Recv [7, 8] []]"
        "[7, 8]" "[]" "demo_start [5, 6] []"] r t demo_rings_simps demo_ctx_simps
    by (simp add: demo_socket_def) blast
qed

lemma io_gather_eq:
  assumes "rb_inv rb"
  shows "\<exists>iov. io_gather rb (ringbuffer_read_inline rb) = Some iov \<and> concat iov = rb_list rb \<and> length iov \<le> 2"
proof -
  have ok: "length (rb_mem rb) = rb_size rb" "rb_read_ptr rb < rb_size rb" "rb_write_ptr rb < rb_size rb"
    "rb_size rb < 2 ^ 62"
    using assms by (simp_all add: rb_inv_def)
  have used: "length (rb_list rb) = ring_used (rb_size rb) (rb_read_ptr rb) (rb_write_ptr rb)"
    by (rule length_rb_list [OF assms])
  have a: "add64 (rb_read_ptr rb) (length (rb_list rb)) = rb_read_ptr rb + length (rb_list rb)"
    using ok by (intro add64_exact) (auto simp: used ring_used_def)
  have s: "sub64 (rb_size rb) (rb_read_ptr rb) = rb_size rb - rb_read_ptr rb"
    using ok by (intro sub64_exact) auto
  note def = io_gather_def read_inline_eq [OF assms] prod.case Let_def a s
  show ?thesis
  proof (cases "rb_size rb < rb_read_ptr rb + length (rb_list rb)")
    case False
    then have "mem_read (rb_mem rb) (rb_read_ptr rb) (length (rb_list rb)) = Some (rb_list rb)"
      using ok used by (auto simp: mem_read_def ring_used_def rb_list_def ring_list_def split: if_splits)
    with False show ?thesis
      unfolding def by simp
  next
    case True
    then have w: "\<not> rb_read_ptr rb \<le> rb_write_ptr rb" "length (rb_list rb) = rb_size rb - rb_read_ptr rb + rb_write_ptr rb"
      using ok used by (auto simp: ring_used_def split: if_splits)
    then have l: "sub64 (length (rb_list rb)) (rb_size rb - rb_read_ptr rb) = rb_write_ptr rb"
      using ok by (subst sub64_exact) auto
    have "mem_read (rb_mem rb) (rb_read_ptr rb) (rb_size rb - rb_read_ptr rb) = Some (drop (rb_read_ptr rb) (rb_mem rb))"
      "mem_read (rb_mem rb) 0 (rb_write_ptr rb) = Some (take (rb_write_ptr rb) (rb_mem rb))"
      using ok by (auto simp: mem_read_def)
    moreover have "rb_list rb = drop (rb_read_ptr rb) (rb_mem rb) @ take (rb_write_ptr rb) (rb_mem rb)"
      using w(1) by (simp add: rb_list_def ring_list_def)
    ultimately show ?thesis
      using True unfolding def l by simp
  qed
qed

lemma io_write_effect:
  assumes "io_inv ctx" and "0 \<le> i" and "i < io_socket_count ctx"
    and "so_tx_ring (io_sockets ctx ! nat i) = Some p" and "0 \<le> so_fd (io_sockets ctx ! nat i)"
    and "rb_inv (h p)" and "rb_list (h p) \<noteq> []"
    and "\<forall>iov w. fst (os_writev os (so_fd (io_sockets ctx ! nat i)) iov w) \<le> int (length (concat iov))"
  shows "\<exists>iov n h' w'. concat iov = rb_list (h p) \<and> length iov \<le> 2 \<and>
    os_writev os (so_fd (io_sockets ctx ! nat i)) iov w = (n, w') \<and>
    io_write os ctx i h w = Some (n, h', w') \<and> rb_inv (h' p) \<and>
    rb_list (h' p) = drop (nat n) (rb_list (h p)) \<and> (\<forall>q. q \<noteq> p \<longrightarrow> h' q = h q)"
proof -
  let ?fd = "so_fd (io_sockets ctx ! nat i)"
  let ?rb = "h p"
  note g = socket_at(1) [OF assms(1-3)]
  obtain iov where iov: "io_gather ?rb (ringbuffer_read_inline ?rb) = Some iov"
    "concat iov = rb_list ?rb" "length iov \<le> 2"
    using io_gather_eq [OF assms(6)] by (elim exE conjE)
  obtain n w' where wv: "os_writev os ?fd iov w = (n, w')" by force
  have n: "n \<le> int (length (rb_list ?rb))"
    using assms(8) wv iov(2) by (metis fst_conv)
  have ne: "snd (ringbuffer_read_inline ?rb) \<noteq> 0"
    using assms(7) by (simp add: read_inline_eq [OF assms(6)])
  show ?thesis
  proof (cases "0 < n")
    case False
    then have "io_write os ctx i h w = Some (n, h, w')"
      using assms(2-5) ne iov(1) wv g by (simp add: io_write_def Let_def)
    with False iov wv assms(6) show ?thesis
      by (intro exI [of _ iov] exI [of _ n] exI [of _ h] exI [of _ w']) simp
  next
    case True
    have "nat n \<le> length (rb_list ?rb)"
      using n by simp
    from read_step [OF assms(6) this] obtain q where q: "umod (add64 (rb_read_ptr ?rb) (nat n)) (rb_size ?rb) = Some q"
      "rb_inv (?rb\<lparr>rb_read_ptr := q\<rparr>)" "rb_list (?rb\<lparr>rb_read_ptr := q\<rparr>) = drop (nat n) (rb_list ?rb)" .
    then have "io_write os ctx i h w = Some (n, h(p := ?rb\<lparr>rb_read_ptr := q\<rparr>), w')"
      using True assms(2-5) ne iov(1) wv g by (simp add: io_write_def Let_def)
    with q iov wv show ?thesis
      by (intro exI [of _ iov] exI [of _ n] exI [of _ "h(p := ?rb\<lparr>rb_read_ptr := q\<rparr>)"] exI [of _ w']) simp
  qed
qed

text \<open>
  C29. Sending: whether or not the data wraps around the end of the ring, \<open>io_write\<close> offers the
  kernel exactly the contents of the ring in order, in one or two parts inside the ring; of
  these it removes exactly the bytes the kernel accepted, and no other ring changes.
\<close>

theorem io_write_sends_contents:
  assumes "io_inv ctx" and "0 \<le> i" and "i < io_socket_count ctx"
    and "so_tx_ring (io_sockets ctx ! nat i) = Some p" and "0 \<le> so_fd (io_sockets ctx ! nat i)"
    and "rb_inv (h p)" and "rb_list (h p) \<noteq> []"
    and "\<forall>iov w. fst (os_writev os (so_fd (io_sockets ctx ! nat i)) iov w) \<le> int (length (concat iov))"
  shows "\<exists>iov n h' w'. concat iov = rb_list (h p) \<and> length iov \<le> 2 \<and>
    os_writev os (so_fd (io_sockets ctx ! nat i)) iov w = (n, w') \<and>
    io_write os ctx i h w = Some (n, h', w') \<and> rb_inv (h' p) \<and>
    rb_list (h' p) = drop (nat n) (rb_list (h p)) \<and> (\<forall>q. q \<noteq> p \<longrightarrow> h' q = h q)"
  using assms by (rule io_write_effect)

theorem io_write_sends_contents_witness:
  "\<exists>n h' w'. io_write demo_io_os (demo_ctx [5, 6]) 0 demo_rings (demo_start [5, 6] []) = Some (n, h', w') \<and>
     rb_list (h' False) = drop (nat n) [1, 2]"
proof -
  have "\<forall>iov w. fst (os_writev demo_io_os 5 iov w) \<le> int (length (concat iov))"
    by (simp add: demo_io_os_def)
  then show ?thesis
    using io_write_sends_contents [of "demo_ctx [5, 6]" 0 False demo_rings demo_io_os "demo_start [5, 6] []"]
      demo_rings_simps demo_ctx_simps
    by (simp add: demo_socket_def) blast
qed

text \<open>
  A receive that would block is reported as \<open>-1\<close>, like an error or the end of the stream.
\<close>

theorem io_read_would_block:
  assumes "io_inv ctx" and "0 \<le> i" and "i < io_socket_count ctx"
    and "so_rx_ring (io_sockets ctx ! nat i) = Some p" and "0 \<le> so_fd (io_sockets ctx ! nat i)"
    and "snd (ringbuffer_write_inline (h p)) \<noteq> 0"
    and "os_recvmsg os (so_fd (io_sockets ctx ! nat i)) (snd (ringbuffer_write_inline (h p))) w = (Recv_error EAGAIN, w1)"
  shows "io_read os ctx i h w = Some (-1, ctx, h, w1)"
proof -
  obtain off av where "ringbuffer_write_inline (h p) = (off, av)" by force
  with assms show ?thesis
    by (simp add: io_read_def socket_at)
qed

theorem io_read_would_block_witness:
  "io_read demo_io_os (demo_ctx [5, 6]) 0 demo_rings (demo_start [5, 6] []) = Some (-1, demo_ctx [5, 6], demo_rings, demo_start [5, 6] [])"
proof -
  have "os_recvmsg demo_io_os 5 4 (demo_start [5, 6] []) = (Recv_error EAGAIN, demo_start [5, 6] [])"
    by (simp add: demo_io_os_def demo_recvmsg_def demo_start_def)
  then show ?thesis
    using demo_rings_simps demo_ctx_simps
    by (intro io_read_would_block [where p = True]) (simp_all add: demo_socket_def)
qed

text \<open>
  The arrival time in clock ticks, computed in integer arithmetic, is exact up to rounding as
  long as the clock value in nanoseconds fits in 64 bits: converted back it is not before the
  arrival time and after it by less than a nanosecond and a tick.
\<close>

theorem nic_ticks_accurate:
  assumes "0 < numer" and "0 < denom" and "now_ticks * numer < 2 ^ 64"
    and "nic_ns \<le> now_ticks * numer div denom" and "0 < now_ticks * numer div denom"
  shows "\<exists>t. nic_ticks numer denom now_ticks nic_ns = Some t \<and> t \<le> now_ticks \<and>
    nic_ns * denom \<le> t * numer \<and> t * numer < nic_ns * denom + denom + numer"
  using assms by (rule nic_ticks_exact)

theorem nic_ticks_accurate_witness:
  "\<exists>t. nic_ticks 125 3 2400 90000 = Some t \<and> t \<le> 2400 \<and>
     90000 * 3 \<le> t * 125 \<and> t * 125 < 90000 * 3 + 3 + 125"
  by (rule nic_ticks_accurate) simp_all

end
