(* ===== verification/Tls.thy ===== *)
theory Tls
  imports Io_Kqueue
begin

text \<open>
  The TLS layer of \<^verbatim>\<open>src/src/ssl.c\<close>: the context, its life cycle, the two socket callbacks it
  registers with SecureTransport, and the transfer of decrypted bytes between the TLS library
  and the rings. SecureTransport and OpenSSL are operations of the system record. The
  SecureTransport calls that may perform I/O receive the two callbacks, since they call them on
  the context; a library handle is an address, \<open>0\<close> when it is null. \<open>HAVE_OPENSSL\<close> is a
  compile-time switch of the source and a field here.
\<close>

datatype SSLBackend = SSL_BACKEND_SECURETRANSPORT | SSL_BACKEND_OPENSSL

record SSLContext =
  sc_backend :: SSLBackend
  sc_fd :: int
  sc_cert_validation_disabled :: bool
  sc_peer_hostname :: "byte list"
  sc_st_ctx :: addr
  sc_st_conn :: bool
  sc_ossl_ctx :: addr
  sc_ossl_ssl :: addr
  sc_read_buf_size :: size_t
  sc_last_nic_timestamp_ns :: u64
  sc_last_nic_timestamp_ticks :: u64

datatype OSStatus =
  noErr | errSSLWouldBlock | errSSLClosedGraceful | errSSLClosedAbort | errSSLProtocol | Other_status int

datatype ssl_error = SSL_ERROR_WANT_READ | SSL_ERROR_WANT_WRITE | Other_ssl_error int

datatype write_result = Written nat | Write_error errno

text \<open>
  The callbacks: on the context, with the requested length or the data, they return a status,
  the value stored through the length pointer, and (for reading) the bytes stored.
\<close>

type_synonym 'w read_func = "SSLContext \<Rightarrow> size_t \<Rightarrow> 'w \<Rightarrow> (OSStatus \<times> size_t \<times> byte list \<times> SSLContext \<times> 'w) option"
type_synonym 'w write_func = "SSLContext \<Rightarrow> byte list \<Rightarrow> 'w \<Rightarrow> OSStatus \<times> size_t \<times> 'w"

record 'w tls_os = "'w io_os" +
  have_openssl :: bool
  os_malloc :: "size_t \<Rightarrow> 'w \<Rightarrow> bool \<times> 'w"
  os_usleep :: "nat \<Rightarrow> 'w \<Rightarrow> 'w"
  os_write :: "int \<Rightarrow> byte list \<Rightarrow> 'w \<Rightarrow> write_result \<times> 'w"
  st_SSLNewContext :: "'w \<Rightarrow> (OSStatus \<times> addr) \<times> 'w"
  st_SSLSetIOFuncs :: "addr \<Rightarrow> 'w \<Rightarrow> OSStatus \<times> 'w"
  st_SSLSetBreakOnServerAuth :: "addr \<Rightarrow> bool \<Rightarrow> 'w \<Rightarrow> 'w"
  st_SSLSetConnection :: "addr \<Rightarrow> 'w \<Rightarrow> OSStatus \<times> 'w"
  st_SSLSetPeerDomainName :: "addr \<Rightarrow> byte list \<Rightarrow> 'w \<Rightarrow> OSStatus \<times> 'w"
  st_SSLHandshake :: "'w read_func \<Rightarrow> 'w write_func \<Rightarrow> addr \<Rightarrow> SSLContext \<Rightarrow> 'w
    \<Rightarrow> (OSStatus \<times> SSLContext \<times> 'w) option"
  st_SSLRead :: "'w read_func \<Rightarrow> 'w write_func \<Rightarrow> addr \<Rightarrow> size_t \<Rightarrow> SSLContext \<Rightarrow> 'w
    \<Rightarrow> (OSStatus \<times> byte list \<times> SSLContext \<times> 'w) option"
  st_SSLWrite :: "'w read_func \<Rightarrow> 'w write_func \<Rightarrow> addr \<Rightarrow> byte list \<Rightarrow> SSLContext \<Rightarrow> 'w
    \<Rightarrow> (OSStatus \<times> size_t \<times> SSLContext \<times> 'w) option"
  st_SSLClose :: "'w read_func \<Rightarrow> 'w write_func \<Rightarrow> addr \<Rightarrow> SSLContext \<Rightarrow> 'w
    \<Rightarrow> (OSStatus \<times> SSLContext \<times> 'w) option"
  st_SSLDisposeContext :: "addr \<Rightarrow> 'w \<Rightarrow> 'w"
  ossl_global_init :: "'w \<Rightarrow> 'w"
  ossl_CTX_new :: "'w \<Rightarrow> addr \<times> 'w"
  ossl_CTX_set_proto_versions :: "addr \<Rightarrow> 'w \<Rightarrow> 'w"
  ossl_CTX_set_verify_none :: "addr \<Rightarrow> 'w \<Rightarrow> 'w"
  ossl_CTX_set_default_verify_paths :: "addr \<Rightarrow> 'w \<Rightarrow> 'w"
  ossl_CTX_configure :: "addr \<Rightarrow> 'w \<Rightarrow> 'w"
  ossl_SSL_new :: "addr \<Rightarrow> 'w \<Rightarrow> addr \<times> 'w"
  ossl_set_tlsext_host_name :: "addr \<Rightarrow> byte list \<Rightarrow> 'w \<Rightarrow> 'w"
  ossl_set_fd :: "addr \<Rightarrow> int \<Rightarrow> 'w \<Rightarrow> 'w"
  ossl_connect :: "addr \<Rightarrow> 'w \<Rightarrow> int \<times> 'w"
  ossl_get_error :: "addr \<Rightarrow> int \<Rightarrow> 'w \<Rightarrow> ssl_error"
  ossl_read :: "addr \<Rightarrow> size_t \<Rightarrow> 'w \<Rightarrow> (int \<times> byte list) \<times> 'w"
  ossl_write :: "addr \<Rightarrow> byte list \<Rightarrow> 'w \<Rightarrow> int \<times> 'w"
  ossl_shutdown_free :: "addr \<Rightarrow> 'w \<Rightarrow> 'w"
  ossl_CTX_free :: "addr \<Rightarrow> 'w \<Rightarrow> 'w"
  ossl_is_init_finished :: "addr \<Rightarrow> 'w \<Rightarrow> bool"
  ossl_clear_errors :: "'w \<Rightarrow> 'w"

subsection \<open>The callbacks\<close>

text \<open>
  Reading: the arrival time comes from the control messages, or failing that from the clock
  value taken before the call.
\<close>

definition ssl_read_func :: "('w, 'z) tls_os_scheme \<Rightarrow> 'w read_func" where
  "ssl_read_func os ctx len w =
     (if sc_fd ctx < 0 then Some (errSSLClosedGraceful, len, [], ctx, w)
      else
        let (packet_arrival_ticks, w1) = os_absolute_time os w in
        case os_recvmsg os (sc_fd ctx) len w1 of
          (Recv_error e, w2) \<Rightarrow>
            if e = EAGAIN \<or> e = EWOULDBLOCK then Some (errSSLWouldBlock, 0, [], ctx, w2)
            else Some (errSSLClosedGraceful, len, [], ctx, w2)
        | (Recv d cs, w2) \<Rightarrow>
            if d = [] then Some (errSSLClosedGraceful, 0, [], ctx, w2)
            else do {
              (nic, w3) \<leftarrow> capture_nic os cs w2;
              (ns, ticks) \<leftarrow> (case nic of
                  Some (ns, ticks) \<Rightarrow> Some (ns, ticks)
                | None \<Rightarrow> map_option (\<lambda>ns. (ns, packet_arrival_ticks))
                    (udiv (mul64 packet_arrival_ticks (fst (os_timebase os))) (snd (os_timebase os))));
              Some (noErr, length d, d,
                    ctx\<lparr>sc_last_nic_timestamp_ns := ns, sc_last_nic_timestamp_ticks := ticks\<rparr>, w3)
            })"

definition ssl_write_func :: "('w, 'z) tls_os_scheme \<Rightarrow> 'w write_func" where
  "ssl_write_func os ctx d w =
     (if sc_fd ctx < 0 then (errSSLClosedGraceful, length d, w)
      else
        case os_write os (sc_fd ctx) d w of
          (Write_error e, w1) \<Rightarrow>
            if e = EAGAIN \<or> e = EWOULDBLOCK then (errSSLWouldBlock, 0, w1)
            else (errSSLClosedGraceful, length d, w1)
        | (Written n, w1) \<Rightarrow> (if 0 < n then noErr else errSSLClosedGraceful, n, w1))"

subsection \<open>Life cycle\<close>

definition fresh_ssl :: "bool \<Rightarrow> SSLContext" where
  "fresh_ssl disable_cert_validation =
     \<lparr>sc_backend = SSL_BACKEND_SECURETRANSPORT, sc_fd = -1,
      sc_cert_validation_disabled = disable_cert_validation, sc_peer_hostname = [], sc_st_ctx = 0,
      sc_st_conn = False, sc_ossl_ctx = 0, sc_ossl_ssl = 0, sc_read_buf_size = 64 * 1024,
      sc_last_nic_timestamp_ns = 0, sc_last_nic_timestamp_ticks = 0\<rparr>"

text \<open>The OpenSSL branch of \<open>ssl_init\<close>, taken when SecureTransport could not be set up.\<close>

definition ssl_init_openssl ::
  "('w, 'z) tls_os_scheme \<Rightarrow> SSLContext \<Rightarrow> bool \<Rightarrow> 'w \<Rightarrow> int \<times> SSLContext option \<times> 'w" where
  "ssl_init_openssl os ctx disable_cert_validation w =
     (if \<not> have_openssl os then (-1, None, w)
      else
        let (c, w1) = ossl_CTX_new os (ossl_global_init os w) in
        if c = 0 then (-1, None, w1)
        else
          let w2 = ossl_CTX_set_proto_versions os c w1;
              w2 = (if disable_cert_validation then ossl_CTX_set_verify_none os c w2
                    else ossl_CTX_set_default_verify_paths os c w2);
              w3 = ossl_CTX_configure os c w2
          in (0, Some (ctx\<lparr>sc_ossl_ctx := c, sc_backend := SSL_BACKEND_OPENSSL\<rparr>), w3))"

definition ssl_init ::
  "('w, 'z) tls_os_scheme \<Rightarrow> bool \<Rightarrow> 'w \<Rightarrow> int \<times> SSLContext option \<times> 'w" where
  "ssl_init os disable_cert_validation w =
     (let (ok, w1) = os_malloc os 1 w in
      if \<not> ok then (-1, None, w1)
      else
        let ctx = fresh_ssl disable_cert_validation; (ok, w2) = os_malloc os (sc_read_buf_size ctx) w1 in
        if \<not> ok then (-1, None, w2)
        else
          let ((status, st), w3) = st_SSLNewContext os w2; ctx = ctx\<lparr>sc_st_ctx := st\<rparr> in
          if status = noErr \<and> st \<noteq> 0 then
            let (status, w4) = st_SSLSetIOFuncs os st w3 in
            if status = noErr then
              (0, Some ctx, if disable_cert_validation then st_SSLSetBreakOnServerAuth os st False w4 else w4)
            else ssl_init_openssl os ctx disable_cert_validation w4
          else ssl_init_openssl os ctx disable_cert_validation w3)"

definition ssl_cleanup :: "('w, 'z) tls_os_scheme \<Rightarrow> SSLContext \<Rightarrow> 'w \<Rightarrow> 'w option" where
  "ssl_cleanup os ctx w =
     (let w1 = (if 0 \<le> sc_fd ctx then os_close os (sc_fd ctx) (os_shutdown os (sc_fd ctx) w) else w);
          ctx1 = (if 0 \<le> sc_fd ctx then ctx\<lparr>sc_fd := -1\<rparr> else ctx)
      in do {
        w2 \<leftarrow> (if sc_backend ctx1 = SSL_BACKEND_SECURETRANSPORT \<and> sc_st_ctx ctx1 \<noteq> 0 then do {
                 (_, _, w2) \<leftarrow> st_SSLClose os (ssl_read_func os) (ssl_write_func os) (sc_st_ctx ctx1) ctx1 w1;
                 Some (st_SSLDisposeContext os (sc_st_ctx ctx1) (os_usleep os 1000 w2))
               }
               else Some w1);
        if have_openssl os \<and> sc_backend ctx1 = SSL_BACKEND_OPENSSL then
          let w3 = (if sc_ossl_ssl ctx1 \<noteq> 0 then ossl_shutdown_free os (sc_ossl_ssl ctx1) w2 else w2)
          in Some (if sc_ossl_ctx ctx1 \<noteq> 0 then ossl_CTX_free os (sc_ossl_ctx ctx1) w3 else w3)
        else Some w2
      })"

definition clear_ssl_errors :: "('w, 'z) tls_os_scheme \<Rightarrow> SSLContext \<Rightarrow> 'w \<Rightarrow> 'w" where
  "clear_ssl_errors os ctx w =
     (if have_openssl os \<and> sc_backend ctx = SSL_BACKEND_OPENSSL then ossl_clear_errors os w else w)"

text \<open>\<open>peer_hostname\<close> is the C string in the 256-byte buffer: at most 255 characters.\<close>

definition ssl_connect ::
  "('w, 'z) tls_os_scheme \<Rightarrow> SSLContext \<Rightarrow> int \<Rightarrow> byte list \<Rightarrow> 'w \<Rightarrow> (int \<times> SSLContext \<times> 'w) option" where
  "ssl_connect os ctx0 fd hostname w =
     (if fd < 0 then Some (-1, ctx0, w)
      else
        let ctx = ctx0\<lparr>sc_fd := fd, sc_peer_hostname := take 255 hostname\<rparr> in
        case sc_backend ctx of
          SSL_BACKEND_SECURETRANSPORT \<Rightarrow>
            let (status, w1) = st_SSLSetConnection os (sc_st_ctx ctx) w in
            if status \<noteq> noErr then Some (-1, ctx, w1)
            else
              let ctx1 = ctx\<lparr>sc_st_conn := True\<rparr>;
                  (status, w2) = st_SSLSetPeerDomainName os (sc_st_ctx ctx) (sc_peer_hostname ctx) w1
              in if status \<noteq> noErr then Some (-1, ctx1, w2)
                 else do {
                   (status, ctx2, w3) \<leftarrow>
                     st_SSLHandshake os (ssl_read_func os) (ssl_write_func os) (sc_st_ctx ctx1) ctx1 w2;
                   if status = noErr \<or> status = errSSLWouldBlock then Some (0, ctx2, w3)
                   else if status = errSSLProtocol then Some (0, ctx2, w3)
                   else Some (-1, ctx2, w3)
                 }
        | SSL_BACKEND_OPENSSL \<Rightarrow>
            if \<not> have_openssl os then Some (-1, ctx, w)
            else
              let (s, w1) = ossl_SSL_new os (sc_ossl_ctx ctx) w; ctx1 = ctx\<lparr>sc_ossl_ssl := s\<rparr> in
              if s = 0 then Some (-1, ctx1, clear_ssl_errors os ctx1 w1)
              else
                let w2 = ossl_set_fd os s fd (ossl_set_tlsext_host_name os s hostname w1);
                    (ret, w3) = ossl_connect os s w2
                in if ret = 1 then Some (0, ctx1, w3)
                   else
                     let ssl_err = ossl_get_error os s ret w3 in
                     if ssl_err = SSL_ERROR_WANT_READ \<or> ssl_err = SSL_ERROR_WANT_WRITE then Some (0, ctx1, w3)
                     else Some (-1, ctx1, clear_ssl_errors os ctx1 w3))"

subsection \<open>Reading and writing\<close>

text \<open>
  Reading: the library stores the bytes in the window of the ring behind the write pointer
  whatever status it returns; the write pointer moves only on success.
\<close>

definition ssl_read_securetransport ::
  "('w, 'z) tls_os_scheme \<Rightarrow> SSLContext \<Rightarrow> RingBuffer \<Rightarrow> 'w \<Rightarrow> (int \<times> SSLContext \<times> RingBuffer \<times> 'w) option" where
  "ssl_read_securetransport os ctx rb w =
     (let (write_ptr, available) = ringbuffer_write_inline rb in
      if available = 0 then Some (0, ctx, rb, w)
      else
        let requested = (if available < sc_read_buf_size ctx then available else sc_read_buf_size ctx) in
        do {
          (status, d, ctx1, w1) \<leftarrow>
            st_SSLRead os (ssl_read_func os) (ssl_write_func os) (sc_st_ctx ctx) requested ctx w;
          m \<leftarrow> mem_write (rb_mem rb) write_ptr d;
          let rb1 = rb\<lparr>rb_mem := m\<rparr>;
          if status = noErr \<and> d \<noteq> [] then do {
            wp \<leftarrow> umod (add64 (rb_write_ptr rb) (length d)) (rb_size rb);
            Some (int (length d), ctx1, rb1\<lparr>rb_write_ptr := wp\<rparr>, w1)
          }
          else if status = errSSLWouldBlock then Some (0, ctx1, rb1, w1)
          else Some (-1, ctx1\<lparr>sc_fd := -1\<rparr>, rb1, w1)
        })"

text \<open>
  The OpenSSL calls take their length as an \<open>int\<close>, and the code casts the \<open>size_t\<close> to it. The
  lengths are at most the size of a ring, 8 MB, or of the read buffer, so the cast keeps them and
  is left out.
\<close>

definition ssl_read_openssl ::
  "('w, 'z) tls_os_scheme \<Rightarrow> SSLContext \<Rightarrow> RingBuffer \<Rightarrow> 'w \<Rightarrow> (int \<times> SSLContext \<times> RingBuffer \<times> 'w) option" where
  "ssl_read_openssl os ctx rb w =
     (if \<not> have_openssl os then Some (-1, ctx, rb, w)
      else
        let (write_ptr, available) = ringbuffer_write_inline rb in
        if available = 0 then Some (0, ctx, rb, w)
        else
          let ((ret, d), w1) = ossl_read os (sc_ossl_ssl ctx) available w in
          do {
            m \<leftarrow> mem_write (rb_mem rb) write_ptr d;
            let rb1 = rb\<lparr>rb_mem := m\<rparr>;
            if 0 < ret then do {
              wp \<leftarrow> umod (add64 (rb_write_ptr rb) (nat ret)) (rb_size rb);
              Some (ret, ctx, rb1\<lparr>rb_write_ptr := wp\<rparr>, w1)
            }
            else
              let ssl_err = ossl_get_error os (sc_ossl_ssl ctx) ret w1 in
              if ssl_err = SSL_ERROR_WANT_READ \<or> ssl_err = SSL_ERROR_WANT_WRITE then Some (0, ctx, rb1, w1)
              else Some (-1, ctx, rb1, w1)
          })"

definition ssl_read ::
  "('w, 'z) tls_os_scheme \<Rightarrow> SSLContext option \<Rightarrow> RingBuffer \<Rightarrow> 'w
   \<Rightarrow> (int \<times> SSLContext option \<times> RingBuffer \<times> 'w) option" where
  "ssl_read os c rb w =
     (case c of
        None \<Rightarrow> Some (-1, None, rb, w)
      | Some ctx \<Rightarrow>
          map_option (\<lambda>(n, ctx', rb', w'). (n, Some ctx', rb', w'))
            (case sc_backend ctx of
               SSL_BACKEND_SECURETRANSPORT \<Rightarrow> ssl_read_securetransport os ctx rb w
             | SSL_BACKEND_OPENSSL \<Rightarrow> ssl_read_openssl os ctx rb w))"

text \<open>Writing hands the library the window behind the read pointer as one object.\<close>

definition ssl_write_securetransport ::
  "('w, 'z) tls_os_scheme \<Rightarrow> SSLContext \<Rightarrow> RingBuffer \<Rightarrow> 'w \<Rightarrow> (int \<times> SSLContext \<times> RingBuffer \<times> 'w) option" where
  "ssl_write_securetransport os ctx rb w =
     (let (read_ptr, available) = ringbuffer_read_inline rb in
      if available = 0 then Some (0, ctx, rb, w)
      else do {
        d \<leftarrow> mem_read (rb_mem rb) read_ptr available;
        (status, written, ctx1, w1) \<leftarrow>
          st_SSLWrite os (ssl_read_func os) (ssl_write_func os) (sc_st_ctx ctx) d ctx w;
        if status = noErr \<and> 0 < written then do {
          rp \<leftarrow> umod (add64 (rb_read_ptr rb) written) (rb_size rb);
          Some (int written, ctx1, rb\<lparr>rb_read_ptr := rp\<rparr>, w1)
        }
        else if status = errSSLWouldBlock then Some (0, ctx1, rb, w1)
        else Some (-1, ctx1, rb, w1)
      })"

definition ssl_write_openssl ::
  "('w, 'z) tls_os_scheme \<Rightarrow> SSLContext \<Rightarrow> RingBuffer \<Rightarrow> 'w \<Rightarrow> (int \<times> SSLContext \<times> RingBuffer \<times> 'w) option" where
  "ssl_write_openssl os ctx rb w =
     (if \<not> have_openssl os then Some (-1, ctx, rb, w)
      else
        let (read_ptr, available) = ringbuffer_read_inline rb in
        if available = 0 then Some (0, ctx, rb, w)
        else do {
          d \<leftarrow> mem_read (rb_mem rb) read_ptr available;
          let (ret, w1) = ossl_write os (sc_ossl_ssl ctx) d w;
          if 0 < ret then do {
            rp \<leftarrow> umod (add64 (rb_read_ptr rb) (nat ret)) (rb_size rb);
            Some (ret, ctx, rb\<lparr>rb_read_ptr := rp\<rparr>, w1)
          }
          else
            let ssl_err = ossl_get_error os (sc_ossl_ssl ctx) ret w1 in
            if ssl_err = SSL_ERROR_WANT_READ \<or> ssl_err = SSL_ERROR_WANT_WRITE then Some (0, ctx, rb, w1)
            else Some (-1, ctx, rb, w1)
        })"

definition ssl_write ::
  "('w, 'z) tls_os_scheme \<Rightarrow> SSLContext option \<Rightarrow> RingBuffer \<Rightarrow> 'w
   \<Rightarrow> (int \<times> SSLContext option \<times> RingBuffer \<times> 'w) option" where
  "ssl_write os c rb w =
     (case c of
        None \<Rightarrow> Some (-1, None, rb, w)
      | Some ctx \<Rightarrow>
          map_option (\<lambda>(n, ctx', rb', w'). (n, Some ctx', rb', w'))
            (case sc_backend ctx of
               SSL_BACKEND_SECURETRANSPORT \<Rightarrow> ssl_write_securetransport os ctx rb w
             | SSL_BACKEND_OPENSSL \<Rightarrow> ssl_write_openssl os ctx rb w))"

definition ssl_get_backend :: "SSLContext option \<Rightarrow> SSLBackend" where
  "ssl_get_backend c = (case c of None \<Rightarrow> SSL_BACKEND_SECURETRANSPORT | Some ctx \<Rightarrow> sc_backend ctx)"

definition ssl_get_last_nic_timestamp_ns :: "SSLContext option \<Rightarrow> u64" where
  "ssl_get_last_nic_timestamp_ns c = (case c of None \<Rightarrow> 0 | Some ctx \<Rightarrow> sc_last_nic_timestamp_ns ctx)"

definition ssl_get_last_nic_timestamp_ticks :: "SSLContext option \<Rightarrow> u64" where
  "ssl_get_last_nic_timestamp_ticks c = (case c of None \<Rightarrow> 0 | Some ctx \<Rightarrow> sc_last_nic_timestamp_ticks ctx)"

definition ssl_is_handshake_complete :: "('w, 'z) tls_os_scheme \<Rightarrow> SSLContext option \<Rightarrow> 'w \<Rightarrow> bool" where
  "ssl_is_handshake_complete os c w =
     (case c of
        None \<Rightarrow> False
      | Some ctx \<Rightarrow>
          (case sc_backend ctx of
             SSL_BACKEND_SECURETRANSPORT \<Rightarrow> True
           | SSL_BACKEND_OPENSSL \<Rightarrow>
               have_openssl os \<and> sc_ossl_ssl ctx \<noteq> 0 \<and> ossl_is_init_finished os (sc_ossl_ssl ctx) w))"

end
