(* ===== verification/Tls_Props.thy ===== *)
theory Tls_Props
  imports Tls Io_Props
begin

text \<open>The properties of the TLS layer.\<close>

text \<open>
  An instance of the TLS operations for the concrete runs below: SecureTransport passes the
  socket's bytes through and ends a read with the given status.
\<close>

definition demo_SSLRead ::
  "OSStatus \<Rightarrow> demo_world read_func \<Rightarrow> demo_world write_func \<Rightarrow> addr \<Rightarrow> size_t \<Rightarrow> SSLContext \<Rightarrow> demo_world
   \<Rightarrow> (OSStatus \<times> byte list \<times> SSLContext \<times> demo_world) option" where
  "demo_SSLRead status rd wr h n ctx w = do {
     (s, k, d, ctx1, w1) \<leftarrow> rd ctx n w;
     Some (if s = noErr then status else s, d, ctx1, w1)
   }"

definition demo_SSLWrite ::
  "demo_world read_func \<Rightarrow> demo_world write_func \<Rightarrow> addr \<Rightarrow> byte list \<Rightarrow> SSLContext \<Rightarrow> demo_world
   \<Rightarrow> (OSStatus \<times> size_t \<times> SSLContext \<times> demo_world) option" where
  "demo_SSLWrite rd wr h d ctx w = (let (s, k, w1) = wr ctx d w in Some (s, k, ctx, w1))"

definition demo_tls_os :: "OSStatus \<Rightarrow> demo_world tls_os" where
  "demo_tls_os status = io_os.extend demo_io_os (tls_os.fields False (\<lambda>n w. (True, w)) (\<lambda>n w. w)
     (\<lambda>fd d w. (Written (length d), w\<lparr>dw_sent := dw_sent w @ d\<rparr>))
     (\<lambda>w. ((noErr, 1), w)) (\<lambda>h w. (noErr, w)) (\<lambda>h b w. w) (\<lambda>h w. (noErr, w)) (\<lambda>h n w. (noErr, w))
     (\<lambda>rd wr h c w. Some (noErr, c, w)) (demo_SSLRead status) demo_SSLWrite
     (\<lambda>rd wr h c w. Some (noErr, c, w)) (\<lambda>h w. w) (\<lambda>w. w) (\<lambda>w. (0, w)) (\<lambda>h w. w) (\<lambda>h w. w) (\<lambda>h w. w) (\<lambda>h w. w)
     (\<lambda>h w. (0, w)) (\<lambda>h n w. w) (\<lambda>h fd w. w) (\<lambda>h w. (0, w)) (\<lambda>h r w. Other_ssl_error 0) (\<lambda>h n w. ((0, []), w))
     (\<lambda>h d w. (0, w)) (\<lambda>h w. w) (\<lambda>h w. w) (\<lambda>h w. False) (\<lambda>w. w))"

definition demo_ssl :: SSLContext where
  "demo_ssl = (fresh_ssl False)\<lparr>sc_fd := 5, sc_st_ctx := 1\<rparr>"

lemmas demo_tls = demo_tls_os_def io_os.defs tls_os.defs demo_io_os_def demo_ssl_def fresh_ssl_def

lemma demo_read_func:
  "ssl_read_func (demo_tls_os status) demo_ssl n (demo_start [] [Recv [7, 8] []]) =
     Some (noErr, 2, [7, 8], demo_ssl\<lparr>sc_last_nic_timestamp_ns := 41666, sc_last_nic_timestamp_ticks := 1000\<rparr>,
       demo_start [] [])"
  by (simp add: demo_tls ssl_read_func_def demo_recvmsg_def demo_start_def capture_nic_def mul64_def)

text \<open>
  Receiving through TLS: when the library returns at most as many bytes as it was offered
  room for, they are stored inside the ring and, on success, the ring holds its old contents
  followed by them, unless they fill the window that \<open>ringbuffer_write_inline\<close> does not
  reserve a byte of; then the ring is empty.
\<close>

theorem ssl_read_appends:
  assumes "rb_inv rb" and "ringbuffer_write_inline rb = (wp, available)" and "available \<noteq> 0"
    and "sc_backend ctx = SSL_BACKEND_SECURETRANSPORT"
    and "st_SSLRead os (ssl_read_func os) (ssl_write_func os) (sc_st_ctx ctx)
           (min available (sc_read_buf_size ctx)) ctx w = Some (noErr, d, ctx', w')"
    and "d \<noteq> []" and "length d \<le> min available (sc_read_buf_size ctx)"
  shows "\<exists>rb'. ssl_read os (Some ctx) rb w = Some (int (length d), Some ctx', rb', w') \<and> rb_inv rb' \<and>
    rb_list rb' = (if length d \<le> ringbuffer_writeable rb then rb_list rb @ d else [])"
proof -
  have wp: "wp = rb_write_ptr rb"
    using assms(2) by (simp add: ringbuffer_write_inline_def Let_def)
  have "length d \<le> snd (ringbuffer_write_inline rb)"
    using assms(2,7) by simp
  from inline_commit_law [OF assms(1) this] obtain rb' where rb': "inline_commit rb d = Some rb'" "rb_inv rb'"
    "rb_list rb' = (if length d \<le> rb_capacity rb - length (rb_list rb) then rb_list rb @ d else [])"
    "rb' = rb\<lparr>rb_mem := rb_mem rb', rb_write_ptr := rb_write_ptr rb'\<rparr>" .
  then obtain m q where "mem_write (rb_mem rb) wp d = Some m"
    "umod (add64 (rb_write_ptr rb) (length d)) (rb_size rb) = Some q" "rb' = rb\<lparr>rb_mem := m, rb_write_ptr := q\<rparr>"
    by (auto simp: inline_commit_def wp split: option.splits bind_splits)
  with assms(2-6) rb'(2,3) show ?thesis
    by (simp add: ssl_read_def ssl_read_securetransport_def if_less_min writeable_eq [OF assms(1)])
qed

theorem ssl_read_appends_witness:
  "\<exists>ctx' rb'. ssl_read (demo_tls_os noErr) (Some demo_ssl) (demo_rings True) (demo_start [] [Recv [7, 8] []]) =
     Some (2, ctx', rb', demo_start [] []) \<and> rb_list rb' = [7, 8]"
proof -
  have "st_SSLRead (demo_tls_os noErr) (ssl_read_func (demo_tls_os noErr)) (ssl_write_func (demo_tls_os noErr))
      (sc_st_ctx demo_ssl) (min 4 (sc_read_buf_size demo_ssl)) demo_ssl (demo_start [] [Recv [7, 8] []]) =
      Some (noErr, [7, 8], demo_ssl\<lparr>sc_last_nic_timestamp_ns := 41666, sc_last_nic_timestamp_ticks := 1000\<rparr>, demo_start [] [])"
    using demo_read_func [of noErr] by (simp add: demo_tls demo_SSLRead_def)
  from ssl_read_appends [OF demo_rings_simps(1,5) _ _ this] show ?thesis
    using demo_rings_simps by (auto simp: demo_tls)
qed

text \<open>
  C30. Sending through TLS, with either library, when the contents of the ring do not wrap around
  its end: exactly the contents are offered to the library. When the call succeeds with a positive
  count, that count is returned and exactly that many bytes leave the front of the ring. In every
  other case the whole ring is kept and the result is \<open>0\<close> when the library would block, \<open>-1\<close>
  otherwise. This includes a blocking \<open>SSLWrite\<close> that reports a positive count of bytes it has
  accepted: they stay in the ring and are offered a second time.
\<close>

theorem ssl_write_sends_contents:
  assumes "rb_inv rb" and "rb_read_ptr rb \<le> rb_write_ptr rb \<or> rb_write_ptr rb = 0" and "rb_list rb \<noteq> []"
  shows "(\<forall>status written ctx' w'. sc_backend ctx = SSL_BACKEND_SECURETRANSPORT \<and> written \<le> length (rb_list rb) \<and>
      st_SSLWrite os (ssl_read_func os) (ssl_write_func os) (sc_st_ctx ctx) (rb_list rb) ctx w =
        Some (status, written, ctx', w') \<longrightarrow>
      (\<exists>r rb'. ssl_write os (Some ctx) rb w = Some (r, Some ctx', rb', w') \<and> rb_inv rb' \<and>
        (r, rb_list rb') = (if status = noErr \<and> 0 < written then (int written, drop written (rb_list rb))
          else (if status = errSSLWouldBlock then 0 else -1, rb_list rb)))) \<and>
    (\<forall>ret w'. sc_backend ctx = SSL_BACKEND_OPENSSL \<and> have_openssl os \<and> ret \<le> int (length (rb_list rb)) \<and>
      ossl_write os (sc_ossl_ssl ctx) (rb_list rb) w = (ret, w') \<longrightarrow>
      (\<exists>r rb'. ssl_write os (Some ctx) rb w = Some (r, Some ctx, rb', w') \<and> rb_inv rb' \<and>
        (r, rb_list rb') = (if 0 < ret then (ret, drop (nat ret) (rb_list rb))
          else (if ossl_get_error os (sc_ossl_ssl ctx) ret w' \<in> {SSL_ERROR_WANT_READ, SSL_ERROR_WANT_WRITE} then 0 else -1,
            rb_list rb))))"
    (is "?st \<and> ?ossl")
proof -
  obtain off n where ri: "ringbuffer_read_inline rb = (off, n)" by force
  have n: "n \<noteq> 0"
    using ri assms(3) by (auto simp: read_inline_eq [OF assms(1)])
  have m: "mem_read (rb_mem rb) off n = Some (rb_list rb)"
    using inline_view_eq [OF assms(1)] assms(2) ri by (simp add: inline_view_def)
  have q: "\<exists>q. umod (add64 (rb_read_ptr rb) k) (rb_size rb) = Some q \<and> rb_inv (rb\<lparr>rb_read_ptr := q\<rparr>) \<and>
      rb_list (rb\<lparr>rb_read_ptr := q\<rparr>) = drop k (rb_list rb)" if "k \<le> length (rb_list rb)" for k
    by (rule read_step [OF assms(1) that]) blast
  have ?st
    using assms(1) ri n m by (auto simp: ssl_write_def ssl_write_securetransport_def dest!: q)
  moreover have ?ossl
  proof (intro allI impI, elim conjE)
    fix ret w'
    assume "sc_backend ctx = SSL_BACKEND_OPENSSL" "have_openssl os" "ret \<le> int (length (rb_list rb))"
      "ossl_write os (sc_ossl_ssl ctx) (rb_list rb) w = (ret, w')"
    moreover from this(3) have "nat ret \<le> length (rb_list rb)"
      by simp
    note q [OF this]
    ultimately show "\<exists>r rb'. ssl_write os (Some ctx) rb w = Some (r, Some ctx, rb', w') \<and> rb_inv rb' \<and>
        (r, rb_list rb') = (if 0 < ret then (ret, drop (nat ret) (rb_list rb))
          else (if ossl_get_error os (sc_ossl_ssl ctx) ret w' \<in> {SSL_ERROR_WANT_READ, SSL_ERROR_WANT_WRITE} then 0 else -1,
            rb_list rb))"
      using assms(1) ri n m by (auto simp: ssl_write_def ssl_write_openssl_def Let_def)
  qed
  ultimately show ?thesis ..
qed

text \<open>A ring of four bytes that holds two bytes which do not wrap.\<close>

definition straight_ring :: RingBuffer where
  "straight_ring = \<lparr>rb_buf = 256, rb_mem = [0, 1, 2, 0], rb_size = 4, rb_read_ptr = 1, rb_write_ptr = 3, rb_locked = False\<rparr>"

lemma straight_ring_simps: "rb_inv straight_ring" "rb_list straight_ring = [1, 2]"
  by (simp_all add: straight_ring_def rb_inv_def rb_list_def ring_list_def)

text \<open>The example system with OpenSSL, which takes one byte at a time.\<close>

definition demo_openssl_os :: "demo_world tls_os" where
  "demo_openssl_os = (demo_tls_os noErr)\<lparr>have_openssl := True, ossl_write := \<lambda>h d w. (1, w\<lparr>dw_sent := dw_sent w @ take 1 d\<rparr>)\<rparr>"

theorem ssl_write_sends_contents_witness:
  "(\<exists>rb' w'. ssl_write (demo_tls_os noErr) (Some demo_ssl) straight_ring (demo_start [] []) = Some (2, Some demo_ssl, rb', w') \<and>
     rb_list rb' = []) \<and>
   (\<exists>c rb' w'. ssl_write demo_openssl_os (Some (demo_ssl\<lparr>sc_backend := SSL_BACKEND_OPENSSL\<rparr>)) straight_ring (demo_start [] []) =
     Some (1, c, rb', w') \<and> rb_list rb' = [2])"
proof -
  have s: "st_SSLWrite (demo_tls_os noErr) (ssl_read_func (demo_tls_os noErr)) (ssl_write_func (demo_tls_os noErr))
      (sc_st_ctx demo_ssl) (rb_list straight_ring) demo_ssl (demo_start [] []) =
      Some (noErr, 2, demo_ssl, (demo_start [] [])\<lparr>dw_sent := [1, 2]\<rparr>)"
    by (simp add: straight_ring_simps demo_tls demo_SSLWrite_def ssl_write_func_def demo_start_def)
  have p: "rb_read_ptr straight_ring \<le> rb_write_ptr straight_ring" "sc_backend demo_ssl = SSL_BACKEND_SECURETRANSPORT"
    by (simp_all add: straight_ring_def demo_tls)
  have o: "have_openssl demo_openssl_os" "ossl_write demo_openssl_os h [1, 2] v = (1, v\<lparr>dw_sent := dw_sent v @ [1]\<rparr>)" for h v
    by (simp_all add: demo_openssl_os_def)
  show ?thesis
    using ssl_write_sends_contents [OF straight_ring_simps(1), of demo_ssl "demo_tls_os noErr" "demo_start [] []"] s p
      ssl_write_sends_contents [OF straight_ring_simps(1), of "demo_ssl\<lparr>sc_backend := SSL_BACKEND_OPENSSL\<rparr>" demo_openssl_os "demo_start [] []"] o
    by (simp add: straight_ring_simps) metis
qed

text \<open>
  C31. When the contents wrap around the end of the ring, sending through TLS reads past the end
  of the ring memory, whatever the TLS library does.
\<close>

theorem ssl_write_wrapped_overrun:
  assumes "rb_inv rb" and "rb_write_ptr rb < rb_read_ptr rb" and "rb_write_ptr rb \<noteq> 0"
    and "sc_backend ctx = SSL_BACKEND_OPENSSL \<longrightarrow> have_openssl os"
  shows "ssl_write os (Some ctx) rb w = None"
proof -
  obtain off n where ri: "ringbuffer_read_inline rb = (off, n)" by force
  have "rb_list rb \<noteq> []"
    using assms(1,2) by (auto simp: rb_list_def ring_list_def rb_inv_def)
  then have "n \<noteq> 0"
    using ri by (auto simp: read_inline_eq [OF assms(1)])
  moreover have "mem_read (rb_mem rb) off n = None"
    using inline_view_eq [OF assms(1)] assms(2,3) ri by (simp add: inline_view_def)
  ultimately show ?thesis
    using ri assms(4)
    by (cases "sc_backend ctx") (simp_all add: ssl_write_def ssl_write_securetransport_def ssl_write_openssl_def)
qed

theorem ssl_write_wrapped_overrun_witness:
  "ssl_write (demo_tls_os noErr) (Some demo_ssl) (demo_rings False) (demo_start [] []) = None"
  by (rule ssl_write_wrapped_overrun [OF demo_rings_simps(2)]) (simp_all add: demo_rings_def demo_tls)

text \<open>
  Bytes that SecureTransport returns together with \<open>errSSLWouldBlock\<close> are lost: they are
  stored behind the write pointer, which does not move, and the call reports that nothing was
  read.
\<close>

theorem ssl_read_would_block_drops:
  assumes "rb_inv rb" and "ringbuffer_write_inline rb = (wp, available)" and "available \<noteq> 0"
    and "sc_backend ctx = SSL_BACKEND_SECURETRANSPORT"
    and "st_SSLRead os (ssl_read_func os) (ssl_write_func os) (sc_st_ctx ctx)
           (min available (sc_read_buf_size ctx)) ctx w = Some (errSSLWouldBlock, d, ctx', w')"
    and "length d \<le> min available (sc_read_buf_size ctx)"
  shows "\<exists>rb'. ssl_read os (Some ctx) rb w = Some (0, Some ctx', rb', w') \<and>
    rb_read_ptr rb' = rb_read_ptr rb \<and> rb_write_ptr rb' = rb_write_ptr rb"
proof -
  have wp: "wp = rb_write_ptr rb"
    using assms(2) by (simp add: ringbuffer_write_inline_def Let_def)
  have "length d \<le> snd (ringbuffer_write_inline rb)"
    using assms(2,6) by simp
  then have "rb_write_ptr rb + length d \<le> rb_size rb"
    using assms(1) by (auto simp: write_inline_eq rb_inv_def split: if_splits)
  then obtain m where "mem_write (rb_mem rb) wp d = Some m"
    using assms(1) by (auto simp: mem_write_def wp rb_inv_def)
  with assms(2-5) show ?thesis
    by (simp add: ssl_read_def ssl_read_securetransport_def if_less_min)
qed

theorem ssl_read_would_block_drops_witness:
  "\<exists>ctx' rb'. ssl_read (demo_tls_os errSSLWouldBlock) (Some demo_ssl) (demo_rings True) (demo_start [] [Recv [7, 8] []]) =
     Some (0, ctx', rb', demo_start [] []) \<and> rb_write_ptr rb' = 0"
proof -
  have "st_SSLRead (demo_tls_os errSSLWouldBlock) (ssl_read_func (demo_tls_os errSSLWouldBlock))
      (ssl_write_func (demo_tls_os errSSLWouldBlock))
      (sc_st_ctx demo_ssl) (min 4 (sc_read_buf_size demo_ssl)) demo_ssl (demo_start [] [Recv [7, 8] []]) =
      Some (errSSLWouldBlock, [7, 8], demo_ssl\<lparr>sc_last_nic_timestamp_ns := 41666, sc_last_nic_timestamp_ticks := 1000\<rparr>, demo_start [] [])"
    using demo_read_func [of errSSLWouldBlock] by (simp add: demo_tls demo_SSLRead_def)
  from ssl_read_would_block_drops [OF demo_rings_simps(1,5) _ _ this] show ?thesis
    by (auto simp: demo_tls demo_rings_def)
qed

text \<open>
  The socket callback of SecureTransport stores exactly the received bytes and reports their
  number, and records the arrival time the kernel attached to them, or the clock if there is
  none; it changes nothing else in the context.
\<close>

theorem ssl_read_func_delivers:
  assumes "0 \<le> sc_fd ctx" and "os_absolute_time os w = (ticks, w1)"
    and "os_recvmsg os (sc_fd ctx) len w1 = (Recv d cs, w2)" and "d \<noteq> []"
    and "0 < fst (os_timebase os)" and "0 < snd (os_timebase os)"
  shows "\<exists>ctx' w'. ssl_read_func os ctx len w = Some (noErr, length d, d, ctx', w') \<and>
    ctx' = ctx\<lparr>sc_last_nic_timestamp_ns := sc_last_nic_timestamp_ns ctx',
               sc_last_nic_timestamp_ticks := sc_last_nic_timestamp_ticks ctx'\<rparr> \<and>
    (case nic_timestamp cs of
       Some ns \<Rightarrow> sc_last_nic_timestamp_ns ctx' = ns
     | None \<Rightarrow> sc_last_nic_timestamp_ticks ctx' = ticks)"
proof -
  obtain nic w3 where c: "capture_nic os cs w2 = Some (nic, w3)"
    using capture_nic_total [OF assms(5,6), of cs w2] by blast
  show ?thesis
  proof (cases nic)
    case None
    with c have "nic_timestamp cs = None"
      by (auto simp: capture_nic_def split: option.splits prod.splits)
    with None c assms show ?thesis
      by (simp add: ssl_read_func_def)
  next
    case (Some p)
    obtain ns t where p: "p = (ns, t)" by force
    with Some c have "nic_timestamp cs = Some ns"
      by (auto simp: capture_nic_def split: option.splits prod.splits)
    with Some p c assms show ?thesis
      by (simp add: ssl_read_func_def)
  qed
qed

theorem ssl_read_func_delivers_witness:
  "\<exists>ctx' w'. ssl_read_func (demo_tls_os noErr) demo_ssl 4 (demo_start [] [Recv [7, 8] []]) = Some (noErr, 2, [7, 8], ctx', w') \<and>
     sc_last_nic_timestamp_ticks ctx' = 1000"
proof -
  have "os_absolute_time (demo_tls_os noErr) w = (1000, w)" for w
    by (simp add: demo_tls)
  moreover have "os_recvmsg (demo_tls_os noErr) (sc_fd demo_ssl) 4 (demo_start [] [Recv [7, 8] []]) = (Recv [7, 8] [], demo_start [] [])"
    by (simp add: demo_tls demo_recvmsg_def demo_start_def)
  ultimately show ?thesis
    using ssl_read_func_delivers [of demo_ssl "demo_tls_os noErr" "demo_start [] [Recv [7, 8] []]" 1000
        "demo_start [] [Recv [7, 8] []]" 4 "[7, 8]" "[]" "demo_start [] []"]
    by (auto simp: demo_tls)
qed

end
