(* ===== verification/Ws_Url.thy ===== *)
theory Ws_Url
  imports C_Strings
begin

text \<open>
  \<open>parse_url\<close> of \<^verbatim>\<open>src/src/websocket.c\<close>. A pointer into the URL is an offset into the text after
  the protocol prefix; the two result buffers are the C strings stored in them.
\<close>

record url_parts =
  u_host :: "byte list"
  u_path :: "byte list"
  u_port :: int
  u_use_ssl :: bool

definition default_port :: "bool \<Rightarrow> int" where
  "default_port use_ssl = (if use_ssl then 443 else 80)"

text \<open>The end of the host: the first slash or question mark, or the end of the text.\<close>

definition url_host_end :: "byte list \<Rightarrow> nat" where
  "url_host_end s =
     (let e = length s;
          e = (case strchr s 47 of Some k \<Rightarrow> if k < e then k else e | None \<Rightarrow> e)
      in case strchr s 63 of Some k \<Rightarrow> if k < e then k else e | None \<Rightarrow> e)"

text \<open>Host and port; \<open>Inl\<close> is the early return.\<close>

definition parse_host_port :: "byte list \<Rightarrow> nat \<Rightarrow> size_t \<Rightarrow> url_parts \<Rightarrow> (url_parts + url_parts) option" where
  "parse_host_port s host_end host_len out =
     (case strchr s 58 of
        Some colon \<Rightarrow>
          if colon < host_end then
            if host_len \<le> colon then Some (Inl out)
            else
              let out1 = out\<lparr>u_host := take colon s\<rparr>;
                  port_start = colon + 1;
                  port_len = (if host_end < port_start + 20 then host_end - port_start else 20)
              in if 0 < port_len
                 then map_option (\<lambda>p. Inr (out1\<lparr>u_port := p\<rparr>)) (atoi (take (min 20 port_len) (drop port_start s)))
                 else Some (Inr (out1\<lparr>u_port := default_port (u_use_ssl out)\<rparr>))
          else if host_len \<le> host_end then Some (Inl out)
          else Some (Inr (out\<lparr>u_host := take host_end s, u_port := default_port (u_use_ssl out)\<rparr>))
      | None \<Rightarrow>
          if host_len \<le> host_end then Some (Inl out)
          else Some (Inr (out\<lparr>u_host := take host_end s, u_port := default_port (u_use_ssl out)\<rparr>)))"

definition parse_path :: "byte list \<Rightarrow> nat \<Rightarrow> size_t \<Rightarrow> url_parts \<Rightarrow> int \<times> url_parts" where
  "parse_path s host_end path_len out =
     (if host_end < length s \<and> (s ! host_end = 47 \<or> s ! host_end = 63) then
        (if path_len \<le> length (drop host_end s) then (-1, out)
         else (0, out\<lparr>u_path := drop host_end s\<rparr>))
      else if path_len < 2 then (-1, out)
      else (0, out\<lparr>u_path := [47]\<rparr>))"

definition parse_url :: "byte list option \<Rightarrow> size_t \<Rightarrow> size_t \<Rightarrow> url_parts \<Rightarrow> (int \<times> url_parts) option" where
  "parse_url url host_len path_len out0 =
     (case url of
        None \<Rightarrow> Some (-1, out0)
      | Some u \<Rightarrow>
          let out = out0\<lparr>u_use_ssl := False\<rparr>;
              proto = (if take 6 u = bytes_of ''wss://'' then Some (drop 6 u, out\<lparr>u_use_ssl := True\<rparr>)
                       else if take 5 u = bytes_of ''ws://'' then Some (drop 5 u, out)
                       else None)
          in case proto of
               None \<Rightarrow> Some (-1, out)
             | Some (s, out) \<Rightarrow>
                 let host_end = url_host_end s in
                 map_option (\<lambda>r. case r of Inl out' \<Rightarrow> (-1, out') | Inr out' \<Rightarrow> parse_path s host_end path_len out')
                   (parse_host_port s host_end host_len out))"

subsection \<open>Well-formed URLs\<close>

definition build_url :: "bool \<Rightarrow> byte list \<Rightarrow> nat option \<Rightarrow> byte list \<Rightarrow> byte list" where
  "build_url use_ssl host port path =
     bytes_of (if use_ssl then ''wss://'' else ''ws://'') @ host @
     (case port of None \<Rightarrow> [] | Some n \<Rightarrow> 58 # decimal n) @ path"

definition host_ok :: "byte list \<Rightarrow> bool" where
  "host_ok host \<longleftrightarrow> 58 \<notin> set host \<and> 47 \<notin> set host \<and> 63 \<notin> set host"

definition path_ok :: "byte list \<Rightarrow> bool" where
  "path_ok path \<longleftrightarrow> path = [] \<or> hd path = 47 \<or> hd path = 63"

lemma strchr_le: "strchr s c = Some k \<Longrightarrow> k < length s \<and> s ! k = c \<and> (\<forall>j<k. s ! j \<noteq> c)"
  by (simp add: strchr_def find_upt_Some)

definition first_or_end :: "byte list \<Rightarrow> byte \<Rightarrow> nat" where
  "first_or_end s c = (case strchr s c of None \<Rightarrow> length s | Some k \<Rightarrow> k)"

lemma first_or_end: "j < first_or_end s c \<Longrightarrow> s ! j \<noteq> c" "first_or_end s c \<le> length s"
  by (auto simp: first_or_end_def strchr_def find_upt_None find_upt_Some split: option.splits)

lemma url_host_end_min: "url_host_end s = min (first_or_end s 47) (first_or_end s 63)"
  by (auto simp: url_host_end_def first_or_end_def Let_def dest: strchr_le split: option.splits)

lemma url_host_end_eq:
  assumes "47 \<notin> set a" and "63 \<notin> set a" and "path_ok path"
  shows "url_host_end (a @ path) = length a"
proof -
  have no: "length a \<le> k" if "strchr (a @ path) c = Some k" "c \<notin> set a" for c k
    using strchr_le [OF that(1)] that(2) by (metis in_set_conv_nth leI nth_append)
  consider "path = []" | p where "path = 47 # p" | p where "path = 63 # p"
    using assms(3) by (cases path) (auto simp: path_ok_def)
  then show ?thesis
  proof cases
    case 1
    with assms show ?thesis by (simp add: url_host_end_def strchr_None)
  next
    case 2
    with assms have "strchr (a @ path) 47 = Some (length a)" by (simp add: strchr_append)
    with 2 no [of 63] assms show ?thesis
      by (auto simp: url_host_end_def Let_def split: option.splits)
  next
    case 3
    with assms have "strchr (a @ path) 63 = Some (length a)" by (simp add: strchr_append)
    with 3 no [of 47] assms show ?thesis
      by (auto simp: url_host_end_def Let_def split: option.splits)
  qed
qed

lemma length_decimal: "n < 10 ^ k \<Longrightarrow> 0 < k \<Longrightarrow> length (decimal n) \<le> k"
proof (induction k arbitrary: n)
  case (Suc k)
  show ?case
  proof (cases "n < 10")
    case False
    then have "0 < k" using Suc.prems by (cases k) auto
    moreover have "n div 10 < 10 ^ k"
      using Suc.prems by (simp add: div_less_iff_less_mult)
    ultimately show ?thesis
      using Suc.IH [of "n div 10"] False by (subst decimal.simps) simp
  qed (subst decimal.simps, simp)
qed simp

lemma digit_not_delim: "isdigit c \<Longrightarrow> c \<noteq> 47 \<and> c \<noteq> 63 \<and> c \<noteq> 58"
  by (auto simp: isdigit_def word_le_nat_alt)

text \<open>The host and the port of a well-formed authority.\<close>

lemma parse_host_port_eq:
  assumes "host_ok host" and "path_ok path" and "length host < host_len"
    and "\<forall>n. port = Some n \<longrightarrow> n < 2 ^ 31"
  shows "parse_host_port (host @ (case port of None \<Rightarrow> [] | Some n \<Rightarrow> 58 # decimal n) @ path)
      (length host + (case port of None \<Rightarrow> 0 | Some n \<Rightarrow> Suc (length (decimal n)))) host_len out =
    Some (Inr (out\<lparr>u_host := host,
      u_port := (case port of None \<Rightarrow> default_port (u_use_ssl out) | Some n \<Rightarrow> int n)\<rparr>))"
proof (cases port)
  case None
  have "length host \<le> k" if "strchr (host @ path) 58 = Some k" for k
    using strchr_le [OF that] assms(1) by (metis host_ok_def in_set_conv_nth leI nth_append)
  with None assms(3) show ?thesis
    by (auto simp: parse_host_port_def split: option.splits)
next
  case (Some n)
  have c: "strchr (host @ 58 # decimal n @ path) 58 = Some (length host)"
    using assms(1) by (intro strchr_append) (simp add: host_ok_def)
  have "n < 10 ^ 10"
    using assms(4) Some by fastforce
  then have l: "length (decimal n) \<le> 10" "0 < length (decimal n)"
    using length_decimal [of n 10] by simp_all
  have "atoi (decimal n) = Some (int n)"
    using assms(4) Some by (intro atoi_decimal) simp
  with Some c l assms(3) show ?thesis
    by (simp add: parse_host_port_def min_def)
qed

subsection \<open>Properties\<close>

text \<open>
  C32. Round trip of URLs: parsing a URL built from a protocol, a host, an optional port and a
  path or query gives exactly these parts, with the protocol's default port and the path \<open>/\<close>
  where they are missing.
\<close>

theorem parse_url_roundtrip:
  assumes "host_ok host" and "path_ok path" and "length host < host_len" and "length path < path_len"
    and "2 \<le> path_len" and "\<forall>n. port = Some n \<longrightarrow> n < 2 ^ 31"
  shows "parse_url (Some (build_url use_ssl host port path)) host_len path_len out =
    Some (0, \<lparr>u_host = host, u_path = (if path = [] then [47] else path),
      u_port = (case port of None \<Rightarrow> default_port use_ssl | Some n \<Rightarrow> int n), u_use_ssl = use_ssl\<rparr>)"
proof -
  define a where "a = host @ (case port of None \<Rightarrow> [] | Some n \<Rightarrow> 58 # decimal n)"
  have la: "length a = length host + (case port of None \<Rightarrow> 0 | Some n \<Rightarrow> Suc (length (decimal n)))"
    by (simp add: a_def split: option.splits)
  have ap: "a @ path = host @ (case port of None \<Rightarrow> [] | Some n \<Rightarrow> 58 # decimal n) @ path"
    by (simp add: a_def)
  have "47 \<notin> set a" "63 \<notin> set a"
    using assms(1) decimal_digits digit_not_delim
    by (auto simp: a_def host_ok_def split: option.splits)
  then have e: "url_host_end (a @ path) = length a"
    using assms(2) by (intro url_host_end_eq)
  have hp: "parse_host_port (a @ path) (length a) host_len o' =
      Some (Inr (o'\<lparr>u_host := host, u_port := (case port of None \<Rightarrow> default_port (u_use_ssl o') | Some n \<Rightarrow> int n)\<rparr>))" for o'
    unfolding ap la by (rule parse_host_port_eq [OF assms(1-3,6)])
  have pp: "parse_path (a @ path) (length a) path_len o' = (0, o'\<lparr>u_path := (if path = [] then [47] else path)\<rparr>)" for o'
    using assms(2,4,5) by (cases path) (auto simp: parse_path_def path_ok_def)
  have u: "build_url use_ssl host port path = bytes_of (if use_ssl then ''wss://'' else ''ws://'') @ a @ path"
    by (simp add: build_url_def a_def)
  have w: "take 6 (bytes_of ''ws://'' @ a @ path) \<noteq> bytes_of ''wss://''"
    by (simp add: bytes_of_def)
  show ?thesis
    unfolding u parse_url_def using w
    by (cases use_ssl; cases out) (simp_all add: e hp pp Let_def split: option.splits)
qed

theorem parse_url_roundtrip_witness:
  "parse_url (Some (build_url True (bytes_of ''stream'') (Some 9443) (bytes_of ''/ws''))) 256 1024
     \<lparr>u_host = [], u_path = [], u_port = 0, u_use_ssl = False\<rparr> =
     Some (0, \<lparr>u_host = bytes_of ''stream'', u_path = bytes_of ''/ws'', u_port = 9443, u_use_ssl = True\<rparr>)"
  by (subst parse_url_roundtrip) (simp_all add: host_ok_def path_ok_def bytes_of_def)

text \<open>
  No URL overflows the result buffers: whenever parsing succeeds, host and path with their
  terminating NUL fit, the host has no port, path or query in it, and the path starts with \<open>/\<close>
  or \<open>?\<close>.
\<close>

theorem parse_url_bounds:
  assumes "parse_url (Some url) host_len path_len out = Some (0, out')"
  shows "length (u_host out') < host_len \<and> length (u_path out') < path_len \<and> host_ok (u_host out') \<and>
    (hd (u_path out') = 47 \<or> hd (u_path out') = 63)"
proof -
  from assms obtain s o1 where o1: "map_option (\<lambda>r. case r of Inl out' \<Rightarrow> (-1, out')
      | Inr out' \<Rightarrow> parse_path s (url_host_end s) path_len out') (parse_host_port s (url_host_end s) host_len o1) = Some (0, out')"
    by (auto simp: parse_url_def Let_def split: if_splits)
  then obtain r where r: "parse_host_port s (url_host_end s) host_len o1 = Some r"
    "(case r of Inl out' \<Rightarrow> (-1, out') | Inr out' \<Rightarrow> parse_path s (url_host_end s) path_len out') = (0, out')"
    by (auto simp: map_option_eq_Some)
  then obtain o2 where hp: "parse_host_port s (url_host_end s) host_len o1 = Some (Inr o2)"
    and pp: "parse_path s (url_host_end s) path_len o2 = (0, out')"
    by (cases r) auto
  have "\<exists>k. u_host o2 = take k s \<and> k \<le> url_host_end s \<and> k \<le> first_or_end s 58 \<and> k < host_len"
  proof (cases "strchr s 58")
    case None
    moreover have "url_host_end s \<le> first_or_end s 58"
      using None first_or_end(2) [of s 47] by (simp add: url_host_end_min first_or_end_def)
    ultimately show ?thesis
      using hp by (auto simp: parse_host_port_def not_le split: if_splits)
  next
    case (Some c)
    then have f: "first_or_end s 58 = c"
      by (simp add: first_or_end_def)
    show ?thesis
    proof (cases "c < url_host_end s")
      case True
      with Some hp have "u_host o2 = take c s \<and> c < host_len"
        by (auto simp: parse_host_port_def Let_def not_le split: if_splits)
      with True f show ?thesis by auto
    next
      case False
      with Some hp have "u_host o2 = take (url_host_end s) s \<and> url_host_end s < host_len"
        by (auto simp: parse_host_port_def not_le split: if_splits)
      with False f show ?thesis by auto
    qed
  qed
  then obtain k where k: "u_host o2 = take k s" "k \<le> url_host_end s" "k \<le> first_or_end s 58" "k < host_len"
    by blast
  have "s ! j \<noteq> 47 \<and> s ! j \<noteq> 63 \<and> s ! j \<noteq> 58" if "j < k" for j
    using that k first_or_end(1) [of j s] by (auto simp: url_host_end_min)
  then have "host_ok (u_host o2) \<and> length (u_host o2) < host_len"
    using k by (auto simp: host_ok_def in_set_conv_nth)
  moreover have "u_host out' = u_host o2"
    using pp by (auto simp: parse_path_def split: if_splits)
  moreover have "length (u_path out') < path_len \<and> (hd (u_path out') = 47 \<or> hd (u_path out') = 63)"
    using pp by (auto simp: parse_path_def hd_drop_conv_nth split: if_splits)
  ultimately show ?thesis by simp
qed

theorem parse_url_bounds_witness:
  "\<exists>out'. parse_url (Some (build_url False (bytes_of ''h'') None [])) 256 1024
     \<lparr>u_host = [], u_path = [], u_port = 0, u_use_ssl = True\<rparr> = Some (0, out') \<and> length (u_host out') < 256"
proof -
  let ?out = "\<lparr>u_host = bytes_of ''h'', u_path = [47], u_port = 80, u_use_ssl = False\<rparr>"
  have "parse_url (Some (build_url False (bytes_of ''h'') None [])) 256 1024
     \<lparr>u_host = [], u_path = [], u_port = 0, u_use_ssl = True\<rparr> = Some (0, ?out)"
    by (simp add: build_url_def bytes_of_def parse_url_def url_host_end_def strchr_def parse_host_port_def
        parse_path_def default_port_def Let_def)
  with parse_url_bounds [OF this] show ?thesis by blast
qed

end
