(* ===== verification/Ws_Handshake.thy ===== *)
theory Ws_Handshake
  imports Tls C_Strings
begin

text \<open>
  Establishing a connection, as far as it does not touch the \<open>WebSocket\<close> structure: the TCP
  connection, the handshake key, the text of the HTTP upgrade request and the recognition of
  the response, from \<^verbatim>\<open>src/src/websocket.c\<close>. The socket calls, the random source and the
  Base64 encoder of OpenSSL are operations of the system record. \<open>os_urandom n\<close> stands for the
  opening, reading and closing of the random device: \<open>None\<close> when it cannot be opened, and otherwise
  the contents of the buffer of \<open>n\<close> bytes after \<open>fread\<close>, whose result the code ignores (after a
  short read the rest of the buffer is what it was before). \<open>evp_encode\<close> gives the outputs of
  \<open>EVP_EncodeUpdate\<close> and \<open>EVP_EncodeFinal\<close>.
\<close>

type_synonym addrinfo = nat

record 'w net_os = "'w tls_os" +
  os_urandom :: "nat \<Rightarrow> 'w \<Rightarrow> byte list option \<times> 'w"
  os_rand :: "'w \<Rightarrow> nat \<times> 'w"
  evp_ctx_new :: "'w \<Rightarrow> bool \<times> 'w"
  evp_encode :: "byte list \<Rightarrow> byte list \<times> byte list"
  os_getaddrinfo :: "byte list \<Rightarrow> byte list \<Rightarrow> 'w \<Rightarrow> addrinfo list option \<times> 'w"
  os_socket :: "addrinfo \<Rightarrow> 'w \<Rightarrow> int \<times> 'w"
  os_connect :: "int \<Rightarrow> addrinfo \<Rightarrow> 'w \<Rightarrow> int \<times> 'w"
  os_get_timestamp :: "int \<Rightarrow> 'w \<Rightarrow> (int \<times> int) \<times> 'w"

definition WS_MAX_HEADER_SIZE :: nat where "WS_MAX_HEADER_SIZE = 4096"
definition WS_HTTP_UPGRADE_HEADER_SIZE :: nat where "WS_HTTP_UPGRADE_HEADER_SIZE = 512"

subsection \<open>The TCP connection\<close>

definition int_decimal :: "int \<Rightarrow> byte list" where
  "int_decimal i = (if i < 0 then 45 # decimal (nat (- i)) else decimal (nat i))"

text \<open>
  The loop over the addresses. The target defines \<open>SO_TIMESTAMP\<close> and not \<open>SO_TIMESTAMPNS\<close>,
  so the option is set once.
\<close>

fun tcp_connect_loop :: "('w, 'z) net_os_scheme \<Rightarrow> addrinfo list \<Rightarrow> 'w \<Rightarrow> int \<times> 'w" where
  "tcp_connect_loop os [] w = (-1, w)"
| "tcp_connect_loop os (rp # rps) w =
     (let (fd, w1) = os_socket os rp w in
      if fd = -1 then tcp_connect_loop os rps w1
      else
        let (_, w2) = os_set_timestamp os fd w1;
            (r, w3) = os_connect os fd rp w2
        in if r = 0 then (fd, w3) else tcp_connect_loop os rps (os_close os fd w3))"

definition tcp_connect :: "('w, 'z) net_os_scheme \<Rightarrow> byte list \<Rightarrow> int \<Rightarrow> 'w \<Rightarrow> int \<times> 'w" where
  "tcp_connect os host port w =
     (let (result, w1) = os_getaddrinfo os host (int_decimal port) w in
      case result of None \<Rightarrow> (-1, w1) | Some as \<Rightarrow> tcp_connect_loop os as w1)"

subsection \<open>The request\<close>

fun rand_bytes :: "('w, 'z) net_os_scheme \<Rightarrow> nat \<Rightarrow> 'w \<Rightarrow> byte list \<times> 'w" where
  "rand_bytes os 0 w = ([], w)"
| "rand_bytes os (Suc n) w =
     (let (r, w1) = os_rand os w; (bs, w2) = rand_bytes os n w1 in (of_nat (r mod 256) # bs, w2))"

text \<open>
  The key: sixteen random bytes, encoded by \<open>EVP_EncodeUpdate\<close> and \<open>EVP_EncodeFinal\<close> into a
  buffer of 32 bytes, and stored if the encoding is shorter than 25 bytes.
\<close>

definition generate_websocket_key ::
  "('w, 'z) net_os_scheme \<Rightarrow> byte list \<Rightarrow> 'w \<Rightarrow> (byte list \<times> 'w) option" where
  "generate_websocket_key os key_out w =
     (let (u, w1) = os_urandom os 16 w;
          (random_bytes, w2) = (case u of Some bs \<Rightarrow> (bs, w1) | None \<Rightarrow> rand_bytes os 16 w1);
          (ok, w3) = evp_ctx_new os w2
      in if \<not> ok then Some (key_out, w3)
         else
           let (out, final) = evp_encode os random_bytes; encoded = out @ final; total_len = length encoded in
           if 32 < total_len then None
           else if 0 < total_len \<and> total_len < 25 then
             Some (if last encoded = 10 then butlast encoded else encoded, w3)
           else Some (key_out, w3))"

definition crlf :: "byte list" where "crlf = [13, 10]"

definition upgrade_request :: "byte list \<Rightarrow> byte list \<Rightarrow> byte list \<Rightarrow> byte list" where
  "upgrade_request path host key =
     bytes_of ''GET '' @ path @ bytes_of '' HTTP/1.1'' @ crlf @
     bytes_of ''Host: '' @ host @ crlf @
     bytes_of ''Upgrade: websocket'' @ crlf @
     bytes_of ''Connection: Upgrade'' @ crlf @
     bytes_of ''Sec-WebSocket-Key: '' @ key @ crlf @
     bytes_of ''Sec-WebSocket-Version: 13'' @ crlf @ crlf"

text \<open>\<open>snprintf\<close> into the handshake buffer: one byte is left for the NUL.\<close>

definition handshake_text :: "byte list \<Rightarrow> byte list \<Rightarrow> byte list \<Rightarrow> byte list" where
  "handshake_text path host key = take (WS_HTTP_UPGRADE_HEADER_SIZE - 1) (upgrade_request path host key)"

subsection \<open>The response\<close>

definition HTTP_1_1 :: "byte list" where "HTTP_1_1 = bytes_of ''HTTP/1.1''"
definition HTTP_1_0 :: "byte list" where "HTTP_1_0 = bytes_of ''HTTP/1.0''"

text \<open>The search for the start of the response in the first hundred bytes.\<close>

fun find_http :: "byte list \<Rightarrow> nat \<Rightarrow> size_t \<Rightarrow> nat list \<Rightarrow> nat option option" where
  "find_http m base len [] = Some None"
| "find_http m base len (i # is) =
     (if \<not> i < len then Some None
      else if 12 \<le> len - i then do {
        a \<leftarrow> strncmp_eq m (base + i) HTTP_1_1;
        b \<leftarrow> (if a then Some True else strncmp_eq m (base + i) HTTP_1_0);
        if b then Some (Some i) else find_http m base len is
      }
      else find_http m base len is)"

definition status_101 :: "byte list \<Rightarrow> bool" where
  "status_101 response \<longleftrightarrow>
     12 \<le> length response \<and>
     (take 12 response = HTTP_1_1 @ bytes_of '' 101'' \<or> take 12 response = HTTP_1_0 @ bytes_of '' 101'')"

definition contains :: "byte list \<Rightarrow> byte list \<Rightarrow> bool option" where
  "contains s pat = map_option (\<lambda>r. r \<noteq> None) (strstr (s @ [0]) pat)"

text \<open>The two header tests on the lower-case copy.\<close>

definition headers_valid :: "byte list \<Rightarrow> (bool \<times> bool) option" where
  "headers_valid response_lower = do {
     u1 \<leftarrow> contains response_lower (bytes_of ''upgrade: websocket'');
     u2 \<leftarrow> contains response_lower (bytes_of ''upgrade:websocket'');
     c1 \<leftarrow> contains response_lower (bytes_of ''connection: upgrade'');
     c2 \<leftarrow> contains response_lower (bytes_of ''connection:upgrade'');
     Some (u1 \<or> u2, c1 \<or> c2)
   }"

text \<open>
  Consuming the response: the search for the blank line runs over the ring memory itself; the
  bytes before the response are read through a null pointer, the headers into a buffer of 4096
  bytes.
\<close>

definition consume_response :: "RingBuffer \<Rightarrow> nat \<Rightarrow> nat \<Rightarrow> RingBuffer option" where
  "consume_response rb base http_offset = do {
     header_end \<leftarrow> strstr (drop (base + http_offset) (rb_mem rb)) (crlf @ crlf);
     case header_end of
       None \<Rightarrow> Some rb
     | Some k \<Rightarrow>
         let header_len = k + 4 in
         do {
           (consumed, _, rb1) \<leftarrow> ringbuffer_read rb True http_offset;
           if consumed = http_offset then do {
             (_, _, rb2) \<leftarrow> ringbuffer_read rb1 False (if header_len < 4096 then header_len else 4096);
             Some rb2
           }
           else Some rb1
         }
   }"

definition parse_handshake_response ::
  "('w, 'z) net_os_scheme \<Rightarrow> RingBuffer \<Rightarrow> 'w \<Rightarrow> (int \<times> RingBuffer \<times> 'w) option" where
  "parse_handshake_response os rb w =
     (let (base, response_len) = ringbuffer_read_inline rb in
      if response_len = 0 \<or> rb_buf rb = 0 then Some (1, rb, w)
      else if response_len < 12 then Some (1, rb, w)
      else do {
        http_start \<leftarrow> find_http (rb_mem rb) base response_len [0..<100];
        case http_start of
          None \<Rightarrow> Some (if 200 < response_len then -1 else 1, rb, w)
        | Some http_offset \<Rightarrow>
            let remaining = response_len - http_offset;
                copy_len = (if remaining < WS_MAX_HEADER_SIZE - 1 then remaining else WS_MAX_HEADER_SIZE - 1)
            in do {
              response \<leftarrow> mem_read (rb_mem rb) (base + http_offset) copy_len;
              if \<not> status_101 response then Some (-1, rb, w)
              else
                let (ok, w1) = os_malloc os (copy_len + 1) w in
                if \<not> ok then Some (-1, rb, w1)
                else do {
                  (upgrade_valid, connection_valid) \<leftarrow> headers_valid (map tolower response);
                  if upgrade_valid \<and> connection_valid then do {
                    rb' \<leftarrow> consume_response rb base http_offset;
                    Some (0, rb', w1)
                  }
                  else Some (1, rb, w1)
                }
            }
      })"

end
