(* ===== verification/Handshake_Props.thy ===== *)
theory Handshake_Props
  imports Ws_Handshake Tls_Props
begin

text \<open>The properties of the opening handshake.\<close>

subsection \<open>Searching the response\<close>

definition http_at :: "byte list \<Rightarrow> nat \<Rightarrow> bool" where
  "http_at d i \<longleftrightarrow> 12 \<le> length d - i \<and> (take 8 (drop i d) = HTTP_1_1 \<or> take 8 (drop i d) = HTTP_1_0)"

lemma length_HTTP [simp]: "length HTTP_1_1 = 8" "length HTTP_1_0 = 8"
  by (simp_all add: HTTP_1_1_def HTTP_1_0_def)

lemma find_http_eq:
  assumes "base + len \<le> length m" and "d = take len (drop base m)"
  shows "find_http m base len [j..<k] = Some (find (http_at d) [j..<k])"
proof (induction "k - j" arbitrary: j)
  case 0
  then show ?case by simp
next
  case (Suc n)
  then have jk: "[j..<k] = j # [Suc j..<k]"
    by (simp add: upt_conv_Cons)
  have ld: "length d = len"
    using assms by simp
  show ?case
  proof (cases "j < len \<and> 12 \<le> len - j")
    case True
    have "take 8 (drop j d) = take 8 (drop (base + j) m)"
      using True assms(2) by (simp add: drop_take add.commute min_def)
    moreover have "strncmp_eq m (base + j) HTTP_1_1 = Some (take 8 (drop (base + j) m) = HTTP_1_1)"
      "strncmp_eq m (base + j) HTTP_1_0 = Some (take 8 (drop (base + j) m) = HTTP_1_0)"
      using True assms(1) strncmp_eq_in [of "base + j" HTTP_1_1 m] strncmp_eq_in [of "base + j" HTTP_1_0 m]
      by auto
    ultimately show ?thesis
      using True Suc ld by (simp add: jk http_at_def)
  next
    case False
    have n: "find (http_at d) [Suc j..<k] = None" if "\<not> j < len"
      using that ld by (auto simp: find_None_iff http_at_def)
    from False Suc n ld show ?thesis
      by (cases "j < len") (simp_all add: jk http_at_def)
  qed
qed

lemma takeWhile_snoc_0: "takeWhile (\<lambda>c. c \<noteq> 0) (s @ [0]) = takeWhile (\<lambda>c. c \<noteq> (0 :: byte)) s"
  by (induction s) auto

lemma takeWhile_nonzero_append:
  "(0 :: byte) \<notin> set xs \<Longrightarrow> takeWhile (\<lambda>c. c \<noteq> 0) (xs @ ys) = xs @ takeWhile (\<lambda>c. c \<noteq> 0) ys"
  by (rule takeWhile_append2) auto

lemma contains_eq:
  assumes "pat \<noteq> []"
  shows "contains s pat = Some (\<exists>q. occ pat (takeWhile (\<lambda>c. c \<noteq> 0) s) q)"
proof -
  let ?t = "takeWhile (\<lambda>c. c \<noteq> 0) s"
  have "strstr (s @ [0]) pat = Some (find (occ pat ?t) [0..<Suc (length ?t)])"
    using assms by (simp add: strstr_def takeWhile_snoc_0 occ_alt Let_def cong: find_cong)
  moreover have "q < Suc (length ?t)" if "occ pat ?t q" for q
    using that by (simp add: occ_def)
  then have "find (occ pat ?t) [0..<Suc (length ?t)] \<noteq> None \<longleftrightarrow> (\<exists>q. occ pat ?t q)"
    unfolding find_upt_None by blast
  ultimately show ?thesis
    by (simp add: contains_def)
qed

text \<open>The two headers the client looks for, in either spelling.\<close>

definition names_upgrade :: "byte list \<Rightarrow> bool" where
  "names_upgrade t \<longleftrightarrow> (\<exists>q. occ (bytes_of ''upgrade: websocket'') t q) \<or> (\<exists>q. occ (bytes_of ''upgrade:websocket'') t q)"

definition names_connection :: "byte list \<Rightarrow> bool" where
  "names_connection t \<longleftrightarrow> (\<exists>q. occ (bytes_of ''connection: upgrade'') t q) \<or> (\<exists>q. occ (bytes_of ''connection:upgrade'') t q)"

lemma headers_valid_eq:
  "headers_valid s = Some (names_upgrade (takeWhile (\<lambda>c. c \<noteq> 0) s), names_connection (takeWhile (\<lambda>c. c \<noteq> 0) s))"
  by (simp add: headers_valid_def contains_eq bytes_of_def names_upgrade_def names_connection_def)

lemma occ_append: "occ pat s q \<Longrightarrow> occ pat (s @ t) q"
  by (simp add: occ_def)

lemma occ_append_iff: "q + length pat \<le> length s \<Longrightarrow> occ pat (s @ t) q \<longleftrightarrow> occ pat s q"
  by (auto simp: occ_def)

text \<open>The parse of a ring whose contents do not wrap, as a function of the contents.\<close>

lemma parse_handshake_eq:
  assumes "rb_inv rb" and "rb_read_ptr rb \<le> rb_write_ptr rb" and "12 \<le> length (rb_list rb)" and "rb_buf rb \<noteq> 0"
  shows "parse_handshake_response os rb w =
    (case find (http_at (rb_list rb)) [0..<100] of
       None \<Rightarrow> Some (if 200 < length (rb_list rb) then -1 else 1, rb, w)
     | Some i \<Rightarrow>
         let response = take 4095 (drop i (rb_list rb));
             (ok, w1) = os_malloc os (length response + 1) w;
             t = takeWhile (\<lambda>c. c \<noteq> 0) (map tolower response)
         in if \<not> status_101 response then Some (-1, rb, w)
            else if \<not> ok then Some (-1, rb, w1)
            else if names_upgrade t \<and> names_connection t
            then map_option (\<lambda>rb'. (0, rb', w1)) (consume_response rb (rb_read_ptr rb) i)
            else Some (1, rb, w1))"
proof -
  let ?d = "rb_list rb"
  let ?rp = "rb_read_ptr rb"
  have d: "?d = take (length ?d) (drop ?rp (rb_mem rb))" and b: "?rp + length ?d \<le> length (rb_mem rb)"
    using assms(1,2) by (auto simp: rb_list_def ring_list_def rb_inv_def)
  have f: "find_http (rb_mem rb) ?rp (length ?d) [0..<100] = Some (find (http_at ?d) [0..<100])"
    using find_http_eq [OF b d] .
  show ?thesis
  proof (cases "find (http_at ?d) [0..<100]")
    case None
    with f assms(3,4) show ?thesis
      by (simp add: parse_handshake_response_def read_inline_eq [OF assms(1)])
  next
    case (Some i)
    then have i: "12 \<le> length ?d - i"
      by (simp add: find_upt_Some http_at_def)
    let ?n = "if length ?d - i < 4095 then length ?d - i else 4095"
    have "take ?n (drop (?rp + i) (rb_mem rb)) = take ?n (drop i ?d)"
      by (subst d) (simp add: drop_take add.commute min_def)
    moreover have "take ?n (drop i ?d) = take 4095 (drop i ?d)"
      by simp
    moreover have "?rp + i + ?n \<le> length (rb_mem rb)"
      using b i by auto
    ultimately have r: "mem_read (rb_mem rb) (?rp + i) ?n = Some (take 4095 (drop i ?d))"
      by (simp only: mem_read_in)
    have n: "length (take 4095 (drop i ?d)) = ?n"
      by simp
    obtain ok w1 where mal: "os_malloc os (?n + 1) w = (ok, w1)" by force
    have ne: "?d \<noteq> []" using assms(3) by auto
    have four: "4096 - 1 = (4095 :: nat)" by simp
    have lhs: "parse_handshake_response os rb w =
        (if \<not> status_101 (take 4095 (drop i ?d)) then Some (-1, rb, w)
         else let (ok, w1) = os_malloc os (?n + 1) w in
           if \<not> ok then Some (-1, rb, w1)
           else do {
             (upgrade_valid, connection_valid) \<leftarrow> headers_valid (map tolower (take 4095 (drop i ?d)));
             if upgrade_valid \<and> connection_valid then do {
               rb' \<leftarrow> consume_response rb ?rp i;
               Some (0, rb', w1)
             }
             else Some (1, rb, w1)
           })"
      using assms(3,4) ne unfolding parse_handshake_response_def read_inline_eq [OF assms(1)] WS_MAX_HEADER_SIZE_def
        Let_def prod.case f Some option.case Option.bind.simps four r by simp
    show ?thesis
      unfolding lhs Some option.case Let_def n mal prod.case headers_valid_eq Option.bind.simps
      by (cases "consume_response rb ?rp i") simp_all
  qed
qed

subsection \<open>Accepting a response\<close>

text \<open>The blank line that ends a response, at its first occurrence.\<close>

definition ends_at_blank :: "byte list \<Rightarrow> bool" where
  "ends_at_blank resp \<longleftrightarrow> occ (crlf @ crlf) resp (length resp - 4) \<and> (\<forall>q < length resp - 4. \<not> occ (crlf @ crlf) resp q)"

lemma ring_tail:
  assumes "rb_inv rb" and "rb_read_ptr rb \<le> rb_write_ptr rb"
  shows "drop (rb_read_ptr rb) (rb_mem rb) = rb_list rb @ drop (rb_write_ptr rb) (rb_mem rb)"
proof -
  have "drop (rb_read_ptr rb) (rb_mem rb) =
      take (rb_write_ptr rb - rb_read_ptr rb) (drop (rb_read_ptr rb) (rb_mem rb)) @
      drop (rb_write_ptr rb - rb_read_ptr rb) (drop (rb_read_ptr rb) (rb_mem rb))"
    by (rule append_take_drop_id [symmetric])
  with assms show ?thesis
    by (simp add: rb_list_def ring_list_def)
qed

lemma consume_response_exact:
  assumes "rb_inv rb" and "rb_read_ptr rb \<le> rb_write_ptr rb" and "rb_list rb = resp @ rest"
    and "0 \<notin> set resp" and "ends_at_blank resp" and "length resp \<le> 4096"
    and "0 \<in> set (drop (rb_read_ptr rb) (rb_mem rb))"
  shows "\<exists>rb'. consume_response rb (rb_read_ptr rb) 0 = Some rb' \<and> rb_inv rb' \<and> rb_list rb' = rest \<and>
    rb' = rb\<lparr>rb_read_ptr := rb_read_ptr rb'\<rparr>"
proof -
  let ?m = "drop (rb_read_ptr rb) (rb_mem rb)"
  have "?m = resp @ rest @ drop (rb_write_ptr rb) (rb_mem rb)"
    using ring_tail [OF assms(1,2)] assms(3) by simp
  then obtain u where u: "takeWhile (\<lambda>c. c \<noteq> 0) ?m = resp @ u"
    using takeWhile_nonzero_append [OF assms(4)] by simp
  have l4: "length (crlf @ crlf) = 4" "crlf @ crlf \<noteq> []" "4 \<le> length resp"
    using assms(5) by (auto simp: ends_at_blank_def occ_def crlf_def)
  have "occ (crlf @ crlf) (resp @ u) (length resp - 4)"
    using assms(5) by (simp add: ends_at_blank_def occ_append)
  moreover have "\<not> occ (crlf @ crlf) (resp @ u) q" if "q < length resp - 4" for q
    using that assms(5) occ_append_iff [of q "crlf @ crlf" resp u] l4 by (simp add: ends_at_blank_def)
  ultimately have "find (occ (crlf @ crlf) (resp @ u)) [0..<Suc (length (resp @ u))] = Some (length resp - 4)"
    unfolding find_upt_Some by auto
  then have ss: "strstr ?m (crlf @ crlf) = Some (Some (length resp - 4))"
    using assms(7) l4(2) u by (simp add: strstr_def occ_alt Let_def cong: find_cong)
  have len: "(if length resp - 4 + 4 < 4096 then length resp - 4 + 4 else 4096) = length resp"
    using l4(3) assms(6) by auto
  obtain rb' where "ringbuffer_read rb False (length resp) =
      Some (min (length resp) (length (rb_list rb)), take (length resp) (rb_list rb), rb')"
    "rb_inv rb'" "rb_list rb' = drop (length resp) (rb_list rb)" "rb' = rb\<lparr>rb_read_ptr := rb_read_ptr rb'\<rparr>"
    by (rule ringbuffer_read_law [OF assms(1), of "length resp"])
  with assms(3) show ?thesis
    unfolding consume_response_def add_0_right ss Option.bind.simps option.case Let_def len by simp
qed

subsection \<open>An example\<close>

definition demo_net_os :: "demo_world net_os" where
  "demo_net_os = tls_os.extend (demo_tls_os noErr) (net_os.fields (\<lambda>n w. (Some (replicate n 7), w)) (\<lambda>w. (0, w))
     (\<lambda>w. (True, w)) (\<lambda>bs. ([], replicate 24 65 @ [10])) (\<lambda>h p w. (Some [1], w)) (\<lambda>a w. (5, w)) (\<lambda>fd a w. (0, w))
     (\<lambda>fd w. ((0, 1), w)))"

definition demo_response :: "byte list" where
  "demo_response = bytes_of ''HTTP/1.1 101 OK'' @ crlf @ bytes_of ''Upgrade: websocket'' @ crlf @
     bytes_of ''Connection: Upgrade'' @ crlf @ crlf"

definition demo_reply_ring :: "byte list \<Rightarrow> RingBuffer" where
  "demo_reply_ring pre = \<lparr>rb_buf = 256, rb_mem = pre @ demo_response @ [129, 0, 0, 0], rb_size = length pre + 64,
     rb_read_ptr = 0, rb_write_ptr = length pre + 62, rb_locked = False\<rparr>"

lemma demo_response_ok:
  "status_101 demo_response" "ends_at_blank demo_response" "0 \<notin> set demo_response" "length demo_response = 60"
  "occ (bytes_of ''upgrade: websocket'') (map tolower demo_response) 17"
  "occ (bytes_of ''connection: upgrade'') (map tolower demo_response) 37"
  by code_simp+

lemma demo_reply_ring_ok:
  assumes "length pre < 2 ^ 61"
  shows "rb_inv (demo_reply_ring pre)" "rb_read_ptr (demo_reply_ring pre) \<le> rb_write_ptr (demo_reply_ring pre)"
    "rb_list (demo_reply_ring pre) = pre @ demo_response @ [129, 0]"
  using assms by (simp_all add: demo_reply_ring_def rb_inv_def rb_list_def ring_list_def demo_response_ok)

lemma demo_offset_accepted:
  "\<exists>w'. parse_handshake_response demo_net_os (demo_reply_ring [32]) (demo_start [] []) = Some (0, demo_reply_ring [32], w')"
proof -
  let ?d = "32 # demo_response @ [129, 0]"
  have l: "rb_list (demo_reply_ring [32]) = ?d" "length ?d = 63"
    by (simp_all add: demo_reply_ring_ok demo_response_ok)
  have "http_at ?d 1" "\<not> http_at ?d 0"
    by code_simp+
  then have f: "find (http_at ?d) [0..<100] = Some 1"
    by (simp add: find_upt_Some)
  have t: "takeWhile (\<lambda>c. c \<noteq> 0) (map tolower (demo_response @ [129, 0])) = map tolower demo_response @ [129]"
    and st: "status_101 (demo_response @ [129, 0])"
    by code_simp+
  have n: "names_upgrade (map tolower demo_response @ [129])" "names_connection (map tolower demo_response @ [129])"
    unfolding names_upgrade_def names_connection_def using demo_response_ok(5,6) occ_append by blast+
  have "0 \<in> set (drop (0 + 1) (rb_mem (demo_reply_ring [32])))"
    by (simp add: demo_reply_ring_def)
  then obtain e where "strstr (drop (0 + 1) (rb_mem (demo_reply_ring [32]))) (crlf @ crlf) = Some e"
    unfolding strstr_def Let_def by simp
  then have c: "consume_response (demo_reply_ring [32]) 0 1 = Some (demo_reply_ring [32])"
    unfolding consume_response_def by (simp add: ringbuffer_read_def Let_def split: option.split)
  have r: "rb_read_ptr (demo_reply_ring [32]) = 0" "rb_buf (demo_reply_ring [32]) \<noteq> 0" "os_malloc demo_net_os 63 (demo_start [] []) = (True, demo_start [] [])"
    by (simp_all add: demo_reply_ring_def demo_net_os_def demo_tls tls_os.defs net_os.defs)
  show ?thesis
    using l(2) t st n c r
    by (simp add: parse_handshake_eq [OF demo_reply_ring_ok(1,2)] l(1) f Let_def)
qed

lemma response_accepted:
  assumes "rb_inv rb" and "rb_read_ptr rb \<le> rb_write_ptr rb" and "rb_list rb = resp @ rest"
    and "0 \<notin> set resp" and "length resp \<le> 4095" and "status_101 resp"
    and "names_upgrade (map tolower resp)" and "names_connection (map tolower resp)" and "ends_at_blank resp"
    and "0 \<in> set (drop (rb_read_ptr rb) (rb_mem rb))"
    and "\<forall>n. fst (os_malloc os n w)" and "rb_buf rb \<noteq> 0"
  obtains rb' n where "parse_handshake_response os rb w = Some (0, rb', snd (os_malloc os n w))" and "rb_inv rb'"
    and "rb_list rb' = rest" and "rb' = rb\<lparr>rb_read_ptr := rb_read_ptr rb'\<rparr>"
proof -
  have l: "12 \<le> length resp"
    using assms(6) by (simp add: status_101_def)
  have "take 8 (take 12 resp) = HTTP_1_1 \<or> take 8 (take 12 resp) = HTTP_1_0"
    using assms(6) unfolding status_101_def by (elim conjE disjE) simp_all
  then have "http_at (rb_list rb) 0"
    using l by (simp add: http_at_def assms(3))
  then have f: "find (http_at (rb_list rb)) [0..<100] = Some 0"
    by (simp add: find_upt_Some)
  let ?r = "take 4095 (drop 0 (rb_list rb))"
  obtain v where v: "?r = resp @ v"
    using assms(3,5) by (simp add: take_append)
  have st: "status_101 ?r"
    using assms(6) l unfolding v status_101_def by simp
  have "tolower c = 0 \<longleftrightarrow> c = 0" for c
    by (auto simp: tolower_def word_le_nat_alt split: if_splits) (simp add: unat_arith_simps)
  then have "0 \<notin> set (map tolower resp)"
    using assms(4) by auto
  then obtain t where t: "takeWhile (\<lambda>c. c \<noteq> 0) (map tolower ?r) = map tolower resp @ t"
    unfolding v map_append using takeWhile_nonzero_append by simp
  have "names_upgrade (map tolower resp @ t)" "names_connection (map tolower resp @ t)"
    using assms(7,8) occ_append unfolding names_upgrade_def names_connection_def by blast+
  moreover obtain w1 where "os_malloc os (length ?r + 1) w = (True, w1)"
    using assms(11) by (metis (full_types) prod.collapse)
  moreover obtain rb' where "consume_response rb (rb_read_ptr rb) 0 = Some rb'" "rb_inv rb'" "rb_list rb' = rest"
      "rb' = rb\<lparr>rb_read_ptr := rb_read_ptr rb'\<rparr>"
    using consume_response_exact [OF assms(1-4,9) _ assms(10)] assms(5) by auto
  moreover have "12 \<le> length (rb_list rb)"
    using l assms(3) by simp
  ultimately show ?thesis
    using st that [of rb' "length ?r + 1"] unfolding parse_handshake_eq [OF assms(1,2) \<open>12 \<le> length (rb_list rb)\<close> assms(12)] f option.case Let_def t by simp
qed



text \<open>
  C14. A response is accepted only with the right status and headers: if the parser returns \<open>0\<close>,
  a status line \<open>HTTP/1.1 101\<close> or \<open>HTTP/1.0 101\<close> starts in the first hundred bytes, and the 4095
  bytes from there name both upgrade headers.
\<close>

theorem handshake_accept_sound:
  assumes "rb_inv rb" and "rb_read_ptr rb \<le> rb_write_ptr rb"
    and "parse_handshake_response os rb w = Some (0, rb', w')"
  shows "\<exists>i < 100. status_101 (take 4095 (drop i (rb_list rb))) \<and>
    names_upgrade (takeWhile (\<lambda>c. c \<noteq> 0) (map tolower (take 4095 (drop i (rb_list rb))))) \<and>
    names_connection (takeWhile (\<lambda>c. c \<noteq> 0) (map tolower (take 4095 (drop i (rb_list rb)))))"
proof (cases "12 \<le> length (rb_list rb) \<and> rb_buf rb \<noteq> 0")
  case False
  with assms(3) show ?thesis
    by (auto simp: parse_handshake_response_def read_inline_eq [OF assms(1)] Let_def not_le split: if_splits)
next
  case True
  show ?thesis
    using assms(3) unfolding parse_handshake_eq [OF assms(1,2) conjunct1 [OF True] conjunct2 [OF True]] Let_def
    by (auto simp: find_upt_Some split: option.splits prod.splits if_splits)
qed

theorem handshake_accept_sound_witness:
  "\<exists>rb' w'. parse_handshake_response demo_net_os (demo_reply_ring [32]) (demo_start [] []) = Some (0, rb', w') \<and>
     (\<exists>i < 100. status_101 (take 4095 (drop i (rb_list (demo_reply_ring [32])))))"
proof -
  from demo_offset_accepted obtain w' where
    "parse_handshake_response demo_net_os (demo_reply_ring [32]) (demo_start [] []) = Some (0, demo_reply_ring [32], w')"
    by (elim exE)
  with handshake_accept_sound [OF demo_reply_ring_ok(1,2) this] show ?thesis
    by auto
qed

text \<open>
  A response preceded by other bytes is accepted but not consumed: whenever the contents do
  not start with the protocol name, the ring is left unchanged, whatever the parser returns.
\<close>

theorem handshake_offset_not_consumed:
  assumes "rb_inv rb" and "rb_read_ptr rb \<le> rb_write_ptr rb" and "\<not> http_at (rb_list rb) 0"
    and "parse_handshake_response os rb w = Some (r, rb', w')"
  shows "rb' = rb"
proof (cases "12 \<le> length (rb_list rb) \<and> rb_buf rb \<noteq> 0")
  case False
  with assms(4) show ?thesis
    by (auto simp: parse_handshake_response_def read_inline_eq [OF assms(1)] Let_def not_le split: if_splits)
next
  case True
  have "rb'' = rb" if "consume_response rb b i = Some rb''" "i \<noteq> 0" for b i rb''
    using that by (auto simp: consume_response_def Let_def split: option.splits bind_splits if_splits)
  moreover have "i \<noteq> 0" if "find (http_at (rb_list rb)) [0..<100] = Some i" for i
    using that assms(3) by (cases "i = 0") (simp_all add: find_upt_Some)
  ultimately show ?thesis
    using assms(4) unfolding parse_handshake_eq [OF assms(1,2) conjunct1 [OF True] conjunct2 [OF True]] Let_def
    by (auto split: option.splits prod.splits if_splits)
qed

theorem handshake_offset_not_consumed_witness:
  "\<exists>w'. parse_handshake_response demo_net_os (demo_reply_ring [32]) (demo_start [] []) = Some (0, demo_reply_ring [32], w') \<and>
     \<not> http_at (rb_list (demo_reply_ring [32])) 0"
proof -
  from demo_offset_accepted obtain rb' w' where
    p: "parse_handshake_response demo_net_os (demo_reply_ring [32]) (demo_start [] []) = Some (0, rb', w')"
    by (elim exE)
  have h: "\<not> http_at (rb_list (demo_reply_ring [32])) 0"
    by code_simp
  have "rb' = demo_reply_ring [32]"
    by (rule handshake_offset_not_consumed [OF demo_reply_ring_ok(1,2) h p]) simp_all
  with p h show ?thesis by blast
qed

text \<open>
  The laws of the random source and of the encoder: the buffer has sixteen bytes, and for sixteen
  bytes \<open>EVP_EncodeUpdate\<close>, which only emits whole lines of 48 bytes, emits nothing, while
  \<open>EVP_EncodeFinal\<close> emits their 24 characters and a newline.
\<close>

definition urandom_law :: "('w, 'z) net_os_scheme \<Rightarrow> bool" where
  "urandom_law os \<longleftrightarrow> (\<forall>w bs. fst (os_urandom os 16 w) = Some bs \<longrightarrow> length bs = 16)"

definition evp_law :: "('w, 'z) net_os_scheme \<Rightarrow> bool" where
  "evp_law os \<longleftrightarrow> (\<forall>bs. length bs = 16 \<longrightarrow> (\<exists>b64. length b64 = 24 \<and> evp_encode os bs = ([], b64 @ [10])))"

lemma rand_bytes_length: "length (fst (rand_bytes os n w)) = n"
  by (induction n arbitrary: w) (simp_all add: split_beta Let_def)

text \<open>The encoding is 25 bytes long, which the length test rejects: the key keeps its old contents.\<close>

lemma key_not_stored:
  assumes "urandom_law os" and "evp_law os"
  obtains w' where "generate_websocket_key os key w = Some (key, w')"
proof -
  obtain u w1 where u: "os_urandom os 16 w = (u, w1)" by force
  obtain bs w2 where b: "(case u of Some bs \<Rightarrow> (bs, w1) | None \<Rightarrow> rand_bytes os 16 w1) = (bs, w2)" by force
  have "length bs = 16"
    using assms(1) u b rand_bytes_length [of os 16 w1] by (cases u) (auto simp: urandom_law_def dest: spec [of _ w])
  then obtain b64 where "length b64 = 24" "evp_encode os bs = ([], b64 @ [10])"
    using assms(2) unfolding evp_law_def by blast
  moreover obtain ok w3 where "evp_ctx_new os w2 = (ok, w3)" by force
  ultimately show ?thesis
    using u b by (intro that [of w3]) (simp add: generate_websocket_key_def Let_def)
qed

text \<open>
  The request is sent whole if and only if it is shorter than the 512 bytes of the handshake
  buffer; a longer one is cut, and loses the blank line that ends it.
\<close>

theorem handshake_request_truncated:
  "handshake_text path host key = upgrade_request path host key \<longleftrightarrow>
     length path + length host + length key + 114 < 512"
proof -
  have l: "length (upgrade_request path host key) = length path + length host + length key + 114"
    by (simp add: upgrade_request_def crlf_def)
  have "take 511 xs = xs \<longleftrightarrow> length xs < 512" for xs :: "byte list"
    by (cases "length xs < 512") (auto dest: arg_cong [of _ _ length])
  then show ?thesis
    by (auto simp add: handshake_text_def WS_HTTP_UPGRADE_HEADER_SIZE_def l)
qed

end
