(* ===== verification/Double.thy ===== *)
theory Double
  imports Complex_Main
begin

text \<open>
  The \<open>double\<close> arithmetic of the C code: IEEE 754 binary64 with rounding to nearest, ties to
  even. A number is a rational, and every operation rounds the exact result to a multiple of
  the unit in the last place of its binade, with gradual underflow and overflow to infinity. The
  sign of zero is not represented: the code divides only by converted unsigned integers, so it
  never shows.
\<close>

subsection \<open>Numbers and rounding\<close>

datatype fp = Fin rat | Inf bool | NaN

fun ilog2 :: "nat \<Rightarrow> nat" where
  "ilog2 n = (if n < 2 then 0 else Suc (ilog2 (n div 2)))"

declare ilog2.simps [simp del]

text \<open>The exponent of a positive rational: the binade it lies in.\<close>

definition exponent_of :: "rat \<Rightarrow> int" where
  "exponent_of q =
     (let (a, b) = quotient_of q; e = int (ilog2 (nat a)) - int (ilog2 (nat b))
      in if 2 powi e \<le> q then e else e - 1)"

definition ulp_exponent :: "rat \<Rightarrow> int" where
  "ulp_exponent q = max (exponent_of q - 52) (- 1074)"

definition round_even :: "rat \<Rightarrow> int" where
  "round_even x =
     (let f = \<lfloor>x\<rfloor>; d = x - of_int f
      in if d < 1 / 2 then f else if 1 / 2 < d then f + 1 else if even f then f else f + 1)"

definition round_double :: "rat \<Rightarrow> fp" where
  "round_double q =
     (if q = 0 then Fin 0
      else
        let u = 2 powi ulp_exponent \<bar>q\<bar>; r = of_int (round_even (q / u)) * u
        in if 2 ^ 1024 \<le> \<bar>r\<bar> then Inf (q < 0) else Fin r)"

subsection \<open>Operations\<close>

definition fp_of_nat :: "nat \<Rightarrow> fp" where
  "fp_of_nat n = round_double (of_nat n)"

fun fp_neg :: "fp \<Rightarrow> bool" where
  "fp_neg (Fin q) = (q < 0)"
| "fp_neg (Inf s) = s"
| "fp_neg NaN = False"

fun fp_add :: "fp \<Rightarrow> fp \<Rightarrow> fp" where
  "fp_add (Fin a) (Fin b) = round_double (a + b)"
| "fp_add (Fin a) (Inf t) = Inf t"
| "fp_add (Inf s) (Fin b) = Inf s"
| "fp_add (Inf s) (Inf t) = (if s = t then Inf s else NaN)"
| "fp_add NaN y = NaN"
| "fp_add x NaN = NaN"

fun fp_mul :: "fp \<Rightarrow> fp \<Rightarrow> fp" where
  "fp_mul (Fin a) (Fin b) = round_double (a * b)"
| "fp_mul (Fin a) (Inf t) = (if a = 0 then NaN else Inf ((a < 0) \<noteq> t))"
| "fp_mul (Inf s) (Fin b) = (if b = 0 then NaN else Inf (s \<noteq> (b < 0)))"
| "fp_mul (Inf s) (Inf t) = Inf (s \<noteq> t)"
| "fp_mul NaN y = NaN"
| "fp_mul x NaN = NaN"

fun fp_div :: "fp \<Rightarrow> fp \<Rightarrow> fp" where
  "fp_div (Fin a) (Fin b) =
     (if b = 0 then (if a = 0 then NaN else Inf (a < 0)) else round_double (a / b))"
| "fp_div (Fin a) (Inf t) = Fin 0"
| "fp_div (Inf s) (Fin b) = Inf (s \<noteq> (b < 0))"
| "fp_div (Inf s) (Inf t) = NaN"
| "fp_div NaN y = NaN"
| "fp_div x NaN = NaN"

fun fp_less :: "fp \<Rightarrow> fp \<Rightarrow> bool" where
  "fp_less (Fin a) (Fin b) = (a < b)"
| "fp_less (Fin a) (Inf t) = (\<not> t)"
| "fp_less (Inf s) (Fin b) = s"
| "fp_less (Inf s) (Inf t) = (s \<and> \<not> t)"
| "fp_less NaN y = False"
| "fp_less x NaN = False"

text \<open>Conversion to an unsigned integer below \<open>bound\<close>: truncation, undefined out of range.\<close>

fun fp_to_unsigned :: "nat \<Rightarrow> fp \<Rightarrow> nat option" where
  "fp_to_unsigned bound (Fin q) = (if -1 < q \<and> q < of_nat bound then Some (nat \<lfloor>q\<rfloor>) else None)"
| "fp_to_unsigned bound (Inf s) = None"
| "fp_to_unsigned bound NaN = None"

subsection \<open>Powers of two\<close>

abbreviation p2 :: "int \<Rightarrow> rat" where
  "p2 e \<equiv> 2 powi e"

lemma p2_pos [simp]: "0 < p2 e"
  by simp

lemma p2_less_iff [simp]: "p2 a < p2 b \<longleftrightarrow> a < b"
  by (metis less_asym not_less_iff_gr_or_eq one_less_numeral_iff power_int_strict_increasing semiring_norm(76))

lemma p2_le_iff [simp]: "p2 a \<le> p2 b \<longleftrightarrow> a \<le> b"
  by (simp flip: not_less)

lemma p2_add: "p2 (a + b) = p2 a * p2 b"
  by (simp add: power_int_add)

lemma p2_diff: "p2 (a - b) = p2 a / p2 b"
  by (simp add: power_int_diff)

lemma p2_quotient: "b \<le> a \<Longrightarrow> p2 a / p2 b = of_int (2 ^ nat (a - b))"
  unfolding p2_diff [symmetric] by (simp add: power_int_def)

subsection \<open>The exponent\<close>

lemma ilog2_bounds:
  assumes "0 < n"
  shows "2 ^ ilog2 n \<le> n" and "n < 2 ^ Suc (ilog2 n)"
proof -
  have "2 ^ ilog2 n \<le> n \<and> n < 2 ^ Suc (ilog2 n)"
    using assms
  proof (induction n rule: ilog2.induct)
    case (1 n)
    show ?case
    proof (cases "n < 2")
      case True
      with 1 show ?thesis by (simp add: ilog2.simps [of n])
    next
      case False
      with 1 have "2 ^ ilog2 (n div 2) \<le> n div 2 \<and> n div 2 < 2 ^ Suc (ilog2 (n div 2))"
        by simp
      then show ?thesis
        using False by (simp add: ilog2.simps [of n]) linarith
    qed
  qed
  then show "2 ^ ilog2 n \<le> n" and "n < 2 ^ Suc (ilog2 n)" by simp_all
qed

lemma ilog2_rat:
  assumes "0 < a"
  shows "2 ^ ilog2 (nat a) \<le> (of_int a :: rat)" and "(of_int a :: rat) < 2 ^ Suc (ilog2 (nat a))"
proof -
  have a: "(of_int a :: rat) = of_nat (nat a)"
    using assms by simp
  have "of_nat (2 ^ ilog2 (nat a)) \<le> (of_nat (nat a) :: rat)"
    and "(of_nat (nat a) :: rat) < of_nat (2 ^ Suc (ilog2 (nat a)))"
    using ilog2_bounds [of "nat a"] assms by (simp_all only: of_nat_le_iff of_nat_less_iff zero_less_nat_eq)
  then show "2 ^ ilog2 (nat a) \<le> (of_int a :: rat)" and "(of_int a :: rat) < 2 ^ Suc (ilog2 (nat a))"
    unfolding a by simp_all
qed

lemma exponent_bounds:
  assumes "0 < q"
  shows "2 powi exponent_of q \<le> q" and "q < 2 powi (exponent_of q + 1)"
proof -
  obtain a b where ab: "quotient_of q = (a, b)" by force
  then have b: "0 < b" and q: "q = of_int a / of_int b"
    by (rule quotient_of_denom_pos, rule quotient_of_div)
  with assms have a: "0 < a"
    by (simp add: zero_less_divide_iff)
  let ?m = "ilog2 (nat a)" and ?n = "ilog2 (nat b)"
  note r = ilog2_rat [OF a] ilog2_rat [OF b]
  have u: "q < 2 powi (int ?m - int ?n + 1)"
  proof -
    have "q < 2 ^ Suc ?m / 2 ^ ?n"
      unfolding q using r a b by (intro frac_less) simp_all
    also have "\<dots> = 2 powi (int (Suc ?m) - int ?n)"
      by (simp only: p2_diff power_int_of_nat)
    finally show ?thesis by (simp add: algebra_simps)
  qed
  have l: "2 powi (int ?m - int ?n - 1) < q"
  proof -
    have "2 powi (int ?m - int ?n - 1) = 2 powi (int ?m - int (Suc ?n))"
      by (simp add: algebra_simps)
    also have "\<dots> = (2 ^ ?m / 2 ^ Suc ?n :: rat)"
      by (simp only: p2_diff power_int_of_nat)
    also have "\<dots> < q"
      unfolding q using r a b by (intro frac_less2) simp_all
    finally show ?thesis .
  qed
  show "2 powi exponent_of q \<le> q" and "q < 2 powi (exponent_of q + 1)"
    using u l by (auto simp: exponent_of_def ab Let_def not_le)
qed

lemma exponent_unique:
  assumes "2 powi e \<le> q" and "q < 2 powi (e + 1)"
  shows "exponent_of q = e"
proof -
  have "0 < q"
    using assms(1) zero_less_power_int [of "2 :: rat" e] by linarith
  from exponent_bounds [OF this] assms have "2 powi exponent_of q < (2 :: rat) powi (e + 1)"
    "2 powi e < (2 :: rat) powi (exponent_of q + 1)"
    by linarith+
  then have "exponent_of q < e + 1" "e < exponent_of q + 1"
    by (simp_all only: p2_less_iff)
  then show ?thesis by simp
qed

lemma exponent_less: "0 < q \<Longrightarrow> q < 2 powi e \<Longrightarrow> exponent_of q < e"
  using exponent_bounds(1) [of q] p2_less_iff [of "exponent_of q" e] by linarith

lemma exponent_ge: "p2 e \<le> q \<Longrightarrow> e \<le> exponent_of q"
  using exponent_bounds(2) [of q] p2_less_iff [of e "exponent_of q + 1"] p2_pos [of e] by linarith

subsection \<open>Rounding to integers\<close>

lemma round_even_of_int [simp]: "round_even (of_int n) = n"
  by (simp add: round_even_def)

lemma round_even_near: "\<bar>of_int (round_even x) - x\<bar> \<le> 1 / 2"
proof -
  have "of_int \<lfloor>x\<rfloor> \<le> x" "x < of_int \<lfloor>x\<rfloor> + 1"
    by linarith+
  then show ?thesis
    unfolding round_even_def Let_def by (auto simp: abs_le_iff)
qed

lemma round_even_eq:
  assumes "\<bar>of_int n - x\<bar> < 1 / 2"
  shows "round_even x = n"
proof -
  have "\<bar>of_int (round_even x) - of_int n\<bar> < (1 :: rat)"
    using assms round_even_near [of x] by linarith
  then have "\<bar>of_int (round_even x - n)\<bar> < (of_int 1 :: rat)"
    by simp
  then show ?thesis
    unfolding of_int_abs [symmetric] of_int_less_iff by simp
qed

lemma round_even_mono:
  assumes "x \<le> y"
  shows "round_even x \<le> round_even y"
proof (cases "\<lfloor>x\<rfloor> = \<lfloor>y\<rfloor>")
  case True
  with assms show ?thesis
    by (auto simp: round_even_def Let_def)
next
  case False
  with assms have "\<lfloor>x\<rfloor> + 1 \<le> \<lfloor>y\<rfloor>"
    using floor_mono [OF assms] by simp
  moreover have "round_even x \<le> \<lfloor>x\<rfloor> + 1" "\<lfloor>y\<rfloor> \<le> round_even y"
    by (simp_all add: round_even_def Let_def)
  ultimately show ?thesis by simp
qed

subsection \<open>Rounding to doubles\<close>

text \<open>The rounded value of a positive rational, before the test for overflow.\<close>

definition rounded :: "rat \<Rightarrow> rat" where
  "rounded q = of_int (round_even (q / p2 (ulp_exponent q))) * p2 (ulp_exponent q)"

lemma round_double_pos:
  "0 < q \<Longrightarrow> round_double q = (if 2 ^ 1024 \<le> \<bar>rounded q\<bar> then Inf False else Fin (rounded q))"
  by (simp add: round_double_def rounded_def Let_def)

text \<open>Rounding does not cross a point of the grid it rounds to, nor of a coarser grid.\<close>

lemma rounded_grid:
  assumes "g = of_int m * p2 k" and "ulp_exponent q \<le> k"
  shows "g \<le> q \<Longrightarrow> g \<le> rounded q" and "q \<le> g \<Longrightarrow> rounded q \<le> g"
proof -
  let ?u = "p2 (ulp_exponent q)"
  have g: "g / ?u = of_int (m * 2 ^ nat (k - ulp_exponent q))"
    using p2_quotient [OF assms(2)] unfolding assms(1) times_divide_eq_right [symmetric] by simp
  have r: "rounded q / ?u = of_int (round_even (q / ?u))"
    by (simp add: rounded_def)
  show "g \<le> rounded q" if "g \<le> q"
  proof -
    have "round_even (g / ?u) \<le> round_even (q / ?u)"
      using that by (intro round_even_mono divide_right_mono) simp_all
    then have "g / ?u \<le> rounded q / ?u"
      unfolding g r round_even_of_int of_int_le_iff .
    then show ?thesis
      by (simp add: divide_le_cancel)
  qed
  show "rounded q \<le> g" if "q \<le> g"
  proof -
    have "round_even (q / ?u) \<le> round_even (g / ?u)"
      using that by (intro round_even_mono divide_right_mono) simp_all
    then have "rounded q / ?u \<le> g / ?u"
      unfolding g r round_even_of_int of_int_le_iff .
    then show ?thesis
      by (simp add: divide_le_cancel)
  qed
qed

lemma rounded_exact: "q = of_int m * p2 k \<Longrightarrow> ulp_exponent q \<le> k \<Longrightarrow> rounded q = q"
  using rounded_grid [of q m k q] by force

lemma ulp_exponent_less: "0 < q \<Longrightarrow> q < p2 e \<Longrightarrow> -1021 \<le> e \<Longrightarrow> ulp_exponent q \<le> e - 53"
  using exponent_less [of q e] by (simp add: ulp_exponent_def)

lemma ulp_exponent_mono:
  assumes "0 < q" and "q \<le> r"
  shows "ulp_exponent q \<le> ulp_exponent r"
proof -
  have "q < p2 (exponent_of r + 1)"
    using exponent_bounds(2) [of r] assms by linarith
  from exponent_less [OF assms(1) this] show ?thesis
    by (simp add: ulp_exponent_def)
qed

lemma rounded_mono:
  assumes "0 < q" and "q \<le> r"
  shows "rounded q \<le> rounded r"
proof (cases "ulp_exponent q = ulp_exponent r")
  case True
  have "q / p2 (ulp_exponent r) \<le> r / p2 (ulp_exponent r)"
    using assms(2) by (intro divide_right_mono) simp_all
  then show ?thesis
    unfolding rounded_def True by (intro mult_right_mono) (simp_all add: round_even_mono)
next
  case False
  with ulp_exponent_mono [OF assms] have u: "ulp_exponent q < ulp_exponent r" by simp
  let ?e = "exponent_of r"
  have e: "ulp_exponent r = ?e - 52" "ulp_exponent q \<le> ?e"
    using u by (auto simp: ulp_exponent_def max_def split: if_splits)
  have "q < p2 ?e"
  proof (rule ccontr)
    assume "\<not> q < p2 ?e"
    then have "p2 ?e \<le> q" "q < p2 (?e + 1)"
      using exponent_bounds(2) [of r] assms by linarith+
    then have "exponent_of q = ?e" by (rule exponent_unique)
    with u show False by (simp add: ulp_exponent_def)
  qed
  then have "rounded q \<le> p2 ?e"
    using e(2) by (intro rounded_grid(2) [of _ 1 ?e]) simp_all
  also have "p2 ?e \<le> rounded r"
    using e(1) exponent_bounds(1) [of r] assms by (intro rounded_grid(1) [of _ 1 ?e]) simp_all
  finally show ?thesis .
qed

lemma rounded_nonneg: "0 < q \<Longrightarrow> 0 \<le> rounded q"
  using rounded_grid(1) [of 0 0 "ulp_exponent q" q] by simp

lemma rounded_bounded:
  assumes "0 < q" and "q \<le> p2 e" and "-1021 \<le> e"
  shows "rounded q \<le> p2 e"
proof (cases "q = p2 e")
  case True
  have "exponent_of q = e"
    using True by (intro exponent_unique) simp_all
  then show ?thesis
    using True assms(3) by (intro rounded_grid(2) [of _ 1 e]) (simp_all add: ulp_exponent_def)
next
  case False
  with assms ulp_exponent_less [of q e] show ?thesis
    by (intro rounded_grid(2) [of _ 1 e]) simp_all
qed

text \<open>Below \<open>2 ^ 1023\<close> nothing overflows.\<close>

lemma round_double_fin:
  assumes "0 < q" and "q \<le> 2 ^ 1023"
  shows "round_double q = Fin (rounded q)"
proof -
  have "rounded q \<le> p2 1023"
    using assms by (intro rounded_bounded) simp_all
  moreover have "p2 1023 < p2 1024"
    by (simp only: p2_less_iff)
  ultimately have "\<bar>rounded q\<bar> < 2 ^ 1024"
    using rounded_nonneg [OF assms(1)] by simp
  then show ?thesis
    using assms(1) by (simp add: round_double_pos)
qed

lemma fp_of_nat_exact:
  assumes "n \<le> 2 ^ 53"
  shows "fp_of_nat n = Fin (of_nat n)"
proof (cases "n = 0")
  case True
  then show ?thesis by (simp add: fp_of_nat_def round_double_def)
next
  case False
  have le: "(of_nat n :: rat) \<le> p2 53"
    using of_nat_mono [OF assms, where 'a = rat] by simp
  have "rounded (of_nat n) = of_nat n"
  proof (cases "n = 2 ^ 53")
    case True
    have "exponent_of (of_nat n) = 53"
      by (rule exponent_unique) (simp_all add: True)
    then show ?thesis
      by (intro rounded_exact [of _ 1 53]) (simp_all add: True ulp_exponent_def)
  next
    case False
    then have "(of_nat n :: rat) < p2 53"
      using of_nat_less_iff [of n "2 ^ 53", where 'a = rat] assms by simp
    with \<open>n \<noteq> 0\<close> ulp_exponent_less [of "of_nat n" 53] show ?thesis
      by (intro rounded_exact [of _ "int n" 0]) simp_all
  qed
  moreover have "(of_nat n :: rat) \<le> 2 ^ 1023"
    using le by (rule order_trans) simp
  ultimately show ?thesis
    using \<open>n \<noteq> 0\<close> by (simp add: fp_of_nat_def round_double_fin)
qed

lemma rounded_near:
  assumes "g = of_int m * p2 k" and "ulp_exponent q \<le> k" and "\<bar>g - q\<bar> < p2 (ulp_exponent q) / 2"
  shows "rounded q = g"
proof -
  let ?u = "p2 (ulp_exponent q)"
  have g: "g / ?u = of_int (m * 2 ^ nat (k - ulp_exponent q))"
    using p2_quotient [OF assms(2)] unfolding assms(1) times_divide_eq_right [symmetric] by simp
  have "\<bar>g / ?u - q / ?u\<bar> = \<bar>g - q\<bar> / ?u"
    by (simp add: diff_divide_distrib [symmetric])
  also have "\<dots> < 1 / 2"
    using assms(3) by (simp add: pos_divide_less_eq)
  finally have "round_even (q / ?u) = m * 2 ^ nat (k - ulp_exponent q)"
    unfolding g by (rule round_even_eq)
  then have "rounded q = g / ?u * ?u"
    unfolding rounded_def g by simp
  then show ?thesis by simp
qed

subsection \<open>The constants of the code\<close>

lemma rounded_tenth: "rounded (1 / 10) = 7205759403792794 * p2 (- 56)"
proof -
  have "exponent_of (1 / 10) = -4"
    by (rule exponent_unique) (simp_all add: power_int_def power_divide)
  moreover have "round_even (1 / 10 / p2 (- 56)) = 7205759403792794"
    by (rule round_even_eq) (simp add: power_int_def power_divide)
  ultimately show ?thesis
    by (simp add: rounded_def ulp_exponent_def)
qed

lemma rounded_eight_tenths: "rounded (8 / 10) = 7205759403792794 * p2 (- 53)"
proof -
  have "exponent_of (4 / 5) = -1"
    by (rule exponent_unique) (simp_all add: power_int_def power_divide)
  moreover have "round_even (4 / 5 / p2 (- 53)) = 7205759403792794"
    by (rule round_even_eq) (simp add: power_int_def power_divide)
  ultimately show ?thesis
    by (simp add: rounded_def ulp_exponent_def)
qed

lemma rounded_99_percent: "rounded (99 / 100) = 8917127262193582 * p2 (- 53)"
proof -
  have "exponent_of (99 / 100) = -1"
    by (rule exponent_unique) (simp_all add: power_int_def power_divide)
  moreover have "round_even (99 / 100 / p2 (- 53)) = 8917127262193582"
    by (rule round_even_eq) (simp add: power_int_def power_divide)
  ultimately show ?thesis
    by (simp add: rounded_def ulp_exponent_def)
qed

lemma round_double_numeral: "numeral n \<le> (2 :: nat) ^ 53 \<Longrightarrow> round_double (numeral n) = Fin (numeral n)"
  using fp_of_nat_exact [of "numeral n"] by (simp add: fp_of_nat_def)

lemma round_double_constants:
  "round_double (1 / 10) = Fin (7205759403792794 * p2 (- 56))"
  "round_double (8 / 10) = Fin (7205759403792794 * p2 (- 53))"
  "round_double (99 / 100) = Fin (8917127262193582 * p2 (- 53))"
  using rounded_tenth rounded_eight_tenths rounded_99_percent
  by (simp_all add: round_double_fin)

subsection \<open>Comparisons that are exact in spite of rounding\<close>

lemma rate_exceeds_tenth:
  assumes "e \<le> 2 ^ 53" and "0 < t" and "t \<le> 2 ^ 52"
  shows "fp_less (round_double (1 / 10)) (fp_div (fp_of_nat e) (fp_of_nat t)) \<longleftrightarrow> t < 10 * e"
proof (cases "e = 0")
  case True
  with assms show ?thesis
    by (simp add: fp_of_nat_exact round_double_constants round_double_def [of 0])
next
  case False
  define q :: rat where "q = of_nat e / of_nat t"
  have q: "0 < q" "q \<le> of_nat e"
    using False assms(2) by (simp_all add: q_def divide_le_eq)
  have "(of_nat e :: rat) \<le> 2 ^ 53"
    using of_nat_mono [OF assms(1), where 'a = rat] by simp
  with q(2) have "q \<le> 2 ^ 1023" by (rule order_trans [OF order_trans]) simp
  then have d: "fp_div (fp_of_nat e) (fp_of_nat t) = Fin (rounded q)"
    using assms q(1) by (simp add: fp_of_nat_exact round_double_fin flip: q_def)
  let ?g = "7205759403792795 * p2 (- 56)"
  show ?thesis
  proof (cases "t < 10 * e")
    case True
    then have "of_nat (t + 1) \<le> (of_nat (10 * e) :: rat)"
      unfolding of_nat_le_iff by simp
    moreover have "(of_nat t :: rat) \<le> 2 ^ 52"
      using of_nat_mono [OF assms(3), where 'a = rat] by simp
    ultimately have "?g * of_nat t \<le> of_nat e"
      by (simp add: power_int_def power_divide)
    then have "?g \<le> q"
      using assms(2) by (simp add: q_def pos_le_divide_eq)
    moreover have "exponent_of ?g = -4"
      by (rule exponent_unique) (simp_all add: power_int_def power_divide)
    then have "rounded ?g = ?g"
      by (intro rounded_exact [of _ 7205759403792795 "-56"]) (simp_all add: ulp_exponent_def)
    ultimately have "?g \<le> rounded q"
      using rounded_mono [of ?g q] by simp
    moreover have "7205759403792794 * p2 (- 56) < ?g"
      by simp
    ultimately show ?thesis
      using True d by (simp add: round_double_constants)
  next
    case False
    then have "of_nat (10 * e) \<le> (of_nat t :: rat)"
      unfolding of_nat_le_iff by simp
    then have "q \<le> 1 / 10"
      using assms(2) by (simp add: q_def pos_divide_le_eq)
    then have "rounded q \<le> rounded (1 / 10)"
      by (rule rounded_mono [OF q(1)])
    then show ?thesis
      using False d by (simp add: round_double_constants rounded_tenth)
  qed
qed

lemma of_nat_exceeds:
  assumes "c < 2 ^ 53" and "n < 2 ^ 64"
  shows "fp_less (fp_of_nat c) (fp_of_nat n) \<longleftrightarrow> c < n"
proof (cases "n \<le> 2 ^ 53")
  case True
  with assms show ?thesis by (simp add: fp_of_nat_exact)
next
  case False
  have le: "of_nat (2 ^ 53) \<le> (of_nat n :: rat)" "(of_nat n :: rat) \<le> of_nat (2 ^ 64)"
    using False assms(2) unfolding of_nat_le_iff by simp_all
  have "(of_nat n :: rat) \<le> 2 ^ 1023"
    using le(2) by (rule order_trans) simp
  then have f: "fp_of_nat n = Fin (rounded (of_nat n))"
    using False by (simp add: fp_of_nat_def round_double_fin)
  have "round_double 9007199254740992 = Fin 9007199254740992"
    by (rule round_double_numeral) simp
  then have "rounded 9007199254740992 = 9007199254740992"
    by (simp add: round_double_fin)
  moreover have "rounded 9007199254740992 \<le> rounded (of_nat n)"
    using le(1) by (intro rounded_mono) simp_all
  moreover have "of_nat c < (of_nat (2 ^ 53) :: rat)"
    using assms(1) unfolding of_nat_less_iff .
  ultimately show ?thesis
    using False assms(1) f by (simp add: fp_of_nat_exact)
qed

text \<open>Fractions with a power of two below them are exact.\<close>

lemma round_double_dyadic:
  assumes "n \<le> 2 ^ 53" and "k \<le> 53"
  shows "round_double (of_nat n / 2 ^ k) = Fin (of_nat n / 2 ^ k)"
proof (cases "n = 0")
  case True
  then show ?thesis by (simp add: round_double_def)
next
  case False
  let ?q = "of_nat n / 2 ^ k :: rat"
  have q: "?q = of_int (int n) * p2 (- int k)" "0 < ?q"
    using False by (simp_all add: power_int_minus divide_inverse)
  have n: "(of_nat n :: rat) \<le> 2 ^ 53"
    using of_nat_mono [OF assms(1), where 'a = rat] by simp
  then have le: "?q \<le> p2 (53 - int k)"
    by (simp add: p2_diff divide_right_mono)
  have "rounded ?q = ?q"
  proof (cases "?q = p2 (53 - int k)")
    case True
    then have "exponent_of ?q = 53 - int k"
      by (intro exponent_unique) simp_all
    with True assms(2) show ?thesis
      by (intro rounded_exact [of _ 1 "53 - int k"]) (simp_all add: ulp_exponent_def)
  next
    case False
    with le q(2) have "ulp_exponent ?q \<le> 53 - int k - 53"
      using assms(2) by (intro ulp_exponent_less) simp_all
    with q(1) show ?thesis
      by (intro rounded_exact [of _ "int n" "- int k"]) simp_all
  qed
  moreover have "?q \<le> 2 ^ 1023"
  proof -
    have "?q \<le> p2 (53 - int k)" by (rule le)
    also have "\<dots> \<le> p2 1023" by (simp only: p2_le_iff)
    finally show ?thesis by simp
  qed
  ultimately show ?thesis
    using q(2) by (simp add: round_double_fin)
qed

subsection \<open>Truncated percentiles\<close>

lemma rounded_99_multiple:
  assumes "99 * c = 100 * n" and "0 < c" and "c \<le> 1000"
  shows "rounded (of_nat c * (8917127262193582 * p2 (- 53))) = of_nat n"
proof -
  let ?x = "of_nat c * (8917127262193582 * p2 (- 53)) :: rat"
  have n: "of_nat n = (99 / 100 * of_nat c :: rat)"
    using arg_cong [OF assms(1), of "of_nat :: nat \<Rightarrow> rat"] by simp
  have "c = 100 * (c - n)"
    using assms(1) by simp
  then have "100 dvd c" by (rule dvdI)
  with assms(2) have c: "100 \<le> (of_nat c :: rat)" "of_nat c \<le> (1000 :: rat)"
    using dvd_imp_le [of 100 c] of_nat_mono [of 100 c, where 'a = rat] of_nat_mono [OF assms(3), where 'a = rat]
    by simp_all
  have x: "?x = 4458563631096791 / 4503599627370496 * of_nat c"
    by (simp add: power_int_def power_divide)
  have u: "ulp_exponent ?x \<le> 0"
    using ulp_exponent_less [of ?x 10] c unfolding x by simp
  have "\<bar>of_nat n - ?x\<bar> < p2 (ulp_exponent ?x) / 2"
  proof (cases "(of_nat c :: rat) \<le> 600")
    case True
    have "p2 6 \<le> ?x" using c unfolding x by simp
    then have "-46 \<le> ulp_exponent ?x"
      using exponent_ge [of 6 ?x] by (simp add: ulp_exponent_def)
    then have "p2 (- 46) \<le> p2 (ulp_exponent ?x)" by (simp only: p2_le_iff)
    moreover have "\<bar>of_nat n - ?x\<bar> < p2 (- 46) / 2"
      unfolding n x using True c by (simp add: power_int_def power_divide abs_if)
    ultimately show ?thesis by linarith
  next
    case False
    have "p2 9 \<le> ?x" using False unfolding x by simp
    then have "-43 \<le> ulp_exponent ?x"
      using exponent_ge [of 9 ?x] by (simp add: ulp_exponent_def)
    then have "p2 (- 43) \<le> p2 (ulp_exponent ?x)" by (simp only: p2_le_iff)
    moreover have "\<bar>of_nat n - ?x\<bar> < p2 (- 43) / 2"
      unfolding n x using c by (simp add: power_int_def power_divide abs_if)
    ultimately show ?thesis by linarith
  qed
  with u show ?thesis
    by (intro rounded_near [of _ "int n" 0]) simp_all
qed

lemma rounded_99_floor:
  assumes "0 < c" and "c \<le> 1000"
  shows "\<lfloor>rounded (of_nat c * (8917127262193582 * p2 (- 53)))\<rfloor> = int (99 * c div 100)"
proof -
  define n r where "n = 99 * c div 100" and "r = 99 * c mod 100"
  let ?x = "of_nat c * (8917127262193582 * p2 (- 53)) :: rat"
  have nr: "99 * c = 100 * n + r" "r \<le> 99"
    by (simp_all add: n_def r_def)
  have c: "1 \<le> (of_nat c :: rat)" "of_nat c \<le> (1000 :: rat)" "of_nat r \<le> (99 :: rat)"
    using assms nr(2) of_nat_mono [of 1 c, where 'a = rat] of_nat_mono [OF assms(2), where 'a = rat]
      of_nat_mono [OF nr(2), where 'a = rat] by simp_all
  have e: "99 * of_nat c = 100 * of_nat n + (of_nat r :: rat)"
    using arg_cong [OF nr(1), of "of_nat :: nat \<Rightarrow> rat"] by simp
  have x: "?x = 4458563631096791 / 4503599627370496 * of_nat c"
    by (simp add: power_int_def power_divide)
  have u: "ulp_exponent ?x \<le> -43"
    using ulp_exponent_less [of ?x 10] c unfolding x by simp
  have "rounded ?x \<le> of_int (1024 * int n + 1023) * p2 (- 10)"
    using u c e unfolding x by (intro rounded_grid(2) [OF refl]) (simp_all add: power_int_def power_divide)
  then have hi: "rounded ?x < of_nat n + 1"
    by (rule le_less_trans) (simp add: power_int_def power_divide)
  have lo: "of_nat n \<le> rounded ?x"
  proof (cases "r = 0")
    case True
    then have "rounded ?x = of_nat n"
      using nr(1) assms by (intro rounded_99_multiple) simp_all
    then show ?thesis by (rule eq_refl [OF sym])
  next
    case False
    then have "1 \<le> (of_nat r :: rat)" by simp
    then have "of_int (int n) * p2 0 \<le> rounded ?x"
      using u c e unfolding x by (intro rounded_grid(1) [OF refl]) simp_all
    then show ?thesis by simp
  qed
  show ?thesis
    using lo hi by (simp add: floor_eq_iff flip: n_def)
qed

lemma truncate_99_percent:
  assumes "0 < c" and "c \<le> 1000"
  shows "fp_to_unsigned (2 ^ 64) (fp_mul (fp_of_nat c) (round_double (99 / 100))) = Some (99 * c div 100)"
proof -
  let ?x = "of_nat c * (8917127262193582 * p2 (- 53)) :: rat"
  have c: "0 < (of_nat c :: rat)" "of_nat c \<le> (1000 :: rat)"
    using assms(1) of_nat_mono [OF assms(2), where 'a = rat] by simp_all
  have x: "?x = 4458563631096791 / 4503599627370496 * of_nat c"
    by (simp add: power_int_def power_divide)
  have "0 < ?x" "?x \<le> 1000"
    unfolding x using c by simp_all
  then have m: "fp_mul (fp_of_nat c) (round_double (99 / 100)) = Fin (rounded ?x)"
    using assms(2) order_trans [OF \<open>?x \<le> 1000\<close>, of "2 ^ 1023"]
    by (simp add: fp_of_nat_exact round_double_constants round_double_fin)
  have f: "\<lfloor>rounded ?x\<rfloor> = int (99 * c div 100)"
    using assms by (rule rounded_99_floor)
  have "99 * c div 100 \<le> 990"
    using assms(2) by simp
  with f have "\<lfloor>rounded ?x\<rfloor> \<le> 990" "0 \<le> \<lfloor>rounded ?x\<rfloor>"
    by simp_all
  then have "-1 < rounded ?x" "rounded ?x < 2 ^ 64"
    by (simp_all add: floor_le_iff le_floor_iff)
  with f show ?thesis
    unfolding m by simp
qed

lemma truncate_half:
  assumes "c \<le> 2 ^ 52"
  shows "fp_to_unsigned (2 ^ 64) (fp_mul (fp_of_nat c) (round_double (1 / 2))) = Some (c div 2)"
proof -
  have "round_double (1 / 2) = Fin (1 / 2)"
    using round_double_dyadic [of 1 1] by simp
  moreover have "round_double (of_nat c / 2) = Fin (of_nat c / 2)"
    using round_double_dyadic [of c 1] assms by simp
  moreover have "(of_nat c :: rat) \<le> 2 ^ 52"
    using of_nat_mono [OF assms, where 'a = rat] by simp
  moreover have "\<lfloor>of_nat c / (2 :: rat)\<rfloor> = int (c div 2)"
    using floor_divide_of_nat_eq [of c 2, where 'a = rat] by simp
  ultimately show ?thesis
    using assms by (simp add: fp_of_nat_exact)
qed

end
