(* ===== verification/Ws_State.thy ===== *)
theory Ws_State
  imports Ws_Handshake Ws_Frame Double
begin

text \<open>
  The WebSocket object of \<^verbatim>\<open>src/src/websocket.c\<close> and the types of \<^verbatim>\<open>src/src/websocket.h\<close>. A
  callback is a code address, \<open>0\<close> when it is null, and what it does is an operation of the
  system record: it gets the object, which it may change through the interface of the library,
  and the state of the world. The two rings are part of the object; the socket table refers to
  them by the two names of \<open>ring_id\<close>.
\<close>

subsection \<open>Types\<close>

datatype WSState = WS_STATE_CONNECTING | WS_STATE_CONNECTED | WS_STATE_CLOSING | WS_STATE_CLOSED

datatype WSHealthStatus = WS_HEALTH_OK | WS_HEALTH_DEGRADED | WS_HEALTH_UNHEALTHY

datatype WSLogLevel = WS_LOG_DEBUG | WS_LOG_INFO | WS_LOG_WARN | WS_LOG_ERROR

record WebSocketMetrics =
  messages_received :: u64
  messages_sent :: u64
  errors_total :: u64
  bytes_received :: u64
  bytes_sent :: u64
  latency_p50_ns :: fp
  latency_p99_ns :: fp
  throughput_msg_per_sec :: fp
  ringbuffer_utilization :: fp
  connection_uptime_ns :: u64

record WSReconnectConfig =
  auto_reconnect :: bool
  max_retries :: u32
  initial_backoff_ms :: u32
  max_backoff_ms :: u32
  backoff_multiplier :: fp
  reset_backoff_on_success :: bool

record WSReconnectState =
  reconnect_attempts :: u32
  next_backoff_ms :: u32
  is_reconnecting :: bool

record WSHeartbeatConfig =
  enable_heartbeat :: bool
  ping_interval_ms :: u32
  pong_timeout_ms :: u32
  on_heartbeat_timeout :: addr
  heartbeat_user_data :: addr

datatype ring_id = Rx | Tx

record WebSocket =
  ws_state :: WSState
  ws_fd :: int
  ws_ssl_ctx :: "SSLContext option"
  ws_io_ctx :: "ring_id IOContext option"
  ws_rx_ring :: RingBuffer
  ws_tx_ring :: RingBuffer
  ws_on_message :: addr
  ws_on_error :: addr
  ws_callback_user_data :: addr
  ws_user_data :: addr
  ws_url :: "byte list option"
  ws_host :: "byte list"
  ws_path :: "byte list"
  ws_port :: int
  ws_use_ssl :: bool
  ws_cert_validation_disabled :: bool
  ws_sec_websocket_key :: "byte list"
  ws_socket_index :: int
  ws_frame_pool :: "WSFrame list"
  ws_frame_pool_idx :: int
  ws_frame_parse_errors :: u32
  ws_metrics :: WebSocketMetrics
  ws_metrics_last_report_ns :: u64
  ws_connection_start_ns :: u64
  ws_latency_samples :: "u64 list option"
  ws_latency_sample_count :: size_t
  ws_latency_sample_capacity :: size_t
  ws_latency_sample_idx :: size_t
  ws_on_metrics :: addr
  ws_metrics_user_data :: addr
  ws_on_health :: addr
  ws_health_user_data :: addr
  ws_log_callback :: addr
  ws_log_user_data :: addr
  ws_current_health :: WSHealthStatus
  ws_last_health_check_ns :: u64
  ws_last_metric_reset_ns :: u64
  ws_reconnect_config :: WSReconnectConfig
  ws_reconnect_state :: WSReconnectState
  ws_last_reconnect_attempt_ns :: u64
  ws_heartbeat_config :: WSHeartbeatConfig
  ws_last_ping_sent_ns :: u64
  ws_last_pong_received_ns :: u64

subsection \<open>Callbacks\<close>

record 'w ws_os = "'w net_os" +
  cb_message :: "addr \<Rightarrow> WebSocket \<Rightarrow> byte list \<Rightarrow> addr \<Rightarrow> 'w \<Rightarrow> (WebSocket \<times> 'w) option"
  cb_error :: "addr \<Rightarrow> WebSocket \<Rightarrow> int \<Rightarrow> byte list \<Rightarrow> addr \<Rightarrow> 'w \<Rightarrow> (WebSocket \<times> 'w) option"
  cb_metrics :: "addr \<Rightarrow> WebSocket \<Rightarrow> WebSocketMetrics \<Rightarrow> addr \<Rightarrow> 'w \<Rightarrow> (WebSocket \<times> 'w) option"
  cb_health :: "addr \<Rightarrow> WebSocket \<Rightarrow> WSHealthStatus \<Rightarrow> byte list \<Rightarrow> addr \<Rightarrow> 'w \<Rightarrow> (WebSocket \<times> 'w) option"
  cb_log :: "addr \<Rightarrow> WebSocket \<Rightarrow> WSLogLevel \<Rightarrow> byte list \<Rightarrow> addr \<Rightarrow> 'w \<Rightarrow> (WebSocket \<times> 'w) option"
  cb_heartbeat_timeout :: "addr \<Rightarrow> WebSocket \<Rightarrow> addr \<Rightarrow> 'w \<Rightarrow> (WebSocket \<times> 'w) option"

text \<open>The macro \<open>WS_LOG\<close>: the formatted text is cut to its 512-byte buffer.\<close>

definition WS_LOG ::
  "('w, 'z) ws_os_scheme \<Rightarrow> WebSocket \<Rightarrow> WSLogLevel \<Rightarrow> byte list \<Rightarrow> 'w \<Rightarrow> (WebSocket \<times> 'w) option" where
  "WS_LOG os ws level text w =
     (if ws_log_callback ws = 0 then Some (ws, w)
      else cb_log os (ws_log_callback ws) ws level (take 511 text) (ws_log_user_data ws) w)"

definition report_error ::
  "('w, 'z) ws_os_scheme \<Rightarrow> WebSocket \<Rightarrow> int \<Rightarrow> byte list \<Rightarrow> 'w \<Rightarrow> (WebSocket \<times> 'w) option" where
  "report_error os ws code msg w =
     (if ws_on_error ws = 0 then Some (ws, w)
      else cb_error os (ws_on_error ws) ws code msg (ws_callback_user_data ws) w)"

subsection \<open>The rings of the object\<close>

definition ws_rings :: "WebSocket \<Rightarrow> ring_id \<Rightarrow> RingBuffer" where
  "ws_rings ws p = (case p of Rx \<Rightarrow> ws_rx_ring ws | Tx \<Rightarrow> ws_tx_ring ws)"

definition ws_set_rings :: "(ring_id \<Rightarrow> RingBuffer) \<Rightarrow> WebSocket \<Rightarrow> WebSocket" where
  "ws_set_rings h ws = ws\<lparr>ws_rx_ring := h Rx, ws_tx_ring := h Tx\<rparr>"

text \<open>
  Sending what the transmit ring holds, through TLS or the socket, as every sender ends; the
  number of bytes sent is not looked at. The socket operations do nothing without a context.
\<close>

definition ws_ssl_write :: "('w, 'z) ws_os_scheme \<Rightarrow> WebSocket \<Rightarrow> 'w \<Rightarrow> (int \<times> WebSocket \<times> 'w) option" where
  "ws_ssl_write os ws w = do {
     (n, c, rb, w1) \<leftarrow> ssl_write os (ws_ssl_ctx ws) (ws_tx_ring ws) w;
     Some (n, ws\<lparr>ws_ssl_ctx := c, ws_tx_ring := rb\<rparr>, w1)
   }"

definition ws_ssl_read :: "('w, 'z) ws_os_scheme \<Rightarrow> WebSocket \<Rightarrow> 'w \<Rightarrow> (int \<times> WebSocket \<times> 'w) option" where
  "ws_ssl_read os ws w = do {
     (n, c, rb, w1) \<leftarrow> ssl_read os (ws_ssl_ctx ws) (ws_rx_ring ws) w;
     Some (n, ws\<lparr>ws_ssl_ctx := c, ws_rx_ring := rb\<rparr>, w1)
   }"

definition ws_io_write :: "('w, 'z) ws_os_scheme \<Rightarrow> WebSocket \<Rightarrow> 'w \<Rightarrow> (int \<times> WebSocket \<times> 'w) option" where
  "ws_io_write os ws w =
     (case ws_io_ctx ws of
        None \<Rightarrow> Some (-1, ws, w)
      | Some io \<Rightarrow> do {
          (n, h, w1) \<leftarrow> io_write os io (ws_socket_index ws) (ws_rings ws) w;
          Some (n, ws_set_rings h ws, w1)
        })"

definition ws_io_read :: "('w, 'z) ws_os_scheme \<Rightarrow> WebSocket \<Rightarrow> int \<Rightarrow> 'w \<Rightarrow> (int \<times> WebSocket \<times> 'w) option" where
  "ws_io_read os ws socket_idx w =
     (case ws_io_ctx ws of
        None \<Rightarrow> Some (-1, ws, w)
      | Some io \<Rightarrow> do {
          (n, io', h, w1) \<leftarrow> io_read os io socket_idx (ws_rings ws) w;
          Some (n, (ws_set_rings h ws)\<lparr>ws_io_ctx := Some io'\<rparr>, w1)
        })"

definition ws_transmit :: "('w, 'z) ws_os_scheme \<Rightarrow> WebSocket \<Rightarrow> 'w \<Rightarrow> (WebSocket \<times> 'w) option" where
  "ws_transmit os ws w =
     map_option snd (if ws_use_ssl ws then ws_ssl_write os ws w else ws_io_write os ws w)"

subsection \<open>Simple accessors\<close>

definition websocket_set_on_message :: "addr \<Rightarrow> addr \<Rightarrow> WebSocket \<Rightarrow> WebSocket" where
  "websocket_set_on_message callback user_data ws =
     ws\<lparr>ws_on_message := callback, ws_callback_user_data := user_data\<rparr>"

definition websocket_set_on_error :: "addr \<Rightarrow> addr \<Rightarrow> WebSocket \<Rightarrow> WebSocket" where
  "websocket_set_on_error callback user_data ws =
     ws\<lparr>ws_on_error := callback, ws_callback_user_data := user_data\<rparr>"

definition websocket_get_state :: "WebSocket option \<Rightarrow> WSState" where
  "websocket_get_state ws = (case ws of None \<Rightarrow> WS_STATE_CLOSED | Some s \<Rightarrow> ws_state s)"

definition websocket_get_user_data :: "WebSocket option \<Rightarrow> addr" where
  "websocket_get_user_data ws = (case ws of None \<Rightarrow> 0 | Some s \<Rightarrow> ws_user_data s)"

definition websocket_get_last_nic_timestamp_ns :: "WebSocket \<Rightarrow> u64 option" where
  "websocket_get_last_nic_timestamp_ns ws =
     (if ws_socket_index ws < 0 then Some 0
      else if ws_use_ssl ws \<and> ws_ssl_ctx ws \<noteq> None then Some (ssl_get_last_nic_timestamp_ns (ws_ssl_ctx ws))
      else case ws_io_ctx ws of None \<Rightarrow> Some 0 | Some io \<Rightarrow> io_get_last_nic_timestamp_ns io (ws_socket_index ws))"

definition websocket_get_last_nic_timestamp_ticks :: "WebSocket \<Rightarrow> u64 option" where
  "websocket_get_last_nic_timestamp_ticks ws =
     (if ws_socket_index ws < 0 then Some 0
      else if ws_use_ssl ws \<and> ws_ssl_ctx ws \<noteq> None then Some (ssl_get_last_nic_timestamp_ticks (ws_ssl_ctx ws))
      else case ws_io_ctx ws of None \<Rightarrow> Some 0 | Some io \<Rightarrow> io_get_last_nic_timestamp_ticks io (ws_socket_index ws))"

end
