(* ===== verification/Ws_Observe.thy ===== *)
theory Ws_Observe
  imports Ws_State
begin

text \<open>
  Observability and error recovery of \<^verbatim>\<open>src/src/websocket.c\<close>: the window of latency samples and
  its percentiles, the metrics, the health status and its periodic check, the reconnection
  backoff, and the heartbeat.
\<close>

subsection \<open>Latency\<close>

definition update_latency_sample :: "WebSocket \<Rightarrow> u64 \<Rightarrow> WebSocket option" where
  "update_latency_sample ws latency_ns =
     (case ws_latency_samples ws of
        None \<Rightarrow> Some ws
      | Some samples \<Rightarrow>
          if ws_latency_sample_capacity ws = 0 then Some ws
          else do {
            samples1 \<leftarrow> arr_set samples (int (ws_latency_sample_idx ws)) latency_ns;
            idx \<leftarrow> umod (add64 (ws_latency_sample_idx ws) 1) (ws_latency_sample_capacity ws);
            Some (ws\<lparr>ws_latency_samples := Some samples1, ws_latency_sample_idx := idx,
                     ws_latency_sample_count :=
                       (if ws_latency_sample_count ws < ws_latency_sample_capacity ws
                        then add64 (ws_latency_sample_count ws) 1 else ws_latency_sample_count ws)\<rparr>)
          })"

text \<open>The two loops of the bubble sort, over their index ranges.\<close>

fun bubble_inner :: "u64 list \<Rightarrow> nat list \<Rightarrow> u64 list option" where
  "bubble_inner arr [] = Some arr"
| "bubble_inner arr (j # js) = do {
     a \<leftarrow> arr_get arr (int j);
     b \<leftarrow> arr_get arr (int (j + 1));
     bubble_inner (if b < a then arr[j := b, j + 1 := a] else arr) js
   }"

fun bubble_outer :: "nat \<Rightarrow> u64 list \<Rightarrow> nat list \<Rightarrow> u64 list option" where
  "bubble_outer count arr [] = Some arr"
| "bubble_outer count arr (i # is) = do {
     arr1 \<leftarrow> bubble_inner arr [0..<count - i - 1];
     bubble_outer count arr1 is
   }"

definition percentile_index :: "size_t \<Rightarrow> fp \<Rightarrow> size_t option" where
  "percentile_index count p = fp_to_unsigned (2 ^ 64) (fp_mul (fp_of_nat count) p)"

definition calculate_latency_percentiles ::
  "('w, 'z) ws_os_scheme \<Rightarrow> WebSocket \<Rightarrow> 'w \<Rightarrow> (fp \<times> fp \<times> 'w) option" where
  "calculate_latency_percentiles os ws w =
     (case ws_latency_samples ws of
        None \<Rightarrow> Some (Fin 0, Fin 0, w)
      | Some samples \<Rightarrow>
          let count = ws_latency_sample_count ws in
          if count = 0 then Some (Fin 0, Fin 0, w)
          else
            let (ok, w1) = os_malloc os (mul64 count 8) w in
            if \<not> ok then Some (Fin 0, Fin 0, w1)
            else if length samples < count then None
            else do {
              arr \<leftarrow> bubble_outer count (take count samples) [0..<count - 1];
              p50_idx \<leftarrow> percentile_index count (round_double (1 / 2));
              p99_idx \<leftarrow> percentile_index count (round_double (99 / 100));
              let p99_idx = (if count \<le> p99_idx then count - 1 else p99_idx);
              p50 \<leftarrow> arr_get arr (int p50_idx);
              p99 \<leftarrow> arr_get arr (int p99_idx);
              Some (fp_of_nat p50, fp_of_nat p99, w1)
            })"

subsection \<open>Metrics\<close>

definition zero_metrics :: WebSocketMetrics where
  "zero_metrics = \<lparr>messages_received = 0, messages_sent = 0, errors_total = 0, bytes_received = 0,
     bytes_sent = 0, latency_p50_ns = Fin 0, latency_p99_ns = Fin 0, throughput_msg_per_sec = Fin 0,
     ringbuffer_utilization = Fin 0, connection_uptime_ns = 0\<rparr>"

definition websocket_set_on_metrics :: "addr \<Rightarrow> addr \<Rightarrow> WebSocket \<Rightarrow> WebSocket" where
  "websocket_set_on_metrics callback user_data ws =
     ws\<lparr>ws_on_metrics := callback, ws_metrics_user_data := user_data\<rparr>"

definition ring_utilization :: "RingBuffer \<Rightarrow> fp" where
  "ring_utilization rb = fp_div (fp_of_nat (ringbuffer_readable rb)) (fp_of_nat (rb_size rb))"

definition websocket_get_metrics ::
  "('w, 'z) ws_os_scheme \<Rightarrow> WebSocket \<Rightarrow> 'w \<Rightarrow> (WebSocketMetrics \<times> WebSocket \<times> 'w) option" where
  "websocket_get_metrics os ws w = do {
     (now_ns, w1) \<leftarrow> get_time_ns os w;
     (p50, p99, w2) \<leftarrow> calculate_latency_percentiles os ws w1;
     let m = (ws_metrics ws)\<lparr>latency_p50_ns := p50, latency_p99_ns := p99\<rparr>;
     let start = ws_connection_start_ns ws;
     let elapsed_sec = fp_div (fp_of_nat (sub64 now_ns start)) (round_double 1000000000);
     let m = (if 0 < start \<and> start < now_ns \<and> fp_less (Fin 0) elapsed_sec
              then m\<lparr>throughput_msg_per_sec := fp_div (fp_of_nat (messages_received m)) elapsed_sec\<rparr> else m);
     let m = m\<lparr>ringbuffer_utilization :=
                fp_div (fp_add (ring_utilization (ws_rx_ring ws)) (ring_utilization (ws_tx_ring ws))) (round_double 2)\<rparr>;
     let m = (if 0 < start then m\<lparr>connection_uptime_ns := sub64 now_ns start\<rparr> else m);
     Some (m, ws\<lparr>ws_metrics := m\<rparr>, w2)
   }"

definition websocket_reset_metrics :: "WebSocket \<Rightarrow> WebSocket" where
  "websocket_reset_metrics ws =
     ws\<lparr>ws_metrics := zero_metrics, ws_latency_sample_count := 0, ws_latency_sample_idx := 0,
        ws_metrics_last_report_ns := 0\<rparr>"

definition report_metrics_if_needed ::
  "('w, 'z) ws_os_scheme \<Rightarrow> WebSocket \<Rightarrow> 'w \<Rightarrow> (WebSocket \<times> 'w) option" where
  "report_metrics_if_needed os ws w =
     (if ws_on_metrics ws = 0 then Some (ws, w)
      else do {
        (now_ns, w1) \<leftarrow> get_time_ns os w;
        if sub64 now_ns (ws_metrics_last_report_ns ws) < 1000000000 then Some (ws, w1)
        else do {
          (current_metrics, ws1, w2) \<leftarrow> websocket_get_metrics os (ws\<lparr>ws_metrics_last_report_ns := now_ns\<rparr>) w1;
          cb_metrics os (ws_on_metrics ws1) ws1 current_metrics (ws_metrics_user_data ws1) w2
        }
      })"

subsection \<open>Health\<close>

definition websocket_get_health :: "WebSocket option \<Rightarrow> WSHealthStatus" where
  "websocket_get_health s =
     (case s of
        None \<Rightarrow> WS_HEALTH_UNHEALTHY
      | Some ws \<Rightarrow>
          if ws_state ws \<noteq> WS_STATE_CONNECTED then WS_HEALTH_UNHEALTHY
          else
            let m = ws_metrics ws; total_operations = add64 (messages_received m) (messages_sent m) in
            if 0 < total_operations \<and>
               fp_less (round_double (1 / 10)) (fp_div (fp_of_nat (errors_total m)) (fp_of_nat total_operations))
            then WS_HEALTH_UNHEALTHY
            else if fp_less (round_double 100000) (latency_p99_ns m) then WS_HEALTH_DEGRADED
            else if fp_less (round_double (8 / 10)) (ringbuffer_utilization m) then WS_HEALTH_DEGRADED
            else WS_HEALTH_OK)"

definition websocket_set_on_health :: "addr \<Rightarrow> addr \<Rightarrow> WebSocket \<Rightarrow> WebSocket" where
  "websocket_set_on_health callback user_data ws =
     ws\<lparr>ws_on_health := callback, ws_health_user_data := user_data\<rparr>"

definition websocket_set_log_callback :: "addr \<Rightarrow> addr \<Rightarrow> WebSocket \<Rightarrow> WebSocket" where
  "websocket_set_log_callback callback user_data ws =
     ws\<lparr>ws_log_callback := callback, ws_log_user_data := user_data\<rparr>"

definition health_reason :: "WSHealthStatus \<Rightarrow> WebSocket \<Rightarrow> byte list" where
  "health_reason new_health ws =
     (case new_health of
        WS_HEALTH_UNHEALTHY \<Rightarrow>
          if ws_state ws \<noteq> WS_STATE_CONNECTED then bytes_of ''Connection not connected''
          else bytes_of ''High error rate''
      | WS_HEALTH_DEGRADED \<Rightarrow> bytes_of ''High latency or buffer saturation''
      | WS_HEALTH_OK \<Rightarrow> bytes_of ''All systems normal'')"

definition check_health :: "('w, 'z) ws_os_scheme \<Rightarrow> WebSocket \<Rightarrow> 'w \<Rightarrow> (WebSocket \<times> 'w) option" where
  "check_health os ws w =
     (if ws_on_health ws = 0 then Some (ws, w)
      else do {
        (now_ns, w1) \<leftarrow> get_time_ns os w;
        if sub64 now_ns (ws_last_health_check_ns ws) < 1000000000 then Some (ws, w1)
        else
          let ws1 = ws\<lparr>ws_last_health_check_ns := now_ns\<rparr>;
              new_health = websocket_get_health (Some ws1)
          in if new_health \<noteq> ws_current_health ws1 then
               cb_health os (ws_on_health ws1) (ws1\<lparr>ws_current_health := new_health\<rparr>) new_health
                 (health_reason new_health ws1) (ws_health_user_data ws1) w1
             else Some (ws1, w1)
      })"

subsection \<open>Reconnection\<close>

definition websocket_set_reconnect_config :: "WSReconnectConfig \<Rightarrow> WebSocket \<Rightarrow> WebSocket" where
  "websocket_set_reconnect_config config ws =
     (let ws1 = ws\<lparr>ws_reconnect_config := config\<rparr> in
      if reconnect_attempts (ws_reconnect_state ws1) = 0
      then ws1\<lparr>ws_reconnect_state := (ws_reconnect_state ws1)\<lparr>next_backoff_ms := initial_backoff_ms config\<rparr>\<rparr>
      else ws1)"

definition websocket_get_reconnect_state :: "WebSocket \<Rightarrow> WSReconnectState" where
  "websocket_get_reconnect_state ws = ws_reconnect_state ws"

fun backoff_loop :: "nat \<Rightarrow> fp \<Rightarrow> fp \<Rightarrow> fp" where
  "backoff_loop 0 multiplier backoff_ms = backoff_ms"
| "backoff_loop (Suc n) multiplier backoff_ms = backoff_loop n multiplier (fp_mul backoff_ms multiplier)"

definition calculate_backoff :: "WebSocket \<Rightarrow> u32 option" where
  "calculate_backoff ws =
     (let cfg = ws_reconnect_config ws; attempts = reconnect_attempts (ws_reconnect_state ws) in
      if attempts = 0 then Some (initial_backoff_ms cfg)
      else
        let backoff_ms = backoff_loop attempts (backoff_multiplier cfg) (fp_of_nat (initial_backoff_ms cfg));
            max_ms = fp_of_nat (max_backoff_ms cfg);
            backoff_ms = (if fp_less max_ms backoff_ms then max_ms else backoff_ms)
        in fp_to_unsigned (2 ^ 32) backoff_ms)"

definition trigger_reconnect :: "('w, 'z) ws_os_scheme \<Rightarrow> WebSocket \<Rightarrow> 'w \<Rightarrow> (WebSocket \<times> 'w) option" where
  "trigger_reconnect os ws w =
     (let cfg = ws_reconnect_config ws; st = ws_reconnect_state ws in
      if \<not> auto_reconnect cfg then Some (ws, w)
      else if 0 < max_retries cfg \<and> max_retries cfg \<le> reconnect_attempts st then
        WS_LOG os ws WS_LOG_WARN
          (bytes_of ''Max reconnection attempts ('' @ decimal (max_retries cfg) @ bytes_of '') exceeded'') w
      else
        let st1 = st\<lparr>is_reconnecting := True, reconnect_attempts := (reconnect_attempts st + 1) mod 2 ^ 32\<rparr>;
            ws1 = ws\<lparr>ws_reconnect_state := st1\<rparr>
        in do {
          backoff \<leftarrow> calculate_backoff ws1;
          (now_ns, w1) \<leftarrow> get_time_ns os w;
          WS_LOG os (ws1\<lparr>ws_reconnect_state := st1\<lparr>next_backoff_ms := backoff\<rparr>, ws_last_reconnect_attempt_ns := now_ns\<rparr>)
            WS_LOG_INFO
            (bytes_of ''Reconnecting (attempt '' @ decimal (reconnect_attempts st1) @ bytes_of '', backoff '' @
             decimal backoff @ bytes_of '' ms)'') w1
        })"

subsection \<open>Heartbeat\<close>

definition websocket_set_heartbeat_config :: "WSHeartbeatConfig \<Rightarrow> WebSocket \<Rightarrow> WebSocket" where
  "websocket_set_heartbeat_config config ws =
     ws\<lparr>ws_heartbeat_config := config, ws_last_ping_sent_ns := 0, ws_last_pong_received_ns := 0\<rparr>"

text \<open>The ping, if its interval has passed: an empty frame through the transmit ring.\<close>

definition heartbeat_ping ::
  "('w, 'z) ws_os_scheme \<Rightarrow> u64 \<Rightarrow> u64 \<Rightarrow> WebSocket \<Rightarrow> 'w \<Rightarrow> (WebSocket \<times> 'w) option" where
  "heartbeat_ping os now_ns ping_interval_ns ws w =
     (if ws_last_ping_sent_ns ws = 0 \<or> ping_interval_ns \<le> sub64 now_ns (ws_last_ping_sent_ns ws) then do {
        (written, tx) \<leftarrow> ringbuffer_write (ws_tx_ring ws) (Some [0x89, 0x00]);
        let ws1 = ws\<lparr>ws_tx_ring := tx\<rparr>;
        if written = 2 then do {
          (ws2, w2) \<leftarrow> ws_transmit os ws1 w;
          WS_LOG os (ws2\<lparr>ws_last_ping_sent_ns := now_ns\<rparr>) WS_LOG_DEBUG (bytes_of ''Sent heartbeat ping'') w2
        }
        else Some (ws1, w)
      }
      else Some (ws, w))"

text \<open>The test for a missing pong, and the timeout callback.\<close>

definition heartbeat_pong_check ::
  "('w, 'z) ws_os_scheme \<Rightarrow> u64 \<Rightarrow> u64 \<Rightarrow> WebSocket \<Rightarrow> 'w \<Rightarrow> (WebSocket \<times> 'w) option" where
  "heartbeat_pong_check os now_ns pong_timeout_ns ws w =
     (if 0 < ws_last_ping_sent_ns ws \<and> ws_last_pong_received_ns ws < ws_last_ping_sent_ns ws \<and>
         pong_timeout_ns \<le> sub64 now_ns (ws_last_ping_sent_ns ws)
      then do {
        (ws1, w1) \<leftarrow> WS_LOG os ws WS_LOG_WARN
          (bytes_of ''Heartbeat timeout: no pong received within '' @
           decimal (pong_timeout_ms (ws_heartbeat_config ws)) @ bytes_of '' ms'') w;
        let cfg = ws_heartbeat_config ws1;
        (ws2, w2) \<leftarrow> (if on_heartbeat_timeout cfg = 0 then Some (ws1, w1)
                      else cb_heartbeat_timeout os (on_heartbeat_timeout cfg) ws1 (heartbeat_user_data cfg) w1);
        Some (ws2\<lparr>ws_last_ping_sent_ns := 0\<rparr>, w2)
      }
      else Some (ws, w))"

definition check_heartbeat :: "('w, 'z) ws_os_scheme \<Rightarrow> WebSocket \<Rightarrow> 'w \<Rightarrow> (WebSocket \<times> 'w) option" where
  "check_heartbeat os ws w =
     (if \<not> enable_heartbeat (ws_heartbeat_config ws) \<or> ws_state ws \<noteq> WS_STATE_CONNECTED then Some (ws, w)
      else do {
        (now_ns, w1) \<leftarrow> get_time_ns os w;
        let ping_interval_ns = mul64 (ping_interval_ms (ws_heartbeat_config ws)) 1000000;
        let pong_timeout_ns = mul64 (pong_timeout_ms (ws_heartbeat_config ws)) 1000000;
        (ws2, w2) \<leftarrow> heartbeat_ping os now_ns ping_interval_ns ws w1;
        heartbeat_pong_check os now_ns pong_timeout_ns ws2 w2
      })"

end
