(* ===== verification/Ws_Core.thy ===== *)
theory Ws_Core
  imports Ws_Observe Ws_Url
begin

text \<open>
  Sending and receiving in \<^verbatim>\<open>src/src/websocket.c\<close>: the frames built for messages and pongs, and
  the path from the bytes of the receive ring to the callbacks. Every function takes the system
  record, the object and the world, and returns the object and the world.
\<close>

subsection \<open>Sending\<close>

definition urandom_key :: "('w, 'z) ws_os_scheme \<Rightarrow> 'w \<Rightarrow> u32 \<times> 'w" where
  "urandom_key os w =
     (case os_urandom os 4 w of
        (Some bs, w1) \<Rightarrow> (load_le (take 4 bs), w1)
      | (None, w1) \<Rightarrow>
          let (a, w2) = os_rand os w1; (b, w3) = os_rand os w2
          in ((a mod 2 ^ 32) XOR (b * 2 ^ 16 mod 2 ^ 32), w3))"

text \<open>
  The pong. The payload pointer is not null here; \<open>payload\<close> is \<open>None\<close> when it and its length
  are not a range inside the ring memory, which matters only where the loop reads it.
\<close>

definition websocket_send_pong ::
  "('w, 'z) ws_os_scheme \<Rightarrow> WebSocket \<Rightarrow> byte list option \<Rightarrow> size_t \<Rightarrow> 'w \<Rightarrow> (int \<times> WebSocket \<times> 'w) option" where
  "websocket_send_pong os ws payload payload_len w =
     (if ws_state ws \<noteq> WS_STATE_CONNECTED then Some (-1, ws, w)
      else
        let (masking_key, w1) = urandom_key os w;
            frame_header = pong_header masking_key payload_len
        in do {
          (written, tx) \<leftarrow> ringbuffer_write (ws_tx_ring ws) (Some frame_header);
          let ws1 = ws\<lparr>ws_tx_ring := tx\<rparr>;
          if written \<noteq> length frame_header then Some (-1, ws1, w1)
          else if 0 < payload_len then
            let (ok, w2) = os_malloc os payload_len w1 in
            if \<not> ok then Some (-1, ws1, w2)
            else do {
              p \<leftarrow> payload;
              (written, tx) \<leftarrow> ringbuffer_write (ws_tx_ring ws1) (Some (apply_mask masking_key p));
              let ws2 = ws1\<lparr>ws_tx_ring := tx\<rparr>;
              if written \<noteq> payload_len then Some (-1, ws2, w2)
              else map_option (\<lambda>(ws3, w3). (0, ws3, w3)) (ws_transmit os ws2 w2)
            }
          else map_option (\<lambda>(ws2, w2). (0, ws2, w2)) (ws_transmit os ws1 w1)
        })"

definition count_sent :: "size_t \<Rightarrow> WebSocket \<Rightarrow> WebSocket" where
  "count_sent len ws =
     ws\<lparr>ws_metrics := (ws_metrics ws)\<lparr>messages_sent := add64 (messages_sent (ws_metrics ws)) 1,
                                     bytes_sent := add64 (bytes_sent (ws_metrics ws)) len\<rparr>\<rparr>"

definition websocket_send ::
  "('w, 'z) ws_os_scheme \<Rightarrow> WebSocket \<Rightarrow> byte list option \<Rightarrow> bool \<Rightarrow> 'w \<Rightarrow> (int \<times> WebSocket \<times> 'w) option" where
  "websocket_send os ws data is_text w =
     (case data of
        None \<Rightarrow> Some (-1, ws, w)
      | Some d \<Rightarrow>
          if d = [] \<or> ws_state ws \<noteq> WS_STATE_CONNECTED then Some (-1, ws, w)
          else
            let frame_header = send_header is_text (length d) in
            do {
              (written, tx) \<leftarrow> ringbuffer_write (ws_tx_ring ws) (Some frame_header);
              let ws1 = ws\<lparr>ws_tx_ring := tx\<rparr>;
              if written \<noteq> length frame_header then Some (-1, ws1, w)
              else do {
                (written, tx) \<leftarrow> ringbuffer_write (ws_tx_ring ws1) (Some d);
                let ws2 = ws1\<lparr>ws_tx_ring := tx\<rparr>;
                if written \<noteq> length d then Some (-1, ws2, w)
                else map_option (\<lambda>(ws3, w3). (0, ws3, w3)) (ws_transmit os (count_sent (length d) ws2) w)
              }
            })"

subsection \<open>Receiving frames\<close>

definition get_frame_from_pool :: "WebSocket \<Rightarrow> (int \<times> WSFrame \<times> WebSocket) option" where
  "get_frame_from_pool ws =
     (let idx = (ws_frame_pool_idx ws + 1) mod 16 in
      do {
        old \<leftarrow> arr_get (ws_frame_pool ws) idx;
        let frame = zero_frame\<lparr>f_header_size := f_header_size old\<rparr>;
        pool \<leftarrow> arr_set (ws_frame_pool ws) idx frame;
        Some (idx, frame, ws\<lparr>ws_frame_pool := pool, ws_frame_pool_idx := idx\<rparr>)
      })"

definition store_frame :: "int \<Rightarrow> WSFrame \<Rightarrow> WebSocket \<Rightarrow> WebSocket option" where
  "store_frame idx frame ws = map_option (\<lambda>pool. ws\<lparr>ws_frame_pool := pool\<rparr>) (arr_set (ws_frame_pool ws) idx frame)"

definition count_parse_error :: "WebSocket \<Rightarrow> WebSocket" where
  "count_parse_error ws = ws\<lparr>ws_frame_parse_errors := (ws_frame_parse_errors ws + 1) mod 2 ^ 32\<rparr>"

definition count_error :: "WebSocket \<Rightarrow> WebSocket" where
  "count_error ws = ws\<lparr>ws_metrics := (ws_metrics ws)\<lparr>errors_total := add64 (errors_total (ws_metrics ws)) 1\<rparr>\<rparr>"

definition count_received :: "size_t \<Rightarrow> WebSocket \<Rightarrow> WebSocket" where
  "count_received len ws =
     ws\<lparr>ws_metrics := (ws_metrics ws)\<lparr>messages_received := add64 (messages_received (ws_metrics ws)) 1,
                                     bytes_received := add64 (bytes_received (ws_metrics ws)) len\<rparr>\<rparr>"

text \<open>Unmasking in place, in the memory of the receive ring.\<close>

definition unmask_payload :: "WSFrame \<Rightarrow> nat \<Rightarrow> WebSocket \<Rightarrow> WebSocket option" where
  "unmask_payload frame pos ws =
     (if f_mask frame \<noteq> 0 then do {
        p \<leftarrow> mem_read (rb_mem (ws_rx_ring ws)) pos (f_payload_len frame);
        m \<leftarrow> mem_write (rb_mem (ws_rx_ring ws)) pos (apply_mask (f_masking_key frame) p);
        Some (ws\<lparr>ws_rx_ring := (ws_rx_ring ws)\<lparr>rb_mem := m\<rparr>\<rparr>)
      }
      else Some ws)"

text \<open>The latency sample of a message, when the packet has an arrival time.\<close>

definition sample_latency :: "('w, 'z) ws_os_scheme \<Rightarrow> WebSocket \<Rightarrow> 'w \<Rightarrow> (WebSocket \<times> 'w) option" where
  "sample_latency os ws w = do {
     nic_timestamp_ns \<leftarrow> websocket_get_last_nic_timestamp_ns ws;
     if 0 < nic_timestamp_ns then do {
       (now_ns, w1) \<leftarrow> get_time_ns os w;
       let latency_ns = (if nic_timestamp_ns < now_ns then sub64 now_ns nic_timestamp_ns else 0);
       ws1 \<leftarrow> update_latency_sample ws latency_ns;
       Some (ws1, w1)
     }
     else Some (ws, w)
   }"

text \<open>
  The effect of one frame whose payload starts at position \<open>pos\<close> of the ring memory. The
  message callback gets the payload bytes; a payload that does not lie inside the ring memory
  is undefined behaviour.
\<close>

definition process_frame ::
  "('w, 'z) ws_os_scheme \<Rightarrow> WSFrame \<Rightarrow> nat \<Rightarrow> WebSocket \<Rightarrow> 'w \<Rightarrow> (WebSocket \<times> 'w) option" where
  "process_frame os frame pos ws w =
     (if f_opcode frame = WS_OPCODE_TEXT \<or> f_opcode frame = WS_OPCODE_BINARY then do {
        ws1 \<leftarrow> unmask_payload frame pos ws;
        (ws2, w2) \<leftarrow> sample_latency os (count_received (f_payload_len frame) ws1) w;
        if ws_on_message ws2 = 0 then Some (ws2, w2)
        else do {
          payload \<leftarrow> mem_read (rb_mem (ws_rx_ring ws2)) pos (f_payload_len frame);
          cb_message os (ws_on_message ws2) ws2 payload (ws_callback_user_data ws2) w2
        }
      }
      else if f_opcode frame = WS_OPCODE_PING then do {
        ws1 \<leftarrow> unmask_payload frame pos ws;
        (_, ws2, w2) \<leftarrow> websocket_send_pong os ws1
          (mem_read (rb_mem (ws_rx_ring ws1)) pos (f_payload_len frame)) (f_payload_len frame) w;
        Some (ws2, w2)
      }
      else if f_opcode frame = WS_OPCODE_PONG then do {
        (now_ns, w1) \<leftarrow> get_time_ns os w;
        WS_LOG os (ws\<lparr>ws_last_pong_received_ns := now_ns\<rparr>) WS_LOG_DEBUG (bytes_of ''Received heartbeat pong'') w1
      }
      else if f_opcode frame = WS_OPCODE_CLOSE then Some (ws\<lparr>ws_state := WS_STATE_CLOSING\<rparr>, w)
      else Some (ws, w))"

text \<open>
  The loop over the frames, with the number of attempts left. \<open>buf\<close> and \<open>base\<close> are the memory
  and the position that \<open>data\<close> points to; a callback that replaces the ring memory leaves
  \<open>data\<close> dangling.
\<close>

fun process_frames_loop ::
  "('w, 'z) ws_os_scheme \<Rightarrow> nat \<Rightarrow> addr \<Rightarrow> nat \<Rightarrow> size_t \<Rightarrow> size_t \<Rightarrow> size_t \<Rightarrow> WebSocket \<Rightarrow> 'w
   \<Rightarrow> (size_t \<times> WebSocket \<times> 'w) option" where
  "process_frames_loop os 0 buf base len offset total_consumed ws w = Some (total_consumed, ws, w)"
| "process_frames_loop os (Suc attempts) buf base len offset total_consumed ws w =
     (if \<not> offset < len then Some (total_consumed, ws, w)
      else if rb_buf (ws_rx_ring ws) \<noteq> buf then None
      else do {
        (idx, frame0, ws1) \<leftarrow> get_frame_from_pool ws;
        (result, frame) \<leftarrow> neon_parse_ws_frame (Some (drop (base + offset) (rb_mem (ws_rx_ring ws1)))) (len - offset) frame0;
        ws2 \<leftarrow> store_frame idx frame ws1;
        if result = 1 then Some (total_consumed, ws2, w)
        else if result \<noteq> 0 then do {
          (ws3, w3) \<leftarrow> WS_LOG os (count_error (count_parse_error ws2)) WS_LOG_WARN
            (bytes_of ''Frame parse error at offset '' @ decimal offset) w;
          process_frames_loop os attempts buf base len (add64 offset 1) total_consumed ws3 w3
        }
        else
          let frame_size = add64 (f_header_size frame) (f_payload_len frame) in
          if frame_size = 0 \<or> len - offset < frame_size then
            process_frames_loop os attempts buf base len (add64 offset 1) total_consumed (count_parse_error ws2) w
          else
            let frame = frame\<lparr>f_payload := Some (offset + f_header_size frame)\<rparr> in
            do {
              ws3 \<leftarrow> store_frame idx frame ws2;
              (ws4, w4) \<leftarrow> process_frame os frame (base + offset + f_header_size frame) ws3 w;
              process_frames_loop os attempts buf base len (add64 offset frame_size)
                (add64 total_consumed frame_size) ws4 w4
            }
      })"

definition process_frames :: "('w, 'z) ws_os_scheme \<Rightarrow> WebSocket \<Rightarrow> 'w \<Rightarrow> (WebSocket \<times> 'w) option" where
  "process_frames os ws w =
     (let (base, len) = ringbuffer_read_inline (ws_rx_ring ws) in
      if len = 0 \<or> rb_buf (ws_rx_ring ws) = 0 then Some (ws, w)
      else do {
        (total_consumed, ws1, w1) \<leftarrow> process_frames_loop os 1000 (rb_buf (ws_rx_ring ws)) base len 0 0 ws w;
        if 0 < total_consumed then do {
          new_rp \<leftarrow> umod (add64 (rb_read_ptr (ws_rx_ring ws1)) total_consumed) (rb_size (ws_rx_ring ws1));
          Some (ws1\<lparr>ws_rx_ring := (ws_rx_ring ws1)\<lparr>rb_read_ptr := new_rp\<rparr>\<rparr>, w1)
        }
        else Some (ws1, w1)
      })"

end
