(* ===== verification/Ws_Client.thy ===== *)
theory Ws_Client
  imports Ws_Core
begin

text \<open>
  The life cycle of a connection in \<^verbatim>\<open>src/src/websocket.c\<close>, and \<open>websocket_process\<close>, one turn of
  the event loop. One loop of it may not end; \<open>drain_frames\<close> is a partial function, and \<open>None\<close>
  is its result when it runs forever or into undefined behaviour.
\<close>

subsection \<open>Creation and destruction\<close>

definition zero_ring :: RingBuffer where
  "zero_ring = \<lparr>rb_buf = 0, rb_mem = [], rb_size = 0, rb_read_ptr = 0, rb_write_ptr = 0, rb_locked = False\<rparr>"

definition default_reconnect_config :: WSReconnectConfig where
  "default_reconnect_config = \<lparr>auto_reconnect = False, max_retries = 0, initial_backoff_ms = 100,
     max_backoff_ms = 30000, backoff_multiplier = round_double 2, reset_backoff_on_success = True\<rparr>"

definition zero_heartbeat_config :: WSHeartbeatConfig where
  "zero_heartbeat_config = \<lparr>enable_heartbeat = False, ping_interval_ms = 0, pong_timeout_ms = 0,
     on_heartbeat_timeout = 0, heartbeat_user_data = 0\<rparr>"

definition fresh_websocket :: "u64 list option \<Rightarrow> WebSocket" where
  "fresh_websocket samples =
     \<lparr>ws_state = WS_STATE_CLOSED, ws_fd = -1, ws_ssl_ctx = None, ws_io_ctx = None,
      ws_rx_ring = zero_ring, ws_tx_ring = zero_ring, ws_on_message = 0, ws_on_error = 0,
      ws_callback_user_data = 0, ws_user_data = 0, ws_url = None, ws_host = [], ws_path = [],
      ws_port = 0, ws_use_ssl = False, ws_cert_validation_disabled = False,
      ws_sec_websocket_key = [], ws_socket_index = -1, ws_frame_pool = replicate 16 zero_frame,
      ws_frame_pool_idx = 0, ws_frame_parse_errors = 0, ws_metrics = zero_metrics,
      ws_metrics_last_report_ns = 0, ws_connection_start_ns = 0, ws_latency_samples = samples,
      ws_latency_sample_count = 0,
      ws_latency_sample_capacity = (case samples of None \<Rightarrow> 0 | Some _ \<Rightarrow> 1000),
      ws_latency_sample_idx = 0, ws_on_metrics = 0, ws_metrics_user_data = 0, ws_on_health = 0,
      ws_health_user_data = 0, ws_log_callback = 0, ws_log_user_data = 0,
      ws_current_health = WS_HEALTH_OK, ws_last_health_check_ns = 0, ws_last_metric_reset_ns = 0,
      ws_reconnect_config = default_reconnect_config,
      ws_reconnect_state = \<lparr>reconnect_attempts = 0,
        next_backoff_ms = initial_backoff_ms default_reconnect_config, is_reconnecting = False\<rparr>,
      ws_last_reconnect_attempt_ns = 0, ws_heartbeat_config = zero_heartbeat_config,
      ws_last_ping_sent_ns = 0, ws_last_pong_received_ns = 0\<rparr>"

definition websocket_create :: "('w, 'z) ws_os_scheme \<Rightarrow> 'w \<Rightarrow> WebSocket option \<times> 'w" where
  "websocket_create os w =
     (let (ok, w1) = os_malloc os 1 w in
      if \<not> ok then (None, w1)
      else
        let (ok, w2) = os_malloc os (1000 * 8) w1
        in (Some (fresh_websocket (if ok then Some (replicate 1000 0) else None)), w2))"

definition websocket_close :: "('w, 'z) ws_os_scheme \<Rightarrow> WebSocket \<Rightarrow> 'w \<Rightarrow> (int \<times> WebSocket \<times> 'w) option" where
  "websocket_close os ws w =
     (if ws_state ws = WS_STATE_CLOSED then Some (0, ws, w)
      else do {
        (ws1, w1) \<leftarrow>
          (if 0 \<le> ws_fd ws then do {
             (io, w1) \<leftarrow>
               (case ws_io_ctx ws of
                  Some io \<Rightarrow>
                    if 0 \<le> ws_socket_index ws
                    then map_option (\<lambda>(_, io', w'). (Some io', w')) (io_remove_socket os io (ws_fd ws) w)
                    else Some (Some io, w)
                | None \<Rightarrow> Some (None, w));
             Some (ws\<lparr>ws_io_ctx := io, ws_fd := -1\<rparr>, os_close os (ws_fd ws) (os_shutdown os (ws_fd ws) w1))
           }
           else Some (ws, w));
        Some (0, ws1\<lparr>ws_state := WS_STATE_CLOSED\<rparr>, w1)
      })"

text \<open>\<open>websocket_destroy\<close> frees the object, so that only the world is left.\<close>

definition websocket_destroy :: "('w, 'z) ws_os_scheme \<Rightarrow> WebSocket \<Rightarrow> 'w \<Rightarrow> 'w option" where
  "websocket_destroy os ws w = do {
     (ws1, w1) \<leftarrow>
       (if ws_state ws = WS_STATE_CONNECTED \<or> ws_state ws = WS_STATE_CONNECTING
        then map_option snd (websocket_close os ws w) else Some (ws, w));
     w2 \<leftarrow> (case ws_ssl_ctx ws1 of None \<Rightarrow> Some w1 | Some c \<Rightarrow> ssl_cleanup os c w1);
     w3 \<leftarrow> (case ws_io_ctx ws1 of None \<Rightarrow> Some w2 | Some io \<Rightarrow> map_option snd (io_cleanup os io w2));
     let (_, w4) = ringbuffer_cleanup os (ws_rx_ring ws1) w3;
     let (_, w5) = ringbuffer_cleanup os (ws_tx_ring ws1) w4;
     Some w5
   }"

subsection \<open>Connecting\<close>

definition send_handshake :: "('w, 'z) ws_os_scheme \<Rightarrow> WebSocket \<Rightarrow> 'w \<Rightarrow> (int \<times> WebSocket \<times> 'w) option" where
  "send_handshake os ws w = do {
     (key, w1) \<leftarrow> generate_websocket_key os (ws_sec_websocket_key ws) w;
     let ws1 = ws\<lparr>ws_sec_websocket_key := key\<rparr>;
     let handshake = handshake_text (ws_path ws1) (ws_host ws1) key;
     (written, tx) \<leftarrow> ringbuffer_write (ws_tx_ring ws1) (Some handshake);
     let ws2 = ws1\<lparr>ws_tx_ring := tx\<rparr>;
     if written \<noteq> length handshake then Some (-1, ws2, w1)
     else map_option (\<lambda>(ws3, w3). (0, ws3, w3)) (ws_transmit os ws2 w1)
   }"

text \<open>The code at the label \<open>cleanup\<close>.\<close>

definition connect_cleanup :: "('w, 'z) ws_os_scheme \<Rightarrow> WebSocket \<Rightarrow> 'w \<Rightarrow> (int \<times> WebSocket \<times> 'w) option" where
  "connect_cleanup os ws w =
     (let w1 = (if 0 \<le> ws_fd ws then os_close os (ws_fd ws) w else w);
          ws1 = (if 0 \<le> ws_fd ws then ws\<lparr>ws_fd := -1\<rparr> else ws)
      in do {
        w2 \<leftarrow> (case ws_io_ctx ws1 of None \<Rightarrow> Some w1 | Some io \<Rightarrow> map_option snd (io_cleanup os io w1));
        let (rx, w3) = ringbuffer_cleanup os (ws_rx_ring ws1) w2;
        let (tx, w4) = ringbuffer_cleanup os (ws_tx_ring ws1) w3;
        Some (-1, ws1\<lparr>ws_io_ctx := None, ws_url := None, ws_rx_ring := rx, ws_tx_ring := tx\<rparr>, w4)
      })"

text \<open>The check that timestamps are enabled on the connected socket, and the second attempt to enable them.\<close>

definition verify_timestamp :: "('w, 'z) ws_os_scheme \<Rightarrow> int \<Rightarrow> 'w \<Rightarrow> 'w" where
  "verify_timestamp os fd w =
     (let ((r, timestamp_value), w1) = os_get_timestamp os fd w
      in if r < 0 \<or> timestamp_value = 0 then snd (os_set_timestamp os fd w1) else w1)"

text \<open>The TLS part; \<open>False\<close> is the jump to \<open>cleanup\<close>.\<close>

definition connect_ssl ::
  "('w, 'z) ws_os_scheme \<Rightarrow> bool \<Rightarrow> WebSocket \<Rightarrow> 'w \<Rightarrow> (bool \<times> WebSocket \<times> 'w) option" where
  "connect_ssl os disable_cert_validation ws w =
     (if \<not> ws_use_ssl ws then Some (True, ws, w)
      else
        case ssl_init os disable_cert_validation w of
          (r, None, w1) \<Rightarrow> Some (False, ws, w1)
        | (r, Some c, w1) \<Rightarrow> do {
            (r, c1, w2) \<leftarrow> ssl_connect os c (ws_fd ws) (ws_host ws) w1;
            if r \<noteq> 0 then map_option (\<lambda>w3. (False, ws\<lparr>ws_ssl_ctx := None\<rparr>, w3)) (ssl_cleanup os c1 w2)
            else Some (True, ws\<lparr>ws_ssl_ctx := Some c1\<rparr>, w2)
          })"

text \<open>
  From the socket registration to the request. The user datum registered with the socket is the
  object's own address, which nothing reads; \<open>1\<close> stands for it.
\<close>

definition connect_register ::
  "('w, 'z) ws_os_scheme \<Rightarrow> WebSocket \<Rightarrow> 'w \<Rightarrow> (int \<times> WebSocket \<times> 'w) option" where
  "connect_register os ws w =
     (case ws_io_ctx ws of
        None \<Rightarrow> None
      | Some io \<Rightarrow> do {
          (idx, io1, w1) \<leftarrow> io_add_socket os io (ws_fd ws) (Some Rx) (Some Tx) 1 w;
          let ws1 = ws\<lparr>ws_io_ctx := Some io1, ws_socket_index := idx\<rparr>;
          if idx < 0 then
            if ws_use_ssl ws1 then do {
              w2 \<leftarrow> (case ws_ssl_ctx ws1 of None \<Rightarrow> Some w1 | Some c \<Rightarrow> ssl_cleanup os c w1);
              connect_cleanup os (ws1\<lparr>ws_ssl_ctx := None\<rparr>) w2
            }
            else connect_cleanup os ws1 w1
          else do {
            (r, ws2, w2) \<leftarrow> send_handshake os ws1 w1;
            if r \<noteq> 0 then connect_cleanup os ws2 w2
            else Some (0, ws2\<lparr>ws_state := WS_STATE_CONNECTING\<rparr>, w2)
          }
        })"

definition connect_rings ::
  "('w, 'z) ws_os_scheme \<Rightarrow> WebSocket \<Rightarrow> 'w \<Rightarrow> (bool \<times> WebSocket \<times> 'w) option" where
  "connect_rings os ws w = do {
     (r, rx, w1) \<leftarrow> ringbuffer_init os (ws_rx_ring ws) w;
     let ws1 = ws\<lparr>ws_rx_ring := rx\<rparr>;
     if r \<noteq> 0 then Some (False, ws1, w1)
     else do {
       (r, tx, w2) \<leftarrow> ringbuffer_init os (ws_tx_ring ws1) w1;
       Some (r = 0, ws1\<lparr>ws_tx_ring := tx\<rparr>, w2)
     }
   }"

definition websocket_connect ::
  "('w, 'z) ws_os_scheme \<Rightarrow> WebSocket \<Rightarrow> byte list option \<Rightarrow> bool \<Rightarrow> 'w \<Rightarrow> (int \<times> WebSocket \<times> 'w) option" where
  "websocket_connect os ws url disable_cert_validation w =
     (case url of
        None \<Rightarrow> Some (-1, ws, w)
      | Some u \<Rightarrow>
          let (dup_ok, w1) = os_malloc os (length u + 1) w;
              ws1 = ws\<lparr>ws_url := (if dup_ok then Some u else None), ws_cert_validation_disabled := disable_cert_validation\<rparr>
          in do {
            (r, parts) \<leftarrow> parse_url (Some u) 256 1024
              \<lparr>u_host = ws_host ws1, u_path = ws_path ws1, u_port = ws_port ws1, u_use_ssl = ws_use_ssl ws1\<rparr>;
            let ws2 = ws1\<lparr>ws_host := u_host parts, ws_path := u_path parts, ws_port := u_port parts, ws_use_ssl := u_use_ssl parts\<rparr>;
            if r \<noteq> 0 then Some (-1, ws2\<lparr>ws_url := None\<rparr>, w1)
            else do {
              (ok, ws3, w3) \<leftarrow> connect_rings os ws2 w1;
              if \<not> ok then connect_cleanup os ws3 w3
              else
                let (ok, w4) = os_malloc os 1 w3 in
                if \<not> ok then connect_cleanup os (ws3\<lparr>ws_io_ctx := None\<rparr>) w4
                else
                  let (r, io, w5) = io_init os w4; ws4 = ws3\<lparr>ws_io_ctx := Some io\<rparr> in
                  if r \<noteq> 0 then connect_cleanup os ws4 w5
                  else
                    let (fd, w6) = tcp_connect os (ws_host ws4) (ws_port ws4) w5; ws5 = ws4\<lparr>ws_fd := fd\<rparr> in
                    if fd < 0 then connect_cleanup os ws5 w6
                    else do {
                      (ok, ws6, w7) \<leftarrow> connect_ssl os disable_cert_validation ws5 (verify_timestamp os fd w6);
                      if \<not> ok then connect_cleanup os ws6 w7 else connect_register os ws6 w7
                    }
            }
          })"

subsection \<open>Processing events\<close>

text \<open>
  Driving the TLS handshake: at most twenty rounds of writing and reading; \<open>iterations\<close> counts
  the finished rounds.
\<close>

fun ssl_handshake_loop ::
  "('w, 'z) ws_os_scheme \<Rightarrow> nat \<Rightarrow> nat \<Rightarrow> bool \<Rightarrow> WebSocket \<Rightarrow> 'w \<Rightarrow> (WebSocket \<times> 'w) option" where
  "ssl_handshake_loop os 0 iterations made_progress ws w = Some (ws, w)"
| "ssl_handshake_loop os (Suc n) iterations made_progress ws w = do {
     (wr, ws1, w1) \<leftarrow> ws_ssl_write os ws w;
     (rd, ws2, w2) \<leftarrow> ws_ssl_read os ws1 w1;
     let iterations = iterations + 1;
     if ssl_is_handshake_complete os (ws_ssl_ctx ws2) w2 then Some (ws2, w2)
     else if 0 < rd \<or> 0 < wr then ssl_handshake_loop os n iterations True ws2 w2
     else if rd = 0 \<and> wr = 0 \<and> (made_progress \<or> 5 \<le> iterations) then Some (ws2, w2)
     else if (rd < 0 \<or> wr < 0) \<and> 10 \<le> iterations then Some (ws2, w2)
     else ssl_handshake_loop os n iterations made_progress ws2 w2
   }"

fun ssl_read_tries :: "('w, 'z) ws_os_scheme \<Rightarrow> nat \<Rightarrow> WebSocket \<Rightarrow> 'w \<Rightarrow> (WebSocket \<times> 'w) option" where
  "ssl_read_tries os 0 ws w = Some (ws, w)"
| "ssl_read_tries os (Suc n) ws w = do {
     (r, ws1, w1) \<leftarrow> ws_ssl_read os ws w;
     if r \<le> 0 then Some (ws1, w1) else ssl_read_tries os n ws1 w1
   }"

text \<open>The TLS work of a read event while connecting.\<close>

definition drive_ssl_handshake :: "('w, 'z) ws_os_scheme \<Rightarrow> WebSocket \<Rightarrow> 'w \<Rightarrow> (WebSocket \<times> 'w) option" where
  "drive_ssl_handshake os ws w =
     (if ws_use_ssl ws then do {
        (ws1, w1) \<leftarrow> ssl_handshake_loop os 20 0 False ws w;
        (_, ws2, w2) \<leftarrow> ws_ssl_write os ws1 w1;
        ssl_read_tries os 20 ws2 w2
      }
      else Some (ws, w))"

definition record_connection_start :: "('w, 'z) ws_os_scheme \<Rightarrow> WebSocket \<Rightarrow> 'w \<Rightarrow> (WebSocket \<times> 'w) option" where
  "record_connection_start os ws w =
     (if ws_connection_start_ns ws = 0 then do {
        (now_ns, w1) \<leftarrow> get_time_ns os w;
        let ws1 = ws\<lparr>ws_connection_start_ns := now_ns\<rparr>;
        WS_LOG os ws1 WS_LOG_INFO
          (bytes_of ''WebSocket connected to '' @ ws_host ws1 @ bytes_of '':'' @ int_decimal (ws_port ws1)) w1
      }
      else Some (ws, w))"

definition reset_reconnect_state :: "WebSocket \<Rightarrow> WebSocket" where
  "reset_reconnect_state ws =
     (if reset_backoff_on_success (ws_reconnect_config ws)
      then ws\<lparr>ws_reconnect_state := \<lparr>reconnect_attempts = 0,
             next_backoff_ms = initial_backoff_ms (ws_reconnect_config ws), is_reconnecting = False\<rparr>\<rparr>
      else ws)"

definition register_write_event :: "('w, 'z) ws_os_scheme \<Rightarrow> WebSocket \<Rightarrow> 'w \<Rightarrow> (WebSocket \<times> 'w) option" where
  "register_write_event os ws w =
     (if 0 < ringbuffer_readable (ws_tx_ring ws) then
        (case ws_io_ctx ws of
           None \<Rightarrow> None
         | Some io \<Rightarrow>
             Some (ws, snd (os_kevent_change os (io_kq io)
                              (EV_ADD_ONESHOT EVFILT_WRITE (ws_fd ws) (ws_socket_index ws)) w)))
      else Some (ws, w))"

text \<open>The answer to the opening handshake.\<close>

definition process_handshake :: "('w, 'z) ws_os_scheme \<Rightarrow> WebSocket \<Rightarrow> 'w \<Rightarrow> (WebSocket \<times> 'w) option" where
  "process_handshake os ws w =
     (let (test_data, test_len) = ringbuffer_read_inline (ws_rx_ring ws) in
      if test_len = 0 then Some (ws, w)
      else do {
        (result, rx, w1) \<leftarrow> parse_handshake_response os (ws_rx_ring ws) w;
        let ws1 = ws\<lparr>ws_rx_ring := rx\<rparr>;
        if result = 0 then do {
          (ws2, w2) \<leftarrow> record_connection_start os (ws1\<lparr>ws_state := WS_STATE_CONNECTED\<rparr>) w1;
          register_write_event os (reset_reconnect_state ws2) w2
        }
        else if result < 0 \<and> 200 < test_len then do {
          http \<leftarrow> strstr (drop test_data (rb_mem (ws_rx_ring ws1))) (bytes_of ''HTTP'');
          if http \<noteq> None then do {
            (ws2, w2) \<leftarrow> report_error os ws1 (-1) (bytes_of ''Handshake failed: invalid HTTP response'') w1;
            map_option snd (websocket_close os ws2 w2)
          }
          else Some (ws1, w1)
        }
        else Some (ws1, w1)
      })"

text \<open>The loop that processes frames until the read pointer stands still.\<close>

partial_function (option) drain_frames ::
  "('w, 'z) ws_os_scheme \<Rightarrow> WebSocket \<Rightarrow> 'w \<Rightarrow> (WebSocket \<times> 'w) option" where
  "drain_frames os ws w = do {
     (ws1, w1) \<leftarrow> process_frames os ws w;
     if rb_read_ptr (ws_rx_ring ws1) \<noteq> rb_read_ptr (ws_rx_ring ws) then drain_frames os ws1 w1
     else Some (ws1, w1)
   }"

definition process_event ::
  "('w, 'z) ws_os_scheme \<Rightarrow> kevent \<Rightarrow> WebSocket \<Rightarrow> 'w \<Rightarrow> (WebSocket \<times> 'w) option" where
  "process_event os e ws w =
     (if ke_eof e \<or> ke_error e then
        if ws_state ws = WS_STATE_CONNECTED \<or> ws_state ws = WS_STATE_CONNECTING
        then report_error os (ws\<lparr>ws_state := WS_STATE_CLOSED\<rparr>) (-1) (bytes_of ''Connection closed by peer'') w
        else Some (ws, w)
      else if ke_filter e = EVFILT_READ then do {
        (_, ws1, w1) \<leftarrow> (if ws_use_ssl ws then ws_ssl_read os ws w else ws_io_read os ws (ke_udata e) w);
        if ws_state ws1 = WS_STATE_CONNECTING then do {
          (ws2, w2) \<leftarrow> drive_ssl_handshake os ws1 w1;
          process_handshake os ws2 w2
        }
        else if ws_state ws1 = WS_STATE_CONNECTED then do {
          (ws2, w2) \<leftarrow> process_frames os ws1 w1;
          drain_frames os ws2 w2
        }
        else Some (ws1, w1)
      }
      else Some (ws, w))"

fun process_events ::
  "('w, 'z) ws_os_scheme \<Rightarrow> kevent list \<Rightarrow> WebSocket \<Rightarrow> 'w \<Rightarrow> (WebSocket \<times> 'w) option" where
  "process_events os [] ws w = Some (ws, w)"
| "process_events os (e # es) ws w = do {
     (ws1, w1) \<leftarrow> process_event os e ws w;
     process_events os es ws1 w1
   }"

subsection \<open>Draining the TLS connection\<close>

fun frame_drain :: "('w, 'z) ws_os_scheme \<Rightarrow> nat \<Rightarrow> WebSocket \<Rightarrow> 'w \<Rightarrow> (WebSocket \<times> 'w) option" where
  "frame_drain os 0 ws w = Some (ws, w)"
| "frame_drain os (Suc n) ws w =
     (if ws_state ws \<noteq> WS_STATE_CONNECTED then Some (ws, w)
      else do {
        (ws1, w1) \<leftarrow> process_frames os ws w;
        if rb_read_ptr (ws_rx_ring ws1) = rb_read_ptr (ws_rx_ring ws) then Some (ws1, w1)
        else if ws_state ws1 \<noteq> WS_STATE_CONNECTED then Some (ws1, w1)
        else frame_drain os n ws1 w1
      })"

fun ssl_drain ::
  "('w, 'z) ws_os_scheme \<Rightarrow> nat \<Rightarrow> nat \<Rightarrow> bool \<Rightarrow> WebSocket \<Rightarrow> 'w \<Rightarrow> (WebSocket \<times> 'w) option" where
  "ssl_drain os 0 attempts made_progress ws w = Some (ws, w)"
| "ssl_drain os (Suc n) attempts made_progress ws w =
     (if ws_state ws \<noteq> WS_STATE_CONNECTED then Some (ws, w)
      else do {
        let attempts = attempts + 1;
        (ssl_result, ws1, w1) \<leftarrow> ws_ssl_read os ws w;
        if ws_state ws1 \<noteq> WS_STATE_CONNECTED then process_frames os ws1 w1
        else if 0 < ssl_result then do {
          (ws2, w2) \<leftarrow> process_frames os ws1 w1;
          (ws3, w3) \<leftarrow> frame_drain os 50 ws2 w2;
          ssl_drain os n attempts True ws3 w3
        }
        else if ssl_result = 0 then do {
          (ws2, w2) \<leftarrow> process_frames os ws1 w1;
          if made_progress \<and> attempts < 5 then ssl_drain os n attempts made_progress ws2 w2
          else Some (ws2, w2)
        }
        else do {
          (ws2, w2) \<leftarrow> report_error os (ws1\<lparr>ws_state := WS_STATE_CLOSED\<rparr>) (-1) (bytes_of ''SSL connection closed'') w1;
          process_frames os ws2 w2
        }
      })"

text \<open>What \<open>websocket_process\<close> does after the events: draining, and the periodic checks.\<close>

definition drain_connection :: "('w, 'z) ws_os_scheme \<Rightarrow> WebSocket \<Rightarrow> 'w \<Rightarrow> (WebSocket \<times> 'w) option" where
  "drain_connection os ws w =
     (if ws_state ws = WS_STATE_CONNECTED \<and> ws_use_ssl ws then do {
        (ws1, w1) \<leftarrow> ssl_drain os 200 0 False ws w;
        if ws_state ws1 = WS_STATE_CONNECTED then process_frames os ws1 w1 else Some (ws1, w1)
      }
      else if ws_state ws = WS_STATE_CONNECTED then process_frames os ws w
      else Some (ws, w))"

definition periodic_checks :: "('w, 'z) ws_os_scheme \<Rightarrow> WebSocket \<Rightarrow> 'w \<Rightarrow> (WebSocket \<times> 'w) option" where
  "periodic_checks os ws w =
     (if ws_state ws = WS_STATE_CONNECTED then do {
        (ws1, w1) \<leftarrow> check_health os ws w;
        (ws2, w2) \<leftarrow> report_metrics_if_needed os ws1 w1;
        check_heartbeat os ws2 w2
      }
      else Some (ws, w))"

definition websocket_process :: "('w, 'z) ws_os_scheme \<Rightarrow> WebSocket \<Rightarrow> 'w \<Rightarrow> (int \<times> WebSocket \<times> 'w) option" where
  "websocket_process os ws w =
     (case ws_io_ctx ws of
        None \<Rightarrow> Some (-1, ws, w)
      | Some io \<Rightarrow> do {
          (event_count, events, w1) \<leftarrow> io_poll os io IO_MAX_SOCKETS 10 w;
          if event_count < 0 then Some (-1, ws, w1)
          else do {
            (ws1, w2) \<leftarrow> process_events os events ws w1;
            (ws2, w3) \<leftarrow> drain_connection os ws1 w2;
            (ws3, w4) \<leftarrow> periodic_checks os ws2 w3;
            Some (event_count, ws3, w4)
          }
        })"

end
