(* ===== verification/Ws_Demo.thy ===== *)
theory Ws_Demo
  imports Ws_Client Handshake_Props
begin

text \<open>
  An instance of the system with callbacks that record what they are given, and a connected
  object with one plain socket, for the concrete runs of the property theories.
\<close>

definition demo_note :: "byte list \<Rightarrow> WebSocket \<Rightarrow> demo_world \<Rightarrow> (WebSocket \<times> demo_world) option" where
  "demo_note m ws w = Some (ws, w\<lparr>dw_messages := dw_messages w @ [m]\<rparr>)"

definition demo_ws_os :: "demo_world ws_os" where
  "demo_ws_os = net_os.extend demo_net_os (ws_os.fields (\<lambda>cb ws d u w. demo_note d ws w)
     (\<lambda>cb ws c m u w. demo_note m ws w) (\<lambda>cb ws m u w. demo_note [] ws w) (\<lambda>cb ws h r u w. demo_note r ws w)
     (\<lambda>cb ws l m u w. Some (ws, w)) (\<lambda>cb ws u w. demo_note [] ws w))"

lemmas demo_ws_os_simps = demo_ws_os_def demo_net_os_def demo_tls net_os.defs ws_os.defs

definition demo_ws_io :: "ring_id IOContext" where
  "demo_ws_io = \<lparr>io_kq = 3,
     io_sockets = \<lparr>so_fd = 5, so_rx_ring = Some Rx, so_tx_ring = Some Tx, so_user_data = 0,
        so_last_nic_timestamp_ns = 0, so_last_nic_timestamp_ticks = 0\<rparr> # replicate 63 zero_socket,
     io_socket_count = 1, io_e_core_pinned = 0\<rparr>"

definition demo_ring :: "byte list \<Rightarrow> RingBuffer" where
  "demo_ring d = \<lparr>rb_buf = 128, rb_mem = d @ replicate 64 0, rb_size = length d + 64, rb_read_ptr = 0,
     rb_write_ptr = length d, rb_locked = False\<rparr>"

definition demo_ws :: "byte list \<Rightarrow> WebSocket" where
  "demo_ws d = (fresh_websocket (Some (replicate 1000 0)))\<lparr>ws_state := WS_STATE_CONNECTED, ws_fd := 5,
     ws_io_ctx := Some demo_ws_io, ws_rx_ring := demo_ring d, ws_tx_ring := demo_ring [],
     ws_on_message := 1, ws_socket_index := 0\<rparr>"

lemma demo_ring_simps [simp]:
  "length d < 2 ^ 60 \<Longrightarrow> rb_inv (demo_ring d)" "rb_list (demo_ring d) = d" "rb_buf (demo_ring d) = 128"
  "rb_read_ptr (demo_ring d) = 0" "rb_write_ptr (demo_ring d) = length d" "rb_size (demo_ring d) = length d + 64"
  by (simp_all add: demo_ring_def rb_inv_def rb_list_def ring_list_def)

lemmas demo_ws_simps = demo_ws_def fresh_websocket_def

lemma demo_time: "get_time_ns demo_ws_os w = Some (41666, w)"
  by (simp add: get_time_ns_def demo_ws_os_simps mul64_def udiv_def)

end
