(* ===== verification/Observe_Props.thy ===== *)
theory Observe_Props
  imports Ws_Demo "HOL-Library.Multiset"
begin

text \<open>
  The properties of metrics, health, reconnection and heartbeat: the rolling window of latency
  samples, the sort and the percentiles, the thresholds of the health status, the backoff, and
  the detection of a silent peer.
\<close>

subsection \<open>The latency window\<close>

definition latency_inv :: "WebSocket \<Rightarrow> bool" where
  "latency_inv ws \<longleftrightarrow>
     ws_latency_sample_capacity ws \<le> 1000 \<and>
     ws_latency_sample_count ws \<le> ws_latency_sample_capacity ws \<and>
     (0 < ws_latency_sample_capacity ws \<longrightarrow> ws_latency_sample_idx ws < ws_latency_sample_capacity ws) \<and>
     (ws_latency_sample_count ws < ws_latency_sample_capacity ws \<longrightarrow>
        ws_latency_sample_idx ws = ws_latency_sample_count ws) \<and>
     (\<forall>s. ws_latency_samples ws = Some s \<longrightarrow> length s = ws_latency_sample_capacity ws) \<and>
     (ws_latency_samples ws = None \<longrightarrow> ws_latency_sample_count ws = 0)"

text \<open>The samples of the window, oldest first.\<close>

definition latency_window :: "WebSocket \<Rightarrow> u64 list" where
  "latency_window ws =
     (case ws_latency_samples ws of
        None \<Rightarrow> []
      | Some s \<Rightarrow>
          if ws_latency_sample_count ws < ws_latency_sample_capacity ws then take (ws_latency_sample_count ws) s
          else drop (ws_latency_sample_idx ws) s @ take (ws_latency_sample_idx ws) s)"

lemma latency_window_length: "latency_inv ws \<Longrightarrow> length (latency_window ws) = ws_latency_sample_count ws"
  by (auto simp: latency_inv_def latency_window_def split: option.splits)

lemma latency_window_mset:
  assumes "latency_inv ws" and "ws_latency_samples ws = Some s"
  shows "mset (latency_window ws) = mset (take (ws_latency_sample_count ws) s)"
  using assms mset_append [of "take (ws_latency_sample_idx ws) s" "drop (ws_latency_sample_idx ws) s"]
  by (auto simp: latency_window_def latency_inv_def add.commute)

lemma window_step_full:
  assumes "i < length s"
  shows "drop (Suc i) s @ take i s @ [x] = tl (drop i s @ take i s) @ [x]"
  using assms by (simp add: Cons_nth_drop_Suc [symmetric])

lemma latency_update:
  assumes "latency_inv ws" and "ws_latency_samples ws = Some s" and "0 < ws_latency_sample_capacity ws"
  obtains ws' where "update_latency_sample ws x = Some ws'" and "latency_inv ws'"
    and "latency_window ws' =
      (let h = latency_window ws @ [x] in drop (length h - ws_latency_sample_capacity ws) h)"
    and "ws_latency_sample_capacity ws' = ws_latency_sample_capacity ws"
proof -
  define i n c where "i = ws_latency_sample_idx ws" and "n = ws_latency_sample_capacity ws"
    and "c = ws_latency_sample_count ws"
  note d = i_def [symmetric] n_def [symmetric] c_def [symmetric]
  have inv: "n \<le> 1000" "c \<le> n" "i < n" "c < n \<Longrightarrow> i = c" "length s = n"
    using assms by (auto simp: latency_inv_def d)
  let ?i' = "Suc i mod n" and ?c' = "if c < n then Suc c else c"
  let ?ws' = "ws\<lparr>ws_latency_samples := Some (s[i := x]), ws_latency_sample_idx := ?i', ws_latency_sample_count := ?c'\<rparr>"
  have u: "update_latency_sample ws x = Some ?ws'"
    using assms(2,3) inv by (simp add: update_latency_sample_def mem_simps arith64 d)
  have "(if Suc i = n then 0 else Suc i) = ?i'"
    using inv(3) by (auto simp: Suc_lessI)
  then have i': "?i' = (if Suc i = n then 0 else Suc i)" by (rule sym)
  have inv': "latency_inv ?ws'"
    unfolding latency_inv_def using inv by (auto simp: d i')
  have "latency_window ?ws' = (let h = latency_window ws @ [x] in drop (length h - n) h)"
  proof (cases "c < n")
    case True
    then have i: "i = c" by (rule inv(4))
    have w: "latency_window ws = take c s"
      using True assms(2) by (simp add: latency_window_def d)
    have r: "(let h = latency_window ws @ [x] in drop (length h - n) h) = take c s @ [x]"
      using True inv(5) by (simp add: w)
    have "latency_window ?ws' = take c s @ [x]"
    proof (cases "Suc c = n")
      case True
      then have "s[c := x] = take c s @ [x]" "Suc c mod n = 0"
        using inv(5) by (simp_all add: upd_conv_take_nth_drop)
      then show ?thesis
        using True \<open>c < n\<close> unfolding latency_window_def i by (simp add: d)
    next
      case False
      with True inv(5) show ?thesis
        unfolding latency_window_def i by (simp add: d take_Suc_conv_app_nth)
    qed
    then show ?thesis using r by (rule trans [OF _ sym])
  next
    case False
    then have c: "c = n" using inv(2) by simp
    have w: "latency_window ws = drop i s @ take i s"
      using False assms(2) by (simp add: latency_window_def d)
    have "latency_window ?ws' = drop ?i' (s[i := x]) @ take ?i' (s[i := x])"
      by (simp add: latency_window_def d c)
    also have "\<dots> = drop (Suc i) s @ take i s @ [x]"
      using inv by (auto simp: i' take_Suc_conv_app_nth upd_conv_take_nth_drop)
    finally show ?thesis
      using inv(3,5) by (simp add: w Let_def window_step_full drop_Suc)
  qed
  with u inv' show ?thesis
    by (intro that [of ?ws']) (simp_all add: d)
qed

subsection \<open>Sorting and percentiles\<close>

lemma bubble_inner_append:
  "bubble_inner xs (is @ js) = do { ys \<leftarrow> bubble_inner xs is; bubble_inner ys js }"
  by (induction "is" arbitrary: xs) (simp_all add: bind_assoc)

text \<open>One pass moves the maximum of the prefix to its end and leaves the rest alone.\<close>

lemma bubble_inner_pass:
  assumes "m < length xs"
  shows "\<exists>ys. bubble_inner xs [0..<m] = Some ys \<and> length ys = length xs \<and>
    mset (take (Suc m) ys) = mset (take (Suc m) xs) \<and> drop (Suc m) ys = drop (Suc m) xs \<and>
    (\<forall>a \<in> set (take (Suc m) ys). a \<le> ys ! m)"
  using assms
proof (induction m)
  case 0
  then show ?case
    by (auto simp: take_Suc hd_conv_nth)
next
  case (Suc m)
  then obtain ys where ys: "bubble_inner xs [0..<m] = Some ys" "length ys = length xs"
      "mset (take (Suc m) ys) = mset (take (Suc m) xs)" "drop (Suc m) ys = drop (Suc m) xs"
      "\<forall>a \<in> set (take (Suc m) ys). a \<le> ys ! m"
    by auto
  define a b where "a = ys ! m" and "b = ys ! Suc m"
  have m: "m < length ys" "Suc m < length ys" using Suc.prems ys(2) by simp_all
  define zs where "zs = (if b < a then ys[m := b, Suc m := a] else ys)"
  have step: "bubble_inner xs [0..<Suc m] = Some zs"
    using m ys(1) by (simp add: bubble_inner_append mem_simps zs_def a_def b_def nat_add_distrib)
  have p: "ys = take m ys @ a # b # drop (Suc (Suc m)) ys"
    using m by (simp add: a_def b_def id_take_nth_drop [symmetric] Cons_nth_drop_Suc)
  have z: "zs = take m ys @ min a b # max a b # drop (Suc (Suc m)) ys"
  proof (cases "b < a")
    case True
    have "zs = (take m ys @ a # b # drop (Suc (Suc m)) ys)[m := b, Suc m := a]"
      using True p by (simp add: zs_def)
    then show ?thesis
      using True m by (simp add: list_update_append min_def max_def)
  next
    case False
    then show ?thesis
      using p by (simp add: zs_def min_def max_def)
  qed
  have t: "take (Suc m) ys = take m ys @ [a]" "take (Suc (Suc m)) ys = take m ys @ [a, b]"
    using m by (simp_all add: take_Suc_conv_app_nth a_def b_def)
  have tz: "take (Suc (Suc m)) zs = take m ys @ [min a b, max a b]"
    using m by (simp add: z)
  have "take (Suc (Suc m)) xs = take (Suc m) xs @ [b]"
    using m ys(2,4) by (simp add: take_Suc_conv_app_nth b_def) (metis hd_drop_conv_nth)
  then have "mset (take (Suc (Suc m)) zs) = mset (take (Suc (Suc m)) xs)"
    using ys(3) by (simp add: tz t(1) [symmetric] flip: ys(3)) (simp add: t min_def max_def add_mset_commute)
  moreover have "drop (Suc (Suc m)) zs = drop (Suc (Suc m)) xs"
    using m ys(4) by (simp add: z) (metis drop_Suc tl_drop)
  moreover have "zs ! Suc m = max a b"
    using m by (simp add: z nth_append)
  moreover have "\<forall>c \<in> set (take m ys). c \<le> a"
    using ys(5) t(1) by (simp add: a_def)
  moreover have "length zs = length xs"
    using ys(2) by (simp add: zs_def)
  ultimately show ?case
    using step by (intro exI [of _ zs]) (auto simp: tz)
qed

lemma bubble_outer_append:
  "bubble_outer n xs (is @ js) = do { ys \<leftarrow> bubble_outer n xs is; bubble_outer n ys js }"
  by (induction "is" arbitrary: xs) (simp_all add: bind_assoc)

text \<open>After \<open>i\<close> passes the last \<open>i\<close> elements are in their final places.\<close>

lemma bubble_outer_passes:
  assumes "length xs = n" and "i < n"
  shows "\<exists>ys. bubble_outer n xs [0..<i] = Some ys \<and> length ys = n \<and> mset ys = mset xs \<and>
    sorted (drop (n - i) ys) \<and> (\<forall>a \<in> set (take (n - i) ys). \<forall>b \<in> set (drop (n - i) ys). a \<le> b)"
  using assms(2)
proof (induction i)
  case 0
  with assms(1) show ?case by simp
next
  case (Suc i)
  then have "i < n" by simp
  from Suc.IH [OF this] obtain ys where ys: "bubble_outer n xs [0..<i] = Some ys" "length ys = n" "mset ys = mset xs"
      "sorted (drop (n - i) ys)" "\<forall>a \<in> set (take (n - i) ys). \<forall>b \<in> set (drop (n - i) ys). a \<le> b"
    by (elim exE conjE)
  define m where "m = n - Suc i"
  have m: "m < length ys" "Suc m = n - i" "n - i - 1 = m"
    using Suc.prems ys(2) by (simp_all add: m_def)
  from bubble_inner_pass [OF m(1), unfolded ys(2)] obtain zs where zs: "bubble_inner ys [0..<m] = Some zs" "length zs = n"
      "mset (take (Suc m) zs) = mset (take (Suc m) ys)" "drop (Suc m) zs = drop (Suc m) ys"
      "\<forall>a \<in> set (take (Suc m) zs). a \<le> zs ! m"
    by (elim exE conjE)
  have "mset zs = mset (take (Suc m) zs @ drop (Suc m) zs)"
    by simp
  also have "\<dots> = mset (take (Suc m) ys @ drop (Suc m) ys)"
    unfolding mset_append zs(3,4) ..
  finally have ms: "mset zs = mset xs"
    using ys(3) by simp
  have st: "set (take (Suc m) zs) = set (take (Suc m) ys)"
    using zs(3) by (rule mset_eq_setD)
  have dz: "drop m zs = zs ! m # drop (Suc m) ys"
    using m(1) ys(2) zs(2,4) by (metis Cons_nth_drop_Suc)
  have in_t: "zs ! m \<in> set (take (Suc m) zs)"
    using m(1) ys(2) zs(2) by (simp add: take_Suc_conv_app_nth)
  note ys' = ys(4,5) [folded m(2)]
  have so: "sorted (drop m zs)"
    unfolding dz using ys' in_t [unfolded st] by simp
  have le: "a \<le> b" if "a \<in> set (take m zs)" "b \<in> set (drop m zs)" for a b
  proof -
    have a: "a \<in> set (take (Suc m) zs)"
      using that(1) set_take_subset_set_take [of m "Suc m" zs] by auto
    show ?thesis
      using that(2) a [unfolded st] zs(5) ys'(2) a unfolding dz by auto
  qed
  have "bubble_outer n xs [0..<Suc i] = Some zs"
    using ys(1) zs(1) m(3) by (simp add: bubble_outer_append)
  then show ?case
    unfolding m_def [symmetric] by (intro exI [of _ zs] conjI ballI zs(2) ms so le)
qed

lemma bubble_sort_correct:
  assumes "length xs = n" and "0 < n"
  shows "bubble_outer n xs [0..<n - 1] = Some (sort xs)"
proof -
  obtain ys where ys: "bubble_outer n xs [0..<n - 1] = Some ys" "length ys = n" "mset ys = mset xs"
      "sorted (drop 1 ys)" "\<forall>a \<in> set (take 1 ys). \<forall>b \<in> set (drop 1 ys). a \<le> b"
    using bubble_outer_passes [OF assms(1), of "n - 1"] assms(2) by auto
  then have "sorted ys"
    by (cases ys) simp_all
  with ys(3) have "sort xs = ys"
    by (intro properties_for_sort) simp_all
  with ys(1) show ?thesis by simp
qed

text \<open>
  C34. The latency window is a bounded history: recording a sample never leaves the array, keeps
  the invariant of the window, and makes the window hold the last samples recorded, as many as
  its capacity, in the order they were recorded.
\<close>

theorem latency_window_rolls:
  assumes "latency_inv ws" and "ws_latency_samples ws = Some s" and "0 < ws_latency_sample_capacity ws"
  shows "\<exists>ws'. update_latency_sample ws x = Some ws' \<and> latency_inv ws' \<and>
    latency_window ws' =
      (let h = latency_window ws @ [x] in drop (length h - ws_latency_sample_capacity ws) h)"
  using latency_update [OF assms, of x] by blast

theorem latency_window_rolls_witness:
  "\<exists>ws'. update_latency_sample (demo_ws []) 7 = Some ws' \<and> latency_window ws' = [7]"
proof -
  have "latency_inv (demo_ws [])" "ws_latency_samples (demo_ws []) = Some (replicate 1000 0)"
    "latency_window (demo_ws []) = []" "ws_latency_sample_capacity (demo_ws []) = 1000"
    by (simp_all add: latency_inv_def latency_window_def demo_ws_simps)
  with latency_window_rolls [of "demo_ws []" "replicate 1000 0" 7] show ?thesis
    by auto
qed

text \<open>
  C35. The percentiles are those of the sorted window: with room for the temporary array, the two
  values are the samples at positions \<open>n div 2\<close> and \<open>99 n div 100\<close> of the sorted window of
  \<open>n\<close> samples; the rounding of \<open>0.99\<close> and of the product never changes the position.
\<close>

theorem latency_percentiles_correct:
  assumes "latency_inv ws" and "ws_latency_samples ws = Some s" and "latency_window ws \<noteq> []"
    and "os_malloc os (length (latency_window ws) * 8) w = (True, w')"
  shows "calculate_latency_percentiles os ws w =
    (let v = sort (latency_window ws); n = length v
     in Some (fp_of_nat (v ! (n div 2)), fp_of_nat (v ! (99 * n div 100)), w'))"
proof -
  define c where "c = ws_latency_sample_count ws"
  have "length (latency_window ws) = c"
    using latency_window_length [OF assms(1)] by (simp add: c_def)
  with assms(3) have "0 < c"
    by (metis length_greater_0_conv)
  then have c: "0 < c" "c \<le> 1000" "c \<le> length s"
    using assms(1,2) by (auto simp: latency_inv_def c_def)
  have so: "sort (take c s) = sort (latency_window ws)"
    using latency_window_mset [OF assms(1,2)] by (intro properties_for_sort) (simp_all add: c_def)
  have b: "bubble_outer c (take c s) [0..<c - 1] = Some (sort (latency_window ws))"
    using bubble_sort_correct [of "take c s" c] c so by simp
  have p: "percentile_index c (round_double (1 / 2)) = Some (c div 2)"
    "percentile_index c (round_double (99 / 100)) = Some (99 * c div 100)"
    unfolding percentile_index_def using c by (simp_all only: truncate_99_percent) (rule truncate_half, simp)
  have l: "length (sort (latency_window ws)) = c"
    using latency_window_length [OF assms(1)] by (simp add: c_def)
  have "mul64 c 8 = length (latency_window ws) * 8" "c div 2 < c" "99 * c div 100 < c"
    using c latency_window_length [OF assms(1)] by (simp_all add: arith64 c_def)
  with c assms(2,4) b p l show ?thesis
    by (simp add: calculate_latency_percentiles_def c_def [symmetric] mem_simps Let_def)
qed

theorem latency_percentiles_correct_witness:
  "\<exists>ws. update_latency_sample (demo_ws []) 9 = Some ws \<and>
     (\<exists>w. calculate_latency_percentiles demo_ws_os ws (demo_start [] []) = Some (Fin 9, Fin 9, w))"
proof -
  have "latency_inv (demo_ws [])" "ws_latency_samples (demo_ws []) = Some (replicate 1000 0)"
    "latency_window (demo_ws []) = []" "ws_latency_sample_capacity (demo_ws []) = 1000"
    by (simp_all add: latency_inv_def latency_window_def demo_ws_simps)
  then obtain ws where ws: "update_latency_sample (demo_ws []) 9 = Some ws" "latency_inv ws" "latency_window ws = [9]"
    using latency_update [of "demo_ws []" "replicate 1000 0" 9] by auto
  then obtain s where "ws_latency_samples ws = Some s"
    by (auto simp: latency_window_def split: option.splits)
  moreover have "os_malloc demo_ws_os 8 (demo_start [] []) = (True, demo_start [] [])"
    by (simp add: demo_ws_os_simps)
  ultimately show ?thesis
    using ws latency_percentiles_correct [OF ws(2), of s demo_ws_os "demo_start [] []"]
    by (auto simp: fp_of_nat_exact Let_def)
qed

subsection \<open>Health\<close>

lemma utilization_exact:
  assumes "rb_inv a" and "rb_inv b" and "rb_size a = RINGBUFFER_SIZE" and "rb_size b = RINGBUFFER_SIZE"
  shows "fp_div (fp_add (ring_utilization a) (ring_utilization b)) (round_double 2) =
    Fin (of_nat (length (rb_list a) + length (rb_list b)) / 2 ^ 24)"
proof -
  have le: "length (rb_list a) < 2 ^ 23" "length (rb_list b) < 2 ^ 23"
    using assms(3,4) length_rb_list_capacity [OF assms(1)] length_rb_list_capacity [OF assms(2)]
    by (simp_all add: rb_capacity_def RINGBUFFER_SIZE_def)
  have u: "ring_utilization rb = Fin (of_nat (length (rb_list rb)) / 2 ^ 23)"
    if "rb_inv rb" "rb_size rb = RINGBUFFER_SIZE" "length (rb_list rb) < 2 ^ 23" for rb
    using that round_double_dyadic [of "length (rb_list rb)" 23]
    by (simp add: ring_utilization_def readable_eq fp_of_nat_exact RINGBUFFER_SIZE_def)
  have "round_double (of_nat (length (rb_list a)) / 8388608 + of_nat (length (rb_list b)) / 8388608) =
      Fin (of_nat (length (rb_list a) + length (rb_list b)) / 2 ^ 23)"
    using round_double_dyadic [of "length (rb_list a) + length (rb_list b)" 23] le by (simp add: add_divide_distrib)
  moreover have "round_double 2 = Fin 2"
    by (rule round_double_numeral) simp
  ultimately show ?thesis
    using round_double_dyadic [of "length (rb_list a) + length (rb_list b)" 24] le
    by (simp add: u assms)
qed

lemma dyadic_exceeds_eight_tenths:
  "fp_less (round_double (8 / 10)) (Fin (of_nat n / 2 ^ 24)) \<longleftrightarrow> 8 * 2 ^ 24 < 10 * n"
proof -
  have "fp_less (round_double (8 / 10)) (Fin (of_nat n / 2 ^ 24)) \<longleftrightarrow>
      7205759403792794 / 9007199254740992 < (of_nat n / 16777216 :: rat)"
    unfolding round_double_constants by (simp add: power_int_def power_divide)
  also have "\<dots> \<longleftrightarrow> of_nat 13421772 < (of_nat n :: rat)"
  proof
    assume "of_nat 13421772 < (of_nat n :: rat)"
    then have "of_nat 13421773 \<le> (of_nat n :: rat)"
      unfolding of_nat_less_iff of_nat_le_iff by simp
    then show "7205759403792794 / 9007199254740992 < (of_nat n / 16777216 :: rat)"
      by simp
  qed simp
  also have "\<dots> \<longleftrightarrow> 8 * 2 ^ 24 < 10 * n"
    unfolding of_nat_less_iff by simp presburger
  finally show ?thesis .
qed

text \<open>
  C36. The health status is the exact one: with the percentile and the utilization up to date and
  fewer than \<open>2 ^ 52\<close> messages counted, a connected object is unhealthy if and only if the
  errors exceed a tenth of the messages, otherwise degraded if and only if the percentile exceeds
  100000 or the rings are more than 80 percent full. The rounded constants \<open>0.1\<close> and \<open>0.8\<close>
  and the rounded quotients never change the verdict.
\<close>

theorem health_status_exact:
  assumes "ws_state ws = WS_STATE_CONNECTED"
    and "errors_total (ws_metrics ws) \<le> 2 ^ 53"
    and "messages_received (ws_metrics ws) + messages_sent (ws_metrics ws) \<le> 2 ^ 52"
    and "latency_p99_ns (ws_metrics ws) = fp_of_nat p99" and "p99 < 2 ^ 64"
    and "rb_inv (ws_rx_ring ws)" and "rb_size (ws_rx_ring ws) = RINGBUFFER_SIZE"
    and "rb_inv (ws_tx_ring ws)" and "rb_size (ws_tx_ring ws) = RINGBUFFER_SIZE"
    and "ringbuffer_utilization (ws_metrics ws) =
      fp_div (fp_add (ring_utilization (ws_rx_ring ws)) (ring_utilization (ws_tx_ring ws))) (round_double 2)"
  shows "websocket_get_health (Some ws) =
    (let total_operations = messages_received (ws_metrics ws) + messages_sent (ws_metrics ws);
         used = length (rb_list (ws_rx_ring ws)) + length (rb_list (ws_tx_ring ws))
     in if 0 < total_operations \<and> total_operations < 10 * errors_total (ws_metrics ws) then WS_HEALTH_UNHEALTHY
        else if 100000 < p99 \<or> 8 * (2 * RINGBUFFER_SIZE) < 10 * used then WS_HEALTH_DEGRADED
        else WS_HEALTH_OK)"
proof -
  let ?m = "ws_metrics ws"
  let ?t = "messages_received ?m + messages_sent ?m"
  have t: "add64 (messages_received ?m) (messages_sent ?m) = ?t"
    using assms(3) by (simp add: arith64)
  have r: "fp_less (round_double (1 / 10)) (fp_div (fp_of_nat (errors_total ?m)) (fp_of_nat ?t)) \<longleftrightarrow>
      ?t < 10 * errors_total ?m" if "0 < ?t"
    using rate_exceeds_tenth [OF assms(2) that assms(3)] .
  have "round_double 100000 = fp_of_nat 100000"
    by (simp add: fp_of_nat_def)
  then have p: "fp_less (round_double 100000) (latency_p99_ns ?m) \<longleftrightarrow> 100000 < p99"
    using of_nat_exceeds [of 100000 p99] assms(4,5) by simp
  have u: "fp_less (round_double (8 / 10)) (ringbuffer_utilization ?m) \<longleftrightarrow>
      8 * (2 * RINGBUFFER_SIZE) < 10 * (length (rb_list (ws_rx_ring ws)) + length (rb_list (ws_tx_ring ws)))"
    unfolding assms(10) utilization_exact [OF assms(6,8,7,9)] dyadic_exceeds_eight_tenths
    by (simp add: RINGBUFFER_SIZE_def)
  show ?thesis
    unfolding websocket_get_health_def option.case Let_def t p u using assms(1) r by auto
qed

definition big_ring :: RingBuffer where
  "big_ring = \<lparr>rb_buf = 128, rb_mem = replicate RINGBUFFER_SIZE 0, rb_size = RINGBUFFER_SIZE, rb_read_ptr = 0,
     rb_write_ptr = 0, rb_locked = False\<rparr>"

definition failing_ws :: WebSocket where
  "failing_ws = (demo_ws [])\<lparr>ws_rx_ring := big_ring, ws_tx_ring := big_ring,
     ws_metrics := zero_metrics\<lparr>messages_received := 9, errors_total := 1, latency_p99_ns := fp_of_nat 200000,
       ringbuffer_utilization := fp_div (fp_add (ring_utilization big_ring) (ring_utilization big_ring)) (round_double 2)\<rparr>\<rparr>"

theorem health_status_exact_witness:
  "websocket_get_health (Some failing_ws) = WS_HEALTH_UNHEALTHY \<and>
   websocket_get_health (Some (failing_ws\<lparr>ws_metrics := (ws_metrics failing_ws)\<lparr>messages_received := 10\<rparr>\<rparr>)) = WS_HEALTH_DEGRADED"
proof -
  have r: "rb_inv big_ring" "rb_size big_ring = RINGBUFFER_SIZE"
    by (simp_all add: big_ring_def rb_inv_def RINGBUFFER_SIZE_def)
  show ?thesis
    using health_status_exact [of failing_ws 200000]
      health_status_exact [of "failing_ws\<lparr>ws_metrics := (ws_metrics failing_ws)\<lparr>messages_received := 10\<rparr>\<rparr>" 200000] r
    by (simp add: failing_ws_def demo_ws_simps zero_metrics_def)
qed

subsection \<open>Backoff\<close>

text \<open>The value of \<open>i * 2 ^ k\<close> as a double: exact, or infinite when it is too large.\<close>

definition doubled :: "nat \<Rightarrow> nat \<Rightarrow> fp" where
  "doubled i k = (if i * 2 ^ k < 2 ^ 1024 then Fin (of_nat (i * 2 ^ k)) else Inf False)"

lemma round_double_doubled:
  assumes "i < 2 ^ 53"
  shows "round_double (of_nat (i * 2 ^ k)) = doubled i k"
proof (cases "i = 0")
  case True
  then show ?thesis by (simp add: round_double_def doubled_def)
next
  case False
  let ?q = "of_nat (i * 2 ^ k) :: rat"
  have q: "?q = of_int (int i) * p2 (int k)" "0 < ?q"
    using False by simp_all
  have "of_nat i < (2 ^ 53 :: rat)"
    using assms of_nat_less_iff [of i "2 ^ 53", where 'a = rat] by simp
  then have "?q < p2 (53 + int k)"
    using False by (simp add: p2_add)
  then have "ulp_exponent ?q \<le> int k"
    using ulp_exponent_less [of ?q "53 + int k"] q(2) by simp
  with q have r: "rounded ?q = ?q"
    by (intro rounded_exact [of _ "int i" "int k"]) simp_all
  have "2 ^ 1024 \<le> ?q \<longleftrightarrow> \<not> i * 2 ^ k < 2 ^ 1024"
    using of_nat_le_iff [of "2 ^ 1024" "i * 2 ^ k", where 'a = rat] by (simp only: of_nat_power of_nat_numeral not_less)
  with r q(2) show ?thesis
    unfolding round_double_pos [OF q(2)] r doubled_def by (simp only: abs_of_pos if_not_P split: if_split) auto
qed

lemma backoff_loop_doubled:
  assumes "i < 2 ^ 53"
  shows "backoff_loop n (Fin 2) (doubled i k) = doubled i (k + n)"
proof (induction n arbitrary: k)
  case (Suc n)
  have "fp_mul (doubled i k) (Fin 2) = doubled i (Suc k)"
  proof (cases "i * 2 ^ k < 2 ^ 1024")
    case True
    then have "fp_mul (doubled i k) (Fin 2) = round_double (of_nat (i * 2 ^ Suc k))"
      by (simp add: doubled_def mult.left_commute mult.commute)
    then show ?thesis
      unfolding round_double_doubled [OF assms] .
  next
    case False
    then have "\<not> i * 2 ^ Suc k < 2 ^ 1024"
      by simp
    with False show ?thesis
      by (simp add: doubled_def)
  qed
  with Suc.IH [of "Suc k"] show ?case by simp
qed simp

text \<open>
  C37. The backoff doubles up to its cap. Before the first attempt the delay is the initial one,
  which is not capped. With the multiplier 2 the delay after \<open>n > 0\<close> attempts is the smaller of the
  initial delay times \<open>2 ^ n\<close> and the maximum, as long as that product is a finite double; with an
  initial delay below \<open>2 ^ 32\<close> it is one for at least 992 attempts. (Beyond that the code relies on
  an infinity, and the build compiles it with \<^verbatim>\<open>-ffast-math\<close>, which excludes infinities.)
\<close>

theorem backoff_doubles_to_cap:
  assumes "backoff_multiplier (ws_reconnect_config ws) = Fin 2"
    and "initial_backoff_ms (ws_reconnect_config ws) < 2 ^ 32" and "max_backoff_ms (ws_reconnect_config ws) < 2 ^ 32"
    and "initial_backoff_ms (ws_reconnect_config ws) * 2 ^ reconnect_attempts (ws_reconnect_state ws) < 2 ^ 1024"
  shows "calculate_backoff ws =
    Some (if reconnect_attempts (ws_reconnect_state ws) = 0 then initial_backoff_ms (ws_reconnect_config ws)
          else min (initial_backoff_ms (ws_reconnect_config ws) * 2 ^ reconnect_attempts (ws_reconnect_state ws))
                   (max_backoff_ms (ws_reconnect_config ws)))"
proof -
  define i M n where "i = initial_backoff_ms (ws_reconnect_config ws)"
    and "M = max_backoff_ms (ws_reconnect_config ws)" and "n = reconnect_attempts (ws_reconnect_state ws)"
  note d = i_def [symmetric] M_def [symmetric] n_def [symmetric]
  have i: "i < 2 ^ 53" and M: "M < 2 ^ 32" "M \<le> 2 ^ 53"
    using assms(2,3) by (simp_all add: i_def M_def)
  have f: "fp_of_nat i = doubled i 0" "fp_of_nat M = Fin (of_nat M)"
    using round_double_doubled [OF i, of 0] fp_of_nat_exact [OF M(2)] by (simp_all add: fp_of_nat_def)
  have x: "doubled i n = Fin (of_nat (i * 2 ^ n))"
    using assms(4) by (simp only: doubled_def d if_True)
  have t: "fp_to_unsigned (2 ^ 32) (Fin (of_nat k)) = Some k" if "k < 2 ^ 32" for k
    using that of_nat_less_iff [of k "2 ^ 32", where 'a = rat] by simp
  have "fp_to_unsigned (2 ^ 32) (if fp_less (Fin (of_nat M)) (doubled i n) then Fin (of_nat M) else doubled i n) =
      Some (min (i * 2 ^ n) M)"
    unfolding x fp_less.simps of_nat_less_iff
    using t [OF M(1)] t [of "i * 2 ^ n"] M(1) by (cases "M < i * 2 ^ n") (simp_all only: if_True if_False min_def, simp_all)
  then show ?thesis
    using assms(1) backoff_loop_doubled [OF i, of n 0]
    by (simp only: calculate_backoff_def Let_def d f add_0 split: if_split) simp
qed

theorem backoff_doubles_to_cap_witness:
  "calculate_backoff ((demo_ws [])\<lparr>ws_reconnect_state := \<lparr>reconnect_attempts = 3, next_backoff_ms = 0, is_reconnecting = True\<rparr>\<rparr>) =
     Some 800 \<and>
   calculate_backoff ((demo_ws [])\<lparr>ws_reconnect_state := \<lparr>reconnect_attempts = 10, next_backoff_ms = 0, is_reconnecting = True\<rparr>\<rparr>) =
     Some 30000"
proof -
  have "round_double 2 = Fin 2"
    by (rule round_double_numeral) simp
  then show ?thesis
    using backoff_doubles_to_cap [of "(demo_ws [])\<lparr>ws_reconnect_state := \<lparr>reconnect_attempts = 3, next_backoff_ms = 0, is_reconnecting = True\<rparr>\<rparr>"]
      backoff_doubles_to_cap [of "(demo_ws [])\<lparr>ws_reconnect_state := \<lparr>reconnect_attempts = 10, next_backoff_ms = 0, is_reconnecting = True\<rparr>\<rparr>"]
    by (simp add: demo_ws_simps default_reconnect_config_def)
qed

subsection \<open>Heartbeat\<close>

lemma transmit_keeps:
  assumes "ws_transmit os ws w = Some (ws', w')"
  shows "\<exists>c rx tx. ws' = ws\<lparr>ws_ssl_ctx := c, ws_rx_ring := rx, ws_tx_ring := tx\<rparr>"
proof (cases "ws_use_ssl ws")
  case True
  with assms obtain c rb where "ws' = ws\<lparr>ws_ssl_ctx := c, ws_tx_ring := rb\<rparr>"
    by (auto simp: ws_transmit_def ws_ssl_write_def bind_eq_Some_conv)
  then show ?thesis
    by (intro exI [of _ c] exI [of _ "ws_rx_ring ws"] exI [of _ rb]) simp
next
  case False
  with assms have "ws' = ws \<or> (\<exists>h. ws' = ws_set_rings h ws)"
    by (auto simp: ws_transmit_def ws_io_write_def bind_eq_Some_conv split: option.splits)
  then show ?thesis
  proof
    assume "ws' = ws"
    then show ?thesis
      by (intro exI [of _ "ws_ssl_ctx ws"] exI [of _ "ws_rx_ring ws"] exI [of _ "ws_tx_ring ws"]) simp
  next
    assume "\<exists>h. ws' = ws_set_rings h ws"
    then obtain h where "ws' = ws_set_rings h ws" ..
    then show ?thesis
      by (intro exI [of _ "ws_ssl_ctx ws"] exI [of _ "h Rx"] exI [of _ "h Tx"]) (simp add: ws_set_rings_def)
  qed
qed

text \<open>
  C38. The heartbeat misses a silent peer. Suppose that the ping interval is not longer than the
  pong timeout, the timeout is not zero, the transmit ring has room for the two bytes of a ping, and
  a log callback, if there is one, leaves the object alone. Then the check behaves as if there were
  no timeout test at all, however long the peer has been silent: each due ping restarts the clock
  that the timeout is measured on, and between two pings the timeout has not passed. (A ping that
  does not fit is not recorded, and then the timeout can fire.)
\<close>

theorem heartbeat_timeout_suppressed:
  assumes "ping_interval_ms (ws_heartbeat_config ws) \<le> pong_timeout_ms (ws_heartbeat_config ws)"
    and "0 < pong_timeout_ms (ws_heartbeat_config ws)" and "pong_timeout_ms (ws_heartbeat_config ws) < 2 ^ 32"
    and "enable_heartbeat (ws_heartbeat_config ws)" and "ws_state ws = WS_STATE_CONNECTED"
    and "get_time_ns os w = Some (now_ns, w1)" and "now_ns < 2 ^ 64"
    and "rb_inv (ws_tx_ring ws)" and "2 \<le> ringbuffer_writeable (ws_tx_ring ws)"
    and "\<forall>obj level msg u v obj' v'. ws_log_callback ws \<noteq> 0 \<and>
      cb_log os (ws_log_callback ws) obj level msg u v = Some (obj', v') \<longrightarrow> obj' = obj"
  shows "check_heartbeat os ws w =
    heartbeat_ping os now_ns (ping_interval_ms (ws_heartbeat_config ws) * 1000000) ws w1"
proof -
  let ?i = "ping_interval_ms (ws_heartbeat_config ws) * 1000000"
  let ?t = "pong_timeout_ms (ws_heartbeat_config ws) * 1000000"
  have m: "mul64 (ping_interval_ms (ws_heartbeat_config ws)) 1000000 = ?i"
    "mul64 (pong_timeout_ms (ws_heartbeat_config ws)) 1000000 = ?t"
    using assms(1,3) by (simp_all add: arith64)
  have t: "0 < ?t" "?i \<le> ?t"
    using assms(1,2) by simp_all
  obtain rb' where "ringbuffer_write (ws_tx_ring ws) (Some [0x89, 0x00]) =
      Some (min (length [0x89, 0x00 :: byte]) (rb_capacity (ws_tx_ring ws) - length (rb_list (ws_tx_ring ws))), rb')"
    by (rule ringbuffer_write_law [OF assms(8), of "[0x89, 0x00]"])
  moreover have "2 \<le> rb_capacity (ws_tx_ring ws) - length (rb_list (ws_tx_ring ws))"
    using assms(9) by (simp only: writeable_eq [OF assms(8)])
  ultimately have wr: "ringbuffer_write (ws_tx_ring ws) (Some [0x89, 0x00]) = Some (2, rb')"
    by simp
  have "heartbeat_pong_check os now_ns ?t ws2 w2 = Some (ws2, w2)"
    if p: "heartbeat_ping os now_ns ?i ws w1 = Some (ws2, w2)" for ws2 w2
  proof (cases "ws_last_ping_sent_ns ws = 0 \<or> ?i \<le> sub64 now_ns (ws_last_ping_sent_ns ws)")
    case True
    obtain ws3 w3 where ws3: "ws_transmit os (ws\<lparr>ws_tx_ring := rb'\<rparr>) w1 = Some (ws3, w3)"
      and l: "WS_LOG os (ws3\<lparr>ws_last_ping_sent_ns := now_ns\<rparr>) WS_LOG_DEBUG (bytes_of ''Sent heartbeat ping'') w3 = Some (ws2, w2)"
      using p True wr by (auto simp: heartbeat_ping_def bind_eq_Some_conv)
    have "ws_log_callback ws3 = ws_log_callback ws"
      using transmit_keeps [OF ws3] by auto
    with l have "ws2 = ws3\<lparr>ws_last_ping_sent_ns := now_ns\<rparr> \<or> ws_log_callback ws \<noteq> 0 \<and>
        cb_log os (ws_log_callback ws) (ws3\<lparr>ws_last_ping_sent_ns := now_ns\<rparr>) WS_LOG_DEBUG
          (take 511 (bytes_of ''Sent heartbeat ping'')) (ws_log_user_data ws3) w3 = Some (ws2, w2)"
      by (auto simp: WS_LOG_def split: if_splits)
    with assms(10) have ws2: "ws2 = ws3\<lparr>ws_last_ping_sent_ns := now_ns\<rparr>"
      by blast
    have "sub64 now_ns now_ns = 0"
      using assms(7) by (simp add: arith64)
    with t(1) ws2 show ?thesis
      by (simp add: heartbeat_pong_check_def)
  next
    case False
    with p t(2) show ?thesis
      by (auto simp: heartbeat_ping_def heartbeat_pong_check_def)
  qed
  then show ?thesis
    using assms(4,5,6) m
    by (cases "heartbeat_ping os now_ns ?i ws w1") (auto simp: check_heartbeat_def Let_def)
qed

definition silent_ws :: WebSocket where
  "silent_ws = (demo_ws [])\<lparr>ws_heartbeat_config := \<lparr>enable_heartbeat = True, ping_interval_ms = 0, pong_timeout_ms = 1,
     on_heartbeat_timeout = 1, heartbeat_user_data = 0\<rparr>, ws_last_ping_sent_ns := 1\<rparr>"

theorem heartbeat_timeout_suppressed_witness:
  "check_heartbeat demo_ws_os silent_ws (demo_start [] []) = heartbeat_ping demo_ws_os 41666 0 silent_ws (demo_start [] [])"
proof -
  have "ringbuffer_writeable (ws_tx_ring silent_ws) = 63"
    by (simp add: silent_ws_def demo_ws_def writeable_eq rb_capacity_def)
  then show ?thesis
    using heartbeat_timeout_suppressed [of silent_ws demo_ws_os "demo_start [] []" 41666 "demo_start [] []"] demo_time
    by (simp add: silent_ws_def demo_ws_simps)
qed

end
