(* ===== verification/Receive_Props.thy ===== *)
theory Receive_Props
  imports Observe_Props Frame_Props
begin

text \<open>
  The properties of the receive path: which messages \<open>process_frames\<close> delivers and what it
  leaves in the ring, what one stray byte does, and that the loop that drains the ring ends.
\<close>

subsection \<open>Recording callbacks\<close>

text \<open>
  Callbacks that only observe: the message callback records the payload in the world and leaves
  the object alone, the log callback and the clock do not disturb the record. \<open>inbox\<close> reads
  the record.
\<close>

definition observes :: "('w, 'z) ws_os_scheme \<Rightarrow> ('w \<Rightarrow> byte list list) \<Rightarrow> bool" where
  "observes os inbox \<longleftrightarrow>
     (\<forall>cb ws d u w. \<exists>w'. cb_message os cb ws d u w = Some (ws, w') \<and> inbox w' = inbox w @ [d]) \<and>
     (\<forall>cb ws l m u w. \<exists>w'. cb_log os cb ws l m u w = Some (ws, w') \<and> inbox w' = inbox w) \<and>
     (\<forall>w. inbox (snd (os_absolute_time os w)) = inbox w) \<and> 0 < snd (os_timebase os)"

lemma demo_observes: "observes demo_ws_os dw_messages"
  by (simp add: observes_def demo_ws_os_simps demo_note_def)

lemma observes_time:
  assumes "observes os inbox"
  obtains t w' where "get_time_ns os w = Some (t, w')" and "inbox w' = inbox w"
proof -
  have "inbox (snd (os_absolute_time os w)) = inbox w" "0 < snd (os_timebase os)"
    using assms by (simp_all add: observes_def)
  then show ?thesis
    using that [of "mul64 (fst (os_absolute_time os w)) (fst (os_timebase os)) div snd (os_timebase os)"
        "snd (os_absolute_time os w)"]
    by (simp add: get_time_ns_def split_beta)
qed

lemma observes_log:
  assumes "observes os inbox"
  obtains w' where "WS_LOG os ws l m w = Some (ws, w')" and "inbox w' = inbox w"
proof (cases "ws_log_callback ws = 0")
  case True
  then show ?thesis
    by (intro that [of w]) (simp_all add: WS_LOG_def)
next
  case False
  have "\<exists>w'. cb_log os (ws_log_callback ws) ws l (take 511 m) (ws_log_user_data ws) w = Some (ws, w') \<and> inbox w' = inbox w"
    using assms by (simp add: observes_def)
  with False show ?thesis
    using that by (auto simp: WS_LOG_def)
qed

subsection \<open>The object while receiving\<close>

definition pool_ok :: "WebSocket \<Rightarrow> bool" where
  "pool_ok ws \<longleftrightarrow> length (ws_frame_pool ws) = 16 \<and> 0 \<le> ws_frame_pool_idx ws \<and> ws_frame_pool_idx ws < 16"

definition rx_ok :: "WebSocket \<Rightarrow> bool" where
  "rx_ok ws \<longleftrightarrow> latency_inv ws \<and> pool_ok ws \<and> websocket_get_last_nic_timestamp_ns ws \<noteq> None \<and>
     ws_on_message ws \<noteq> 0 \<and> messages_received (ws_metrics ws) < 2 ^ 64"

lemma latency_inv_cong:
  assumes "ws_latency_sample_capacity ws' = ws_latency_sample_capacity ws"
    and "ws_latency_sample_count ws' = ws_latency_sample_count ws"
    and "ws_latency_sample_idx ws' = ws_latency_sample_idx ws" and "ws_latency_samples ws' = ws_latency_samples ws"
  shows "latency_inv ws' = latency_inv ws"
  using assms by (simp add: latency_inv_def)

lemma update_latency_total:
  assumes "latency_inv ws"
  obtains s i c where
    "update_latency_sample ws x =
       Some (ws\<lparr>ws_latency_samples := s, ws_latency_sample_idx := i, ws_latency_sample_count := c\<rparr>)"
    and "latency_inv (ws\<lparr>ws_latency_samples := s, ws_latency_sample_idx := i, ws_latency_sample_count := c\<rparr>)"
proof (cases "ws_latency_samples ws = None \<or> ws_latency_sample_capacity ws = 0")
  case True
  then have "update_latency_sample ws x = Some ws"
    by (auto simp: update_latency_sample_def split: option.split)
  with assms show ?thesis
    by (intro that [where s = "ws_latency_samples ws" and i = "ws_latency_sample_idx ws" and c = "ws_latency_sample_count ws"]) simp_all
next
  case False
  then obtain s where s: "ws_latency_samples ws = Some s" "0 < ws_latency_sample_capacity ws" by auto
  from latency_update [OF assms s, of x] obtain ws' where u: "update_latency_sample ws x = Some ws'" "latency_inv ws'" .
  then obtain s' i c where "ws' = ws\<lparr>ws_latency_samples := s', ws_latency_sample_idx := i, ws_latency_sample_count := c\<rparr>"
    using s by (auto simp: update_latency_sample_def bind_eq_Some_conv)
  with u show ?thesis
    by (intro that [where s = s' and i = i and c = c]) simp_all
qed

lemma sample_latency_total:
  assumes "observes os inbox" and "latency_inv ws" and "websocket_get_last_nic_timestamp_ns ws \<noteq> None"
  obtains s i c w' where
    "sample_latency os ws w =
       Some (ws\<lparr>ws_latency_samples := s, ws_latency_sample_idx := i, ws_latency_sample_count := c\<rparr>, w')"
    and "latency_inv (ws\<lparr>ws_latency_samples := s, ws_latency_sample_idx := i, ws_latency_sample_count := c\<rparr>)"
    and "inbox w' = inbox w"
proof -
  obtain nic where nic: "websocket_get_last_nic_timestamp_ns ws = Some nic"
    using assms(3) by auto
  show ?thesis
  proof (cases "0 < nic")
    case False
    with nic assms(2) show ?thesis
      by (intro that [where s = "ws_latency_samples ws" and i = "ws_latency_sample_idx ws" and c = "ws_latency_sample_count ws" and w' = w])
        (simp_all add: sample_latency_def)
  next
    case True
    obtain t w' where t: "get_time_ns os w = Some (t, w')" "inbox w' = inbox w"
      using assms(1) by (rule observes_time)
    obtain s i c where "update_latency_sample ws (if nic < t then sub64 t nic else 0) =
        Some (ws\<lparr>ws_latency_samples := s, ws_latency_sample_idx := i, ws_latency_sample_count := c\<rparr>)"
      "latency_inv (ws\<lparr>ws_latency_samples := s, ws_latency_sample_idx := i, ws_latency_sample_count := c\<rparr>)"
      using assms(2) by (rule update_latency_total)
    with True nic t show ?thesis
      by (intro that [where s = s and i = i and c = c and w' = w']) (simp_all add: sample_latency_def)
  qed
qed

subsection \<open>One frame\<close>

text \<open>The messages a frame delivers, and the state after it.\<close>

definition delivered :: "rfc_frame \<Rightarrow> byte list list" where
  "delivered fr = (if r_opcode fr = 1 \<or> r_opcode fr = 2 then [r_payload fr] else [])"

definition after_frame :: "rfc_frame \<Rightarrow> WSState \<Rightarrow> WSState" where
  "after_frame fr st = (if r_opcode fr = 8 then WS_STATE_CLOSING else st)"

lemma opcode_eq: "op < 16 \<Longrightarrow> k < 16 \<Longrightarrow> (of_nat op :: byte) = of_nat k \<longleftrightarrow> op = k"
  by (auto dest!: arg_cong [of _ _ unat] simp: unat_of_nat)

lemma parsed_opcode:
  assumes "rfc_valid fr"
  shows "f_opcode (rfc_parsed fr) = WS_OPCODE_TEXT \<longleftrightarrow> r_opcode fr = 1"
    "f_opcode (rfc_parsed fr) = WS_OPCODE_BINARY \<longleftrightarrow> r_opcode fr = 2"
    "f_opcode (rfc_parsed fr) = WS_OPCODE_CLOSE \<longleftrightarrow> r_opcode fr = 8"
    "f_opcode (rfc_parsed fr) = WS_OPCODE_PING \<longleftrightarrow> r_opcode fr = 9"
    "f_opcode (rfc_parsed fr) = WS_OPCODE_PONG \<longleftrightarrow> r_opcode fr = 10"
  using assms opcode_eq [of "r_opcode fr" 1] opcode_eq [of "r_opcode fr" 2] opcode_eq [of "r_opcode fr" 8]
    opcode_eq [of "r_opcode fr" 9] opcode_eq [of "r_opcode fr" 10]
  by (simp_all add: rfc_parsed_def rfc_valid_def WS_OPCODE_TEXT_def WS_OPCODE_BINARY_def WS_OPCODE_CLOSE_def
      WS_OPCODE_PING_def WS_OPCODE_PONG_def)

lemma unmask_rfc:
  assumes "rfc_valid fr"
  shows "(if f_mask (rfc_parsed fr) \<noteq> 0 then apply_mask (f_masking_key (rfc_parsed fr)) (rfc_mask (r_key fr) (r_payload fr))
          else rfc_mask (r_key fr) (r_payload fr)) = r_payload fr"
proof (cases "r_key fr")
  case None
  then show ?thesis by (simp add: rfc_parsed_def rfc_mask_def)
next
  case (Some k)
  with assms have "store_le 4 (load_le k) = k"
    using store_load_le [of k] by (simp add: rfc_valid_def)
  then have "rfc_mask (Some k) (r_payload fr) = apply_mask (load_le k) (r_payload fr)"
    by (simp add: apply_mask_eq_rfc_mask)
  with Some show ?thesis
    by (simp add: rfc_parsed_def apply_mask_twice)
qed

lemma unmask_payload_effect:
  assumes "pos + f_payload_len frame \<le> length (rb_mem (ws_rx_ring ws))"
  obtains m where "unmask_payload frame pos ws = Some (ws\<lparr>ws_rx_ring := (ws_rx_ring ws)\<lparr>rb_mem := m\<rparr>\<rparr>)"
    and "length m = length (rb_mem (ws_rx_ring ws))"
    and "drop (pos + f_payload_len frame) m = drop (pos + f_payload_len frame) (rb_mem (ws_rx_ring ws))"
    and "take (f_payload_len frame) (drop pos m) =
      (if f_mask frame \<noteq> 0
       then apply_mask (f_masking_key frame) (take (f_payload_len frame) (drop pos (rb_mem (ws_rx_ring ws))))
       else take (f_payload_len frame) (drop pos (rb_mem (ws_rx_ring ws))))"
proof (cases "f_mask frame = 0")
  case True
  then show ?thesis
    by (intro that [of "rb_mem (ws_rx_ring ws)"]) (simp_all add: unmask_payload_def)
next
  case False
  let ?m = "rb_mem (ws_rx_ring ws)" and ?n = "f_payload_len frame"
  let ?p = "apply_mask (f_masking_key frame) (take ?n (drop pos ?m))"
  have l: "length ?p = ?n" using assms by simp
  have "unmask_payload frame pos ws =
      Some (ws\<lparr>ws_rx_ring := (ws_rx_ring ws)\<lparr>rb_mem := take pos ?m @ ?p @ drop (pos + ?n) ?m\<rparr>\<rparr>)"
    using False assms l by (simp add: unmask_payload_def mem_read_in mem_write_in)
  with False assms l show ?thesis
    by (intro that [of "take pos ?m @ ?p @ drop (pos + ?n) ?m"]) simp_all
qed

lemma latency_inv_upd [simp]:
  "latency_inv (ws\<lparr>ws_rx_ring := a\<rparr>) = latency_inv ws" "latency_inv (ws\<lparr>ws_metrics := b\<rparr>) = latency_inv ws"
  "latency_inv (ws\<lparr>ws_state := c\<rparr>) = latency_inv ws" "latency_inv (ws\<lparr>ws_last_pong_received_ns := d\<rparr>) = latency_inv ws"
  "latency_inv (ws\<lparr>ws_frame_pool := p\<rparr>) = latency_inv ws" "latency_inv (ws\<lparr>ws_frame_pool_idx := i\<rparr>) = latency_inv ws"
  "latency_inv (ws\<lparr>ws_frame_parse_errors := e\<rparr>) = latency_inv ws"
  by (simp_all add: latency_inv_def)

lemma nic_cong:
  assumes "ws_socket_index ws' = ws_socket_index ws" and "ws_use_ssl ws' = ws_use_ssl ws"
    and "ws_ssl_ctx ws' = ws_ssl_ctx ws" and "ws_io_ctx ws' = ws_io_ctx ws"
  shows "websocket_get_last_nic_timestamp_ns ws' = websocket_get_last_nic_timestamp_ns ws"
  unfolding websocket_get_last_nic_timestamp_ns_def assms ..

lemma nic_upd [simp]:
  "websocket_get_last_nic_timestamp_ns (ws\<lparr>ws_rx_ring := a\<rparr>) = websocket_get_last_nic_timestamp_ns ws"
  "websocket_get_last_nic_timestamp_ns (ws\<lparr>ws_metrics := b\<rparr>) = websocket_get_last_nic_timestamp_ns ws"
  "websocket_get_last_nic_timestamp_ns (ws\<lparr>ws_state := c\<rparr>) = websocket_get_last_nic_timestamp_ns ws"
  "websocket_get_last_nic_timestamp_ns (ws\<lparr>ws_last_pong_received_ns := d\<rparr>) = websocket_get_last_nic_timestamp_ns ws"
  "websocket_get_last_nic_timestamp_ns (ws\<lparr>ws_frame_pool := p\<rparr>) = websocket_get_last_nic_timestamp_ns ws"
  "websocket_get_last_nic_timestamp_ns (ws\<lparr>ws_frame_pool_idx := j\<rparr>) = websocket_get_last_nic_timestamp_ns ws"
  "websocket_get_last_nic_timestamp_ns (ws\<lparr>ws_frame_parse_errors := e\<rparr>) = websocket_get_last_nic_timestamp_ns ws"
  "websocket_get_last_nic_timestamp_ns
     (ws\<lparr>ws_latency_samples := s, ws_latency_sample_idx := i, ws_latency_sample_count := n\<rparr>) = websocket_get_last_nic_timestamp_ns ws"
  by (rule nic_cong; simp)+

text \<open>The settings of the object, which receiving does not touch.\<close>

definition settings :: "WebSocket \<Rightarrow> addr \<times> addr \<times> WSHeartbeatConfig \<times> bool" where
  "settings ws = (ws_on_health ws, ws_on_metrics ws, ws_heartbeat_config ws, ws_use_ssl ws)"

lemma settings_upd [simp]:
  "settings (ws\<lparr>ws_rx_ring := a\<rparr>) = settings ws" "settings (ws\<lparr>ws_metrics := b\<rparr>) = settings ws"
  "settings (ws\<lparr>ws_state := c\<rparr>) = settings ws" "settings (ws\<lparr>ws_last_pong_received_ns := d\<rparr>) = settings ws"
  "settings (ws\<lparr>ws_frame_pool := p\<rparr>) = settings ws" "settings (ws\<lparr>ws_frame_pool_idx := i\<rparr>) = settings ws"
  "settings (ws\<lparr>ws_frame_parse_errors := e\<rparr>) = settings ws" "settings (ws\<lparr>ws_latency_samples := s\<rparr>) = settings ws"
  "settings (ws\<lparr>ws_latency_sample_idx := j\<rparr>) = settings ws" "settings (ws\<lparr>ws_latency_sample_count := n\<rparr>) = settings ws"
  by (simp_all add: settings_def)

text \<open>
  What a frame does to the object: the memory of the ring behind the frame is untouched, the
  message is recorded and counted, and a close frame changes the state.
\<close>

definition frame_effect ::
  "('w \<Rightarrow> byte list list) \<Rightarrow> nat \<Rightarrow> byte list list \<Rightarrow> WSState \<Rightarrow> WebSocket \<Rightarrow> 'w \<Rightarrow> WebSocket \<Rightarrow> 'w \<Rightarrow> bool" where
  "frame_effect inbox stop msgs st ws w ws' w' \<longleftrightarrow>
     rx_ok ws' \<and> inbox w' = inbox w @ msgs \<and> ws_state ws' = st \<and> settings ws' = settings ws \<and>
     messages_received (ws_metrics ws') = (messages_received (ws_metrics ws) + length msgs) mod 2 ^ 64 \<and>
     (\<exists>m. ws_rx_ring ws' = (ws_rx_ring ws)\<lparr>rb_mem := m\<rparr> \<and> length m = length (rb_mem (ws_rx_ring ws)) \<and>
        drop stop m = drop stop (rb_mem (ws_rx_ring ws)))"

lemma process_data_frame:
  assumes obs: "observes os inbox" and ok: "rx_ok ws" and valid: "rfc_valid fr"
    and op: "r_opcode fr = 1 \<or> r_opcode fr = 2"
    and frame: "frame = (rfc_parsed fr)\<lparr>f_payload := x\<rparr>" and n: "n = length (r_payload fr)"
    and body: "take n (drop pos (rb_mem (ws_rx_ring ws))) = rfc_mask (r_key fr) (r_payload fr)"
    and room: "pos + n \<le> length (rb_mem (ws_rx_ring ws))"
  shows "\<exists>ws' w'. process_frame os frame pos ws w = Some (ws', w') \<and>
    frame_effect inbox (pos + n) (delivered fr) (after_frame fr (ws_state ws)) ws w ws' w'"
proof -
  have fl: "f_payload_len frame = n"
    by (simp add: frame n rfc_parsed_def)
  have fo: "f_opcode frame = WS_OPCODE_TEXT \<or> f_opcode frame = WS_OPCODE_BINARY"
    using op parsed_opcode [OF valid] by (auto simp: frame)
  obtain m where m: "unmask_payload frame pos ws = Some (ws\<lparr>ws_rx_ring := (ws_rx_ring ws)\<lparr>rb_mem := m\<rparr>\<rparr>)"
      "length m = length (rb_mem (ws_rx_ring ws))" "drop (pos + n) m = drop (pos + n) (rb_mem (ws_rx_ring ws))"
      "take n (drop pos m) = (if f_mask frame \<noteq> 0
         then apply_mask (f_masking_key frame) (take n (drop pos (rb_mem (ws_rx_ring ws))))
         else take n (drop pos (rb_mem (ws_rx_ring ws))))"
    by (rule unmask_payload_effect [of pos frame ws, unfolded fl, OF room])
  have pl: "take n (drop pos m) = r_payload fr"
    unfolding m(4) body using unmask_rfc [OF valid] by (simp add: frame split: if_splits)
  let ?ws1 = "ws\<lparr>ws_rx_ring := (ws_rx_ring ws)\<lparr>rb_mem := m\<rparr>\<rparr>"
  have ok1: "latency_inv (count_received n ?ws1)" "websocket_get_last_nic_timestamp_ns (count_received n ?ws1) \<noteq> None"
    using ok by (simp_all add: rx_ok_def count_received_def)
  obtain s i c w2 where s: "sample_latency os (count_received n ?ws1) w =
        Some ((count_received n ?ws1)\<lparr>ws_latency_samples := s, ws_latency_sample_idx := i, ws_latency_sample_count := c\<rparr>, w2)"
      "latency_inv ((count_received n ?ws1)\<lparr>ws_latency_samples := s, ws_latency_sample_idx := i, ws_latency_sample_count := c\<rparr>)"
      "inbox w2 = inbox w"
    by (rule sample_latency_total [OF obs ok1])
  let ?ws2 = "(count_received n ?ws1)\<lparr>ws_latency_samples := s, ws_latency_sample_idx := i, ws_latency_sample_count := c\<rparr>"
  obtain w3 where w3: "cb_message os (ws_on_message ?ws2) ?ws2 (r_payload fr) (ws_callback_user_data ?ws2) w2 = Some (?ws2, w3)"
      "inbox w3 = inbox w2 @ [r_payload fr]"
    using conjunct1 [OF obs [unfolded observes_def]] by blast
  have "mem_read m pos n = Some (r_payload fr)"
    using m(2) pl room by (simp add: mem_read_in)
  then have p: "process_frame os frame pos ws w = Some (?ws2, w3)"
    using fo fl m(1) s(1) w3(1) ok by (simp add: process_frame_def rx_ok_def count_received_def)
  have ok2: "rx_ok ?ws2"
    using ok s(2) add64_less [of "messages_received (ws_metrics ws)" 1] unfolding rx_ok_def
    by (simp add: count_received_def pool_ok_def)
  have "frame_effect inbox (pos + n) (delivered fr) (after_frame fr (ws_state ws)) ws w ?ws2 w3"
    unfolding frame_effect_def
    using ok2 w3(2) s(3) m(2,3) op by (auto simp: delivered_def after_frame_def count_received_def add64_def)
  with p show ?thesis by blast
qed

lemma process_control_frame:
  assumes obs: "observes os inbox" and ok: "rx_ok ws" and valid: "rfc_valid fr"
    and op: "r_opcode fr \<noteq> 1" "r_opcode fr \<noteq> 2" "r_opcode fr \<noteq> 9"
    and frame: "frame = (rfc_parsed fr)\<lparr>f_payload := x\<rparr>"
  shows "\<exists>ws' w'. process_frame os frame pos ws w = Some (ws', w') \<and>
    frame_effect inbox stop (delivered fr) (after_frame fr (ws_state ws)) ws w ws' w'"
proof -
  have fo: "f_opcode frame = f_opcode (rfc_parsed fr)"
    by (simp add: frame)
  note o = parsed_opcode [OF valid, folded fo]
  have keep: "frame_effect inbox stop (delivered fr) (after_frame fr (ws_state ws)) ws w ws' w'"
    if "inbox w' = inbox w" "ws' = ws\<lparr>ws_last_pong_received_ns := t, ws_state := after_frame fr (ws_state ws)\<rparr>" for ws' w' t
    unfolding frame_effect_def using that ok op(1,2)
    by (auto simp: delivered_def rx_ok_def pool_ok_def intro!: exI [of _ "rb_mem (ws_rx_ring ws)"])
  consider "r_opcode fr = 10" | "r_opcode fr = 8" | "r_opcode fr \<noteq> 10" "r_opcode fr \<noteq> 8" by blast
  then show ?thesis
  proof cases
    case 1
    obtain t w1 where t: "get_time_ns os w = Some (t, w1)" "inbox w1 = inbox w"
      using obs by (rule observes_time)
    obtain w2 where "WS_LOG os (ws\<lparr>ws_last_pong_received_ns := t\<rparr>) WS_LOG_DEBUG (bytes_of ''Received heartbeat pong'') w1 =
        Some (ws\<lparr>ws_last_pong_received_ns := t\<rparr>, w2)" "inbox w2 = inbox w1"
      using obs by (rule observes_log)
    with 1 t o show ?thesis
      using keep [of w2 "ws\<lparr>ws_last_pong_received_ns := t\<rparr>" t] op
      by (simp add: process_frame_def after_frame_def)
  next
    case 2
    with o op show ?thesis
      using keep [of w "ws\<lparr>ws_state := WS_STATE_CLOSING\<rparr>" "ws_last_pong_received_ns ws"]
      by (simp add: process_frame_def after_frame_def)
  next
    case 3
    with o op show ?thesis
      using keep [of w ws "ws_last_pong_received_ns ws"]
      by (simp add: process_frame_def after_frame_def)
  qed
qed

subsection \<open>The loop over the frames\<close>

lemma frame_effect_trans:
  assumes "frame_effect inbox k a st1 ws w ws1 w1" and "frame_effect inbox j b st2 ws1 w1 ws2 w2" and "k \<le> j"
  shows "frame_effect inbox j (a @ b) st2 ws w ws2 w2"
proof -
  obtain m where m: "ws_rx_ring ws1 = (ws_rx_ring ws)\<lparr>rb_mem := m\<rparr>" "length m = length (rb_mem (ws_rx_ring ws))"
      "drop k m = drop k (rb_mem (ws_rx_ring ws))"
    using assms(1) by (auto simp: frame_effect_def)
  obtain m' where m': "ws_rx_ring ws2 = (ws_rx_ring ws1)\<lparr>rb_mem := m'\<rparr>" "length m' = length (rb_mem (ws_rx_ring ws1))"
      "drop j m' = drop j (rb_mem (ws_rx_ring ws1))"
    using assms(2) by (auto simp: frame_effect_def)
  have "drop j m = drop (j - k) (drop k m)"
    using assms(3) by simp
  also have "\<dots> = drop j (rb_mem (ws_rx_ring ws))"
    using assms(3) unfolding m(3) by simp
  finally have "\<exists>m. ws_rx_ring ws2 = (ws_rx_ring ws)\<lparr>rb_mem := m\<rparr> \<and> length m = length (rb_mem (ws_rx_ring ws)) \<and>
      drop j m = drop j (rb_mem (ws_rx_ring ws))"
    using m m' by (intro exI [of _ m']) simp
  then show ?thesis
    using assms(1,2) by (auto simp: frame_effect_def mod_add_left_eq add.assoc)
qed

lemma get_frame_total:
  assumes "pool_ok ws"
  obtains idx f pool where "get_frame_from_pool ws = Some (idx, f, ws\<lparr>ws_frame_pool := pool, ws_frame_pool_idx := idx\<rparr>)"
    and "0 \<le> idx" and "idx < 16" and "length pool = 16"
proof -
  let ?i = "(ws_frame_pool_idx ws + 1) mod 16"
  have i: "0 \<le> ?i" "?i < 16" "nat ?i < 16" by simp_all
  then have "get_frame_from_pool ws = Some (?i, zero_frame\<lparr>f_header_size := f_header_size (ws_frame_pool ws ! nat ?i)\<rparr>,
      ws\<lparr>ws_frame_pool := (ws_frame_pool ws)[nat ?i := zero_frame\<lparr>f_header_size := f_header_size (ws_frame_pool ws ! nat ?i)\<rparr>],
         ws_frame_pool_idx := ?i\<rparr>)"
    using assms by (simp add: get_frame_from_pool_def pool_ok_def mem_simps Let_def)
  from that [OF this i(1,2)] show ?thesis
    using assms by (simp add: pool_ok_def)
qed

lemma store_frame_total:
  assumes "length (ws_frame_pool ws) = 16" and "0 \<le> idx" and "idx < 16"
  shows "store_frame idx f ws = Some (ws\<lparr>ws_frame_pool := (ws_frame_pool ws)[nat idx := f]\<rparr>)"
  using assms by (simp add: store_frame_def mem_simps)

text \<open>The parser reads only the bytes it was told are valid.\<close>

lemma mem_local:
  assumes "len \<le> length d" and "i + n \<le> len"
  shows "mem_read (take len d) i n = mem_read d i n"
  using assms by (simp add: mem_read_in drop_take)

lemma parse_masking_key_local:
  assumes "len \<le> length d" and "h \<le> 10"
  shows "parse_masking_key (take len d) len f h = parse_masking_key d len f h"
  using assms by (simp add: parse_masking_key_def arith64 mem_local)

lemma neon_parse_local:
  assumes "len \<le> length d"
  shows "neon_parse_ws_frame (Some (take len d)) len f0 = neon_parse_ws_frame (Some d) len f0"
proof (cases "len < 2")
  case False
  then have "mem_get (take len d) 0 = mem_get d 0" "mem_get (take len d) 1 = mem_get d 1"
    using assms by (auto simp: mem_get_def)
  with False assms show ?thesis
    by (simp add: neon_parse_ws_frame_def mem_local parse_masking_key_local cong: if_cong)
qed (simp add: neon_parse_ws_frame_def)

text \<open>What the end of the data may be: nothing, or at least two bytes of a frame still arriving.\<close>

definition incomplete :: "byte list \<Rightarrow> bool" where
  "incomplete rest \<longleftrightarrow> rest = [] \<or>
     (\<exists>fr. rfc_valid fr \<and> 2 \<le> length rest \<and> length rest < length (rfc_encode fr) \<and> take (length rest) (rfc_encode fr) = rest)"

lemma parse_rest:
  assumes "incomplete rest" and "rest \<noteq> []" and "take (length rest) d = rest"
  shows "\<exists>f. neon_parse_ws_frame (Some d) (length rest) f0 = Some (1, f)"
proof -
  obtain fr where fr: "rfc_valid fr" "2 \<le> length rest" "length rest < length (rfc_encode fr)"
      "take (length rest) (rfc_encode fr) = rest"
    using assms(1,2) by (auto simp: incomplete_def)
  have "length rest \<le> length d"
    using arg_cong [OF assms(3), of length] by simp
  then have "neon_parse_ws_frame (Some d) (length rest) f0 = neon_parse_ws_frame (Some (rfc_encode fr)) (length rest) f0"
    using neon_parse_local [of "length rest" d f0] neon_parse_local [of "length rest" "rfc_encode fr" f0] fr(3,4) assms(3)
    by simp
  with neon.parse_incomplete [OF fr(1,2,3)] show ?thesis by simp
qed

lemma frame_effect_pool:
  "frame_effect inbox stop msgs st (ws\<lparr>ws_frame_pool_idx := i, ws_frame_pool := p\<rparr>) w ws' w' =
   frame_effect inbox stop msgs st ws w ws' w'"
  by (simp add: frame_effect_def)

lemma rx_ok_pool:
  assumes "rx_ok ws" and "length p = 16" and "0 \<le> i" and "i < 16"
  shows "rx_ok (ws\<lparr>ws_frame_pool_idx := i, ws_frame_pool := p\<rparr>)"
  using assms by (simp add: rx_ok_def pool_ok_def)

lemma frame_effect_refl:
  assumes "rx_ok ws" shows "frame_effect inbox stop [] (ws_state ws) ws w ws w"
  using assms by (auto simp: frame_effect_def rx_ok_def intro!: exI [of _ "rb_mem (ws_rx_ring ws)"])

lemma encode_sizes:
  assumes "rfc_valid fr"
  shows "f_header_size (rfc_parsed fr) = length (rfc_header fr)" "f_payload_len (rfc_parsed fr) = length (r_payload fr)"
    "length (rfc_encode fr) = length (rfc_header fr) + length (r_payload fr)" "2 \<le> length (rfc_header fr)"
    "length (rfc_encode fr) < 2 ^ 63 + 14"
    "add64 (length (rfc_header fr)) (length (r_payload fr)) = length (rfc_encode fr)"
proof -
  have "length (rfc_header fr) \<le> 14" "length (r_payload fr) < 2 ^ 63"
    using assms length_rfc_length_ext [of "length (r_payload fr)"]
    by (auto simp: rfc_valid_def rfc_header_split key_bytes_def split: option.splits)
  then show "f_header_size (rfc_parsed fr) = length (rfc_header fr)" "f_payload_len (rfc_parsed fr) = length (r_payload fr)"
    "length (rfc_encode fr) = length (rfc_header fr) + length (r_payload fr)" "2 \<le> length (rfc_header fr)"
    "length (rfc_encode fr) < 2 ^ 63 + 14"
    "add64 (length (rfc_header fr)) (length (r_payload fr)) = length (rfc_encode fr)"
    by (simp_all add: rfc_parsed_def rfc_encode_def rfc_header_split arith64)
qed

lemma process_one_frame:
  assumes obs: "observes os inbox" and ok: "rx_ok ws" and valid: "rfc_valid fr" and op: "r_opcode fr \<noteq> 9"
    and data: "drop p (rb_mem (ws_rx_ring ws)) = rfc_encode fr @ later"
  shows "\<exists>ws' w'. process_frame os ((rfc_parsed fr)\<lparr>f_payload := x\<rparr>) (p + length (rfc_header fr)) ws w = Some (ws', w') \<and>
    frame_effect inbox (p + length (rfc_encode fr)) (delivered fr) (after_frame fr (ws_state ws)) ws w ws' w'"
proof (cases "r_opcode fr = 1 \<or> r_opcode fr = 2")
  case True
  let ?h = "length (rfc_header fr)" and ?n = "length (r_payload fr)"
  have "drop (p + ?h) (rb_mem (ws_rx_ring ws)) = drop ?h (drop p (rb_mem (ws_rx_ring ws)))"
    by (simp add: add.commute)
  then have "take ?n (drop (p + ?h) (rb_mem (ws_rx_ring ws))) = rfc_mask (r_key fr) (r_payload fr)"
    by (simp add: data rfc_encode_def)
  moreover have "p + ?h + ?n \<le> length (rb_mem (ws_rx_ring ws))"
    using arg_cong [OF data, of length] encode_sizes(3,4) [OF valid] by simp
  ultimately show ?thesis
    using process_data_frame [OF obs ok valid True refl refl, where pos = "p + ?h" and w = w and x = x] encode_sizes(3) [OF valid]
    by (simp add: add.assoc)
next
  case False
  with op show ?thesis
    by (intro process_control_frame [OF obs ok valid]) auto
qed

lemma frames_loop_step:
  assumes obs: "observes os inbox" and ok: "rx_ok ws" and valid: "rfc_valid fr" and op: "r_opcode fr \<noteq> 9"
    and buf: "rb_buf (ws_rx_ring ws) = buf"
    and data: "drop (base + offset) (rb_mem (ws_rx_ring ws)) = rfc_encode fr @ later"
    and room: "offset + length (rfc_encode fr) \<le> len" "base + len \<le> length (rb_mem (ws_rx_ring ws))"
    and small: "len < 2 ^ 63" "consumed + length (rfc_encode fr) < 2 ^ 64"
  shows "\<exists>ws' w'. process_frames_loop os (Suc k) buf base len offset consumed ws w =
      process_frames_loop os k buf base len (offset + length (rfc_encode fr)) (consumed + length (rfc_encode fr)) ws' w' \<and>
    frame_effect inbox (base + offset + length (rfc_encode fr)) (delivered fr) (after_frame fr (ws_state ws)) ws w ws' w'"
proof -
  let ?L = "length (rfc_encode fr)" and ?h = "length (rfc_header fr)"
  note sz = encode_sizes [OF valid]
  obtain idx f pool where g: "get_frame_from_pool ws = Some (idx, f, ws\<lparr>ws_frame_pool := pool, ws_frame_pool_idx := idx\<rparr>)"
      "0 \<le> idx" "idx < 16" "length pool = 16"
    using ok get_frame_total unfolding rx_ok_def by metis
  let ?x = "(rfc_parsed fr)\<lparr>f_payload := Some (offset + ?h)\<rparr>"
  let ?pool = "pool[nat idx := ?x]"
  let ?ws = "ws\<lparr>ws_frame_pool_idx := idx, ws_frame_pool := ?pool\<rparr>"
  have len: "2 \<le> len - offset" "len - offset \<le> length (rfc_encode fr @ later)" "offset < len"
    using room sz(3,4) arg_cong [OF data, of length] by simp_all
  have parse: "neon_parse_ws_frame (Some (drop (base + offset) (rb_mem (ws_rx_ring ws)))) (len - offset) f = Some (0, rfc_parsed fr)"
    using neon.parse_encoded [OF valid len(1,2), of f] room(1) unfolding data by auto
  obtain ws' w' where p: "process_frame os ?x (base + offset + ?h) ?ws w = Some (ws', w')"
      "frame_effect inbox (base + offset + ?L) (delivered fr) (after_frame fr (ws_state ws)) ws w ws' w'"
    using process_one_frame [OF obs rx_ok_pool [OF ok, of ?pool idx] valid op, of "base + offset" later "Some (offset + ?h)" w]
      g data by (auto simp: frame_effect_pool)
  have nz: "rfc_encode fr \<noteq> []" "\<not> len - offset < ?L"
    using sz(3,4) room(1) by auto
  have "add64 offset ?L = offset + ?L" "add64 consumed ?L = consumed + ?L"
    using room(1) small by (simp_all add: arith64)
  then have "process_frames_loop os (Suc k) buf base len offset consumed ws w =
      process_frames_loop os k buf base len (offset + ?L) (consumed + ?L) ws' w'"
    using len(3) g buf parse p(1) sz(1,2,6) nz
    by (simp add: store_frame_total Let_def)
  with p(2) show ?thesis by blast
qed

lemma frames_loop_rest:
  assumes ok: "rx_ok ws" and buf: "rb_buf (ws_rx_ring ws) = buf" and inc: "k = 0 \<or> incomplete rest"
    and data: "drop (base + offset) (rb_mem (ws_rx_ring ws)) = rest @ tail" and len: "len = offset + length rest"
  shows "\<exists>ws'. process_frames_loop os k buf base len offset consumed ws w = Some (consumed, ws', w) \<and>
    frame_effect inbox stop [] (ws_state ws) ws w ws' w"
proof (cases "k = 0 \<or> rest = []")
  case True
  then have "process_frames_loop os k buf base len offset consumed ws w = Some (consumed, ws, w)"
    using len by (cases k) simp_all
  with frame_effect_refl [OF ok, of inbox stop w] show ?thesis by blast
next
  case False
  then obtain k' where k: "k = Suc k'" by (cases k) auto
  obtain idx f pool where g: "get_frame_from_pool ws = Some (idx, f, ws\<lparr>ws_frame_pool := pool, ws_frame_pool_idx := idx\<rparr>)"
      "0 \<le> idx" "idx < 16" "length pool = 16"
    using ok get_frame_total unfolding rx_ok_def by metis
  obtain f' where f': "neon_parse_ws_frame (Some (rest @ tail)) (length rest) f = Some (1, f')"
    using parse_rest [of rest "rest @ tail" f] inc False by auto
  let ?pool = "pool[nat idx := f']"
  let ?ws = "ws\<lparr>ws_frame_pool_idx := idx, ws_frame_pool := ?pool\<rparr>"
  have "process_frames_loop os k buf base len offset consumed ws w = Some (consumed, ?ws, w)"
    using False k g buf data len f' by (simp add: store_frame_total)
  moreover have "frame_effect inbox stop [] (ws_state ws) ws w ?ws w"
    using frame_effect_refl [OF rx_ok_pool [OF ok, of ?pool idx], of inbox stop w] g by (simp add: frame_effect_pool)
  ultimately show ?thesis by blast
qed

text \<open>The frames of the stream, one after the other.\<close>

definition after_frames :: "rfc_frame list \<Rightarrow> WSState \<Rightarrow> WSState" where
  "after_frames frs st = fold after_frame frs st"

lemma frames_loop_stream:
  assumes obs: "observes os inbox"
  shows "rx_ok ws \<Longrightarrow> rb_buf (ws_rx_ring ws) = buf \<Longrightarrow> \<forall>fr \<in> set frs. rfc_valid fr \<and> r_opcode fr \<noteq> 9 \<Longrightarrow>
    k = length frs \<or> incomplete rest \<Longrightarrow> length frs \<le> k \<Longrightarrow>
    drop (base + offset) (rb_mem (ws_rx_ring ws)) = concat (map rfc_encode frs) @ rest @ tail \<Longrightarrow>
    len = offset + length (concat (map rfc_encode frs) @ rest) \<Longrightarrow> base + len \<le> length (rb_mem (ws_rx_ring ws)) \<Longrightarrow>
    len < 2 ^ 63 \<Longrightarrow> consumed + length (concat (map rfc_encode frs)) < 2 ^ 64 \<Longrightarrow>
    \<exists>ws' w'. process_frames_loop os k buf base len offset consumed ws w =
        Some (consumed + length (concat (map rfc_encode frs)), ws', w') \<and>
      frame_effect inbox (base + offset + length (concat (map rfc_encode frs)))
        (concat (map delivered frs)) (after_frames frs (ws_state ws)) ws w ws' w'"
proof (induction frs arbitrary: ws w k offset consumed)
  case Nil
  then show ?case
    using frames_loop_rest [of ws buf k rest base offset tail len os consumed w inbox "base + offset"]
    by (auto simp: after_frames_def)
next
  case (Cons fr frs)
  from Cons.prems(5) obtain k' where k: "k = Suc k'" by (cases k) auto
  let ?L = "length (rfc_encode fr)" and ?M = "length (concat (map rfc_encode frs))"
  have "\<exists>ws' w'. process_frames_loop os (Suc k') buf base len offset consumed ws w =
      process_frames_loop os k' buf base len (offset + ?L) (consumed + ?L) ws' w' \<and>
    frame_effect inbox (base + offset + ?L) (delivered fr) (after_frame fr (ws_state ws)) ws w ws' w'"
    using Cons.prems by (intro frames_loop_step [OF obs, where later = "concat (map rfc_encode frs) @ rest @ tail"]) auto
  then obtain ws1 w1 where step: "process_frames_loop os (Suc k') buf base len offset consumed ws w =
      process_frames_loop os k' buf base len (offset + ?L) (consumed + ?L) ws1 w1"
    and eff: "frame_effect inbox (base + offset + ?L) (delivered fr) (after_frame fr (ws_state ws)) ws w ws1 w1"
    by blast
  from eff obtain m where m: "ws_rx_ring ws1 = (ws_rx_ring ws)\<lparr>rb_mem := m\<rparr>" "length m = length (rb_mem (ws_rx_ring ws))"
      "drop (base + offset + ?L) m = drop (base + offset + ?L) (rb_mem (ws_rx_ring ws))"
    by (auto simp: frame_effect_def)
  have "drop (base + offset + ?L) (rb_mem (ws_rx_ring ws)) = drop ?L (drop (base + offset) (rb_mem (ws_rx_ring ws)))"
    by (simp add: add.commute)
  also have "\<dots> = concat (map rfc_encode frs) @ rest @ tail"
    unfolding Cons.prems(6) by simp
  finally have "\<exists>ws' w'. process_frames_loop os k' buf base len (offset + ?L) (consumed + ?L) ws1 w1 =
      Some (consumed + ?L + ?M, ws', w') \<and>
    frame_effect inbox (base + (offset + ?L) + ?M) (concat (map delivered frs)) (after_frames frs (ws_state ws1)) ws1 w1 ws' w'"
    using Cons.prems eff m k by (intro Cons.IH) (auto simp: frame_effect_def add.assoc)
  then obtain ws2 w2 where rest: "process_frames_loop os k' buf base len (offset + ?L) (consumed + ?L) ws1 w1 =
      Some (consumed + ?L + ?M, ws2, w2)"
    and eff2: "frame_effect inbox (base + offset + ?L + ?M) (concat (map delivered frs)) (after_frames frs (ws_state ws1)) ws1 w1 ws2 w2"
    by (auto simp: add.assoc)
  have "frame_effect inbox (base + offset + ?L + ?M) (delivered fr @ concat (map delivered frs))
      (after_frames frs (ws_state ws1)) ws w ws2 w2"
    using frame_effect_trans [OF eff eff2] by simp
  moreover have "ws_state ws1 = after_frame fr (ws_state ws)"
    using eff by (simp add: frame_effect_def)
  ultimately show ?case
    using step rest k by (auto simp: after_frames_def add.assoc)
qed

subsection \<open>The whole receive step\<close>

lemma straight_after:
  assumes inv: "rb_inv rb" and le: "rb_read_ptr rb \<le> rb_write_ptr rb" and list: "rb_list rb = a @ rest"
    and m: "length m = length (rb_mem rb)" "drop (rb_read_ptr rb + length a) m = drop (rb_read_ptr rb + length a) (rb_mem rb)"
  defines "rb' \<equiv> rb\<lparr>rb_mem := m, rb_read_ptr := rb_read_ptr rb + length a\<rparr>"
  shows "rb_list rb' = rest" and "rb_inv rb'" and "rb_read_ptr rb + length a < rb_size rb"
proof -
  have n: "length a + length rest = rb_write_ptr rb - rb_read_ptr rb"
    using arg_cong [OF list, of length] length_rb_list [OF inv] le by (simp add: ring_used_def)
  have "take (rb_write_ptr rb - rb_read_ptr rb) (drop (rb_read_ptr rb) (rb_mem rb)) = a @ rest"
    using list le by (simp add: rb_list_def ring_list_def)
  then have "drop (length a) (take (length a + length rest) (drop (rb_read_ptr rb) (rb_mem rb))) = rest"
    unfolding n by simp
  then have "take (length rest) (drop (rb_read_ptr rb + length a) (rb_mem rb)) = rest"
    by (simp add: drop_take add.commute)
  moreover have "rb_read_ptr rb + length a \<le> rb_write_ptr rb" "rb_write_ptr rb - (rb_read_ptr rb + length a) = length rest"
    using n le by simp_all
  ultimately show "rb_list rb' = rest" "rb_inv rb'" "rb_read_ptr rb + length a < rb_size rb"
    using inv m by (simp_all add: rb'_def rb_list_def ring_list_def rb_inv_def)
qed

lemma straight_data:
  assumes inv: "rb_inv rb" and le: "rb_read_ptr rb \<le> rb_write_ptr rb"
  obtains tail where "drop (rb_read_ptr rb) (rb_mem rb) = rb_list rb @ tail"
    and "rb_read_ptr rb + length (rb_list rb) \<le> length (rb_mem rb)" and "length (rb_list rb) < 2 ^ 62"
proof (rule that)
  let ?n = "rb_write_ptr rb - rb_read_ptr rb"
  show "drop (rb_read_ptr rb) (rb_mem rb) = rb_list rb @ drop ?n (drop (rb_read_ptr rb) (rb_mem rb))"
    unfolding rb_list_def ring_list_def using le by (simp only: if_True append_take_drop_id)
  show "rb_read_ptr rb + length (rb_list rb) \<le> length (rb_mem rb)" "length (rb_list rb) < 2 ^ 62"
    using inv le unfolding length_rb_list [OF inv] ring_used_def rb_inv_def by auto
qed

lemma loop_nothing: "process_frames_loop os k buf base 0 0 0 ws w = Some (0, ws, w)"
  by (cases k) simp_all

text \<open>One pass over at most 1000 frames, with what is left after it.\<close>

lemma process_frames_stream:
  assumes "observes os inbox" and "rx_ok ws" and "rb_inv (ws_rx_ring ws)" and "rb_buf (ws_rx_ring ws) \<noteq> 0"
    and "rb_read_ptr (ws_rx_ring ws) \<le> rb_write_ptr (ws_rx_ring ws)"
    and "rb_list (ws_rx_ring ws) = concat (map rfc_encode frs) @ rest"
    and "\<forall>fr \<in> set frs. rfc_valid fr \<and> r_opcode fr \<noteq> 9"
    and "length frs = 1000 \<or> incomplete rest" and "length frs \<le> 1000"
  obtains ws' w' m where "process_frames os ws w = Some (ws', w')"
    and "frame_effect inbox (rb_read_ptr (ws_rx_ring ws) + length (concat (map rfc_encode frs)))
        (concat (map delivered frs)) (after_frames frs (ws_state ws)) ws w
        (ws'\<lparr>ws_rx_ring := (ws_rx_ring ws)\<lparr>rb_mem := m\<rparr>\<rparr>) w'"
    and "ws_rx_ring ws' = (ws_rx_ring ws)\<lparr>rb_mem := m, rb_read_ptr := rb_read_ptr (ws_rx_ring ws) + length (concat (map rfc_encode frs))\<rparr>"
    and "rb_list (ws_rx_ring ws') = rest" and "rb_inv (ws_rx_ring ws')"
proof -
  let ?rb = "ws_rx_ring ws" and ?d = "concat (map rfc_encode frs)"
  let ?T = "length ?d"
  obtain tail where tail: "drop (rb_read_ptr ?rb) (rb_mem ?rb) = rb_list ?rb @ tail"
      "rb_read_ptr ?rb + length (rb_list ?rb) \<le> length (rb_mem ?rb)" "length (rb_list ?rb) < 2 ^ 62"
    using assms(3,5) by (rule straight_data)
  have "\<exists>ws' w'. process_frames_loop os 1000 (rb_buf ?rb) (rb_read_ptr ?rb) (length (rb_list ?rb)) 0 0 ws w =
        Some (0 + ?T, ws', w') \<and>
      frame_effect inbox (rb_read_ptr ?rb + 0 + ?T) (concat (map delivered frs)) (after_frames frs (ws_state ws)) ws w ws' w'"
    using assms tail by (intro frames_loop_stream [OF assms(1), where tail = tail]) (auto simp: assms(6))
  then obtain ws1 w1 where loop: "process_frames_loop os 1000 (rb_buf ?rb) (rb_read_ptr ?rb) (length (rb_list ?rb)) 0 0 ws w =
      Some (?T, ws1, w1)"
    and eff: "frame_effect inbox (rb_read_ptr ?rb + ?T) (concat (map delivered frs)) (after_frames frs (ws_state ws)) ws w ws1 w1"
    by auto
  from eff obtain m where m: "ws_rx_ring ws1 = ?rb\<lparr>rb_mem := m\<rparr>" "length m = length (rb_mem ?rb)"
      "drop (rb_read_ptr ?rb + ?T) m = drop (rb_read_ptr ?rb + ?T) (rb_mem ?rb)"
    by (auto simp: frame_effect_def)
  note after = straight_after [OF assms(3,5,6) m(2,3)]
  define ws' where "ws' = ws1\<lparr>ws_rx_ring := ?rb\<lparr>rb_mem := m, rb_read_ptr := rb_read_ptr ?rb + ?T\<rparr>\<rparr>"
  have zero: "ws' = ws1" if "?T = 0"
    unfolding ws'_def that using m(1) by simp
  have "umod (add64 (rb_read_ptr ?rb) ?T) (rb_size ?rb) = Some (rb_read_ptr ?rb + ?T)"
    using after(3) assms(3) by (simp add: umod_def arith64 rb_inv_def)
  then have "process_frames os ws w = Some (ws', w1)" if "length (rb_list ?rb) \<noteq> 0" "?T \<noteq> 0"
    unfolding process_frames_def read_inline_eq [OF assms(3)] prod.case Let_def ws'_def
    using that loop m(1) assms(4) by (simp del: length_concat)
  moreover have "process_frames os ws w = Some (ws1, w1)" if "length (rb_list ?rb) \<noteq> 0" "?T = 0"
    unfolding process_frames_def read_inline_eq [OF assms(3)] prod.case Let_def
    using that loop assms(4) by (simp del: length_concat)
  moreover have "process_frames os ws w = Some (ws1, w1)" "?T = 0" if "length (rb_list ?rb) = 0"
    unfolding process_frames_def read_inline_eq [OF assms(3)] prod.case Let_def that
    using loop [unfolded that] loop_nothing [of os 1000 "rb_buf ?rb" "rb_read_ptr ?rb" ws w] by simp_all
  ultimately have run: "process_frames os ws w = Some (ws', w1)"
    using zero by metis
  show ?thesis
    using run after eff by (intro that [of ws' w1 m]) (simp_all add: ws'_def m(1) [symmetric])
qed

lemma after_frames_eq: "after_frames frs st = (if \<exists>fr \<in> set frs. r_opcode fr = 8 then WS_STATE_CLOSING else st)"
  unfolding after_frames_def by (induction frs arbitrary: st) (auto simp: after_frame_def)

lemma rx_ok_ring: "rx_ok (ws\<lparr>ws_rx_ring := rb\<rparr>) = rx_ok ws"
  by (simp add: rx_ok_def pool_ok_def)

text \<open>The receive side is in order, its contents contiguous; and what receiving frames changes.\<close>

definition rx_ready :: "WebSocket \<Rightarrow> bool" where
  "rx_ready ws \<longleftrightarrow> rx_ok ws \<and> rb_inv (ws_rx_ring ws) \<and> rb_buf (ws_rx_ring ws) \<noteq> 0 \<and>
     rb_read_ptr (ws_rx_ring ws) \<le> rb_write_ptr (ws_rx_ring ws)"

definition received ::
  "('w \<Rightarrow> byte list list) \<Rightarrow> rfc_frame list \<Rightarrow> byte list \<Rightarrow> WebSocket \<Rightarrow> 'w \<Rightarrow> WebSocket \<Rightarrow> 'w \<Rightarrow> bool" where
  "received inbox frs rest ws w ws' w' \<longleftrightarrow>
     rx_ready ws' \<and> rb_list (ws_rx_ring ws') = rest \<and> inbox w' = inbox w @ concat (map delivered frs) \<and>
     messages_received (ws_metrics ws') =
       (messages_received (ws_metrics ws) + length (concat (map delivered frs))) mod 2 ^ 64 \<and>
     ws_state ws' = after_frames frs (ws_state ws) \<and> settings ws' = settings ws"

lemma received_trans:
  assumes "received inbox a r ws w ws1 w1" and "received inbox b rest ws1 w1 ws2 w2"
  shows "received inbox (a @ b) rest ws w ws2 w2"
  using assms by (auto simp: received_def after_frames_def mod_add_left_eq add.assoc)

lemma pass_received:
  assumes "observes os inbox" and "rx_ready ws" and "rb_list (ws_rx_ring ws) = concat (map rfc_encode frs) @ rest"
    and "\<forall>fr \<in> set frs. rfc_valid fr \<and> r_opcode fr \<noteq> 9" and "length frs = 1000 \<or> incomplete rest" and "length frs \<le> 1000"
  obtains ws' w' where "process_frames os ws w = Some (ws', w')" and "received inbox frs rest ws w ws' w'"
    and "rb_read_ptr (ws_rx_ring ws') = rb_read_ptr (ws_rx_ring ws) + length (concat (map rfc_encode frs))"
proof -
  let ?T = "length (concat (map rfc_encode frs))"
  have rx: "rx_ok ws" "rb_inv (ws_rx_ring ws)" "rb_buf (ws_rx_ring ws) \<noteq> 0"
      "rb_read_ptr (ws_rx_ring ws) \<le> rb_write_ptr (ws_rx_ring ws)"
    using assms(2) by (simp_all add: rx_ready_def)
  obtain ws' w' m where run: "process_frames os ws w = Some (ws', w')"
    and eff: "frame_effect inbox (rb_read_ptr (ws_rx_ring ws) + ?T) (concat (map delivered frs))
        (after_frames frs (ws_state ws)) ws w (ws'\<lparr>ws_rx_ring := (ws_rx_ring ws)\<lparr>rb_mem := m\<rparr>\<rparr>) w'"
    and ring: "ws_rx_ring ws' = (ws_rx_ring ws)\<lparr>rb_mem := m, rb_read_ptr := rb_read_ptr (ws_rx_ring ws) + ?T\<rparr>"
      "rb_list (ws_rx_ring ws') = rest" "rb_inv (ws_rx_ring ws')"
    using process_frames_stream [OF assms(1) rx assms(3-6), of w] by metis
  have "rb_read_ptr (ws_rx_ring ws) + ?T \<le> rb_write_ptr (ws_rx_ring ws)"
    using length_rb_list [OF rx(2)] rx(4) by (simp add: assms(3) ring_used_def)
  then have "received inbox frs rest ws w ws' w'"
    using eff ring rx(3) by (auto simp: received_def frame_effect_def rx_ready_def rx_ok_ring)
  from that [OF run this] ring(1) show ?thesis by simp
qed

text \<open>
  C6. Receiving is correct. When the receive ring holds whole frames followed by at least two
  bytes of a frame that is still arriving (or by nothing), one pass returns with every text and
  binary payload, unmasked, handed to the message callback once and in order; exactly the
  frames are consumed and the unfinished one stays in the ring; every message is counted; and
  the object is closing exactly when a close frame was among them. The frames may be masked or
  not, of every length form, and of every opcode but ping; the unconsumed bytes do not wrap.
\<close>

theorem process_frames_delivers:
  assumes "observes os inbox" and "rx_ok ws" and "rb_inv (ws_rx_ring ws)" and "rb_buf (ws_rx_ring ws) \<noteq> 0"
    and "rb_read_ptr (ws_rx_ring ws) \<le> rb_write_ptr (ws_rx_ring ws)"
    and "rb_list (ws_rx_ring ws) = concat (map rfc_encode frs) @ rest"
    and "\<forall>fr \<in> set frs. rfc_valid fr \<and> r_opcode fr \<noteq> 9" and "incomplete rest" and "length frs \<le> 1000"
  shows "\<exists>ws' w'. process_frames os ws w = Some (ws', w') \<and>
    inbox w' = inbox w @ concat (map delivered frs) \<and> rb_list (ws_rx_ring ws') = rest \<and>
    messages_received (ws_metrics ws') =
      (messages_received (ws_metrics ws) + length (concat (map delivered frs))) mod 2 ^ 64 \<and>
    ws_state ws' = (if \<exists>fr \<in> set frs. r_opcode fr = 8 then WS_STATE_CLOSING else ws_state ws) \<and>
    rb_inv (ws_rx_ring ws') \<and> rx_ok ws'"
proof -
  have "rx_ready ws"
    using assms(2-5) by (simp add: rx_ready_def)
  then obtain ws' w' where "process_frames os ws w = Some (ws', w')" "received inbox frs rest ws w ws' w'"
    using pass_received [OF assms(1) _ assms(6,7) disjI2 [OF assms(8)] assms(9), of w] by blast
  then show ?thesis
    by (auto simp: received_def rx_ready_def after_frames_eq)
qed

definition close_frame :: rfc_frame where
  "close_frame = \<lparr>r_fin = True, r_opcode = 8, r_key = None, r_payload = []\<rparr>"

lemma close_frame_valid: "rfc_valid close_frame"
  by (simp add: rfc_valid_def close_frame_def)

lemma demo_rx_ok: "rx_ok (demo_ws d)"
  by (simp add: rx_ok_def latency_inv_def pool_ok_def websocket_get_last_nic_timestamp_ns_def demo_ws_simps demo_ws_io_def
      io_get_last_nic_timestamp_ns_def zero_metrics_def arr_get_def)

lemma demo_ws_ring: "ws_rx_ring (demo_ws d) = demo_ring d" "ws_state (demo_ws d) = WS_STATE_CONNECTED"
  "messages_received (ws_metrics (demo_ws d)) = 0"
  by (simp_all add: demo_ws_simps zero_metrics_def)

lemma hello_begun: "incomplete [0x81, 0x82]"
  unfolding incomplete_def
  by (intro disjI2 exI [of _ hello_frame] conjI example_frames)
    (simp_all add: rfc_encode_def rfc_header_def hello_frame_def rfc_length7_def rfc_length_ext_def)

lemma hello_length: "length (rfc_encode hello_frame) = 8" "length (rfc_encode close_frame) = 2"
  by (simp_all add: rfc_encode_def rfc_header_def hello_frame_def close_frame_def rfc_length_ext_def)

theorem process_frames_delivers_witness:
  "\<exists>ws' w'. process_frames demo_ws_os (demo_ws (rfc_encode hello_frame @ rfc_encode close_frame @ [0x81, 0x82])) (demo_start [] []) =
       Some (ws', w') \<and>
     dw_messages w' = dw_messages (demo_start [] []) @ [[72, 105]] \<and> rb_list (ws_rx_ring ws') = [0x81, 0x82] \<and>
     ws_state ws' = WS_STATE_CLOSING \<and> messages_received (ws_metrics ws') = 1"
proof -
  let ?d = "rfc_encode hello_frame @ rfc_encode close_frame @ [0x81, 0x82]"
  have "\<exists>ws' w'. process_frames demo_ws_os (demo_ws ?d) (demo_start [] []) = Some (ws', w') \<and>
    dw_messages w' = dw_messages (demo_start [] []) @ concat (map delivered [hello_frame, close_frame]) \<and>
    rb_list (ws_rx_ring ws') = [0x81, 0x82] \<and>
    messages_received (ws_metrics ws') =
      (messages_received (ws_metrics (demo_ws ?d)) + length (concat (map delivered [hello_frame, close_frame]))) mod 2 ^ 64 \<and>
    ws_state ws' = (if \<exists>fr \<in> set [hello_frame, close_frame]. r_opcode fr = 8 then WS_STATE_CLOSING else ws_state (demo_ws ?d)) \<and>
    rb_inv (ws_rx_ring ws') \<and> rx_ok ws'"
    by (rule process_frames_delivers)
      (simp_all add: demo_observes demo_rx_ok demo_ws_ring hello_length hello_begun example_frames close_frame_valid,
        simp_all add: hello_frame_def close_frame_def)
  then show ?thesis
    by (auto simp: demo_ws_ring delivered_def hello_frame_def close_frame_def)
qed

subsection \<open>Draining the ring\<close>

lemma drain_frames_step:
  assumes "process_frames os ws w = Some (ws1, w1)"
  shows "drain_frames os ws w =
    (if rb_read_ptr (ws_rx_ring ws1) \<noteq> rb_read_ptr (ws_rx_ring ws) then drain_frames os ws1 w1 else Some (ws1, w1))"
  by (subst drain_frames.simps) (simp add: assms)

lemma drain_stream:
  assumes obs: "observes os inbox"
  shows "rx_ready ws \<Longrightarrow> rb_list (ws_rx_ring ws) = concat (map rfc_encode frs) @ rest \<Longrightarrow>
    \<forall>fr \<in> set frs. rfc_valid fr \<and> r_opcode fr \<noteq> 9 \<Longrightarrow> incomplete rest \<Longrightarrow>
    \<exists>ws' w'. drain_frames os ws w = Some (ws', w') \<and> received inbox frs rest ws w ws' w'"
proof (induction frs arbitrary: ws w rule: measure_induct_rule [of length])
  case (less frs)
  define N :: nat where "N = 1000"
  define now later where "now = take N frs" and "later = drop N frs"
  have N: "0 < N" "frs = now @ later" "length now \<le> N" "length now = N \<or> later = []"
    by (auto simp: N_def now_def later_def)
  let ?rest = "concat (map rfc_encode later) @ rest"
  have now: "rb_list (ws_rx_ring ws) = concat (map rfc_encode now) @ ?rest"
      "\<forall>fr \<in> set now. rfc_valid fr \<and> r_opcode fr \<noteq> 9" "\<forall>fr \<in> set later. rfc_valid fr \<and> r_opcode fr \<noteq> 9"
      "length now = N \<or> incomplete ?rest"
    using less.prems(2-4) N(2,4) by auto
  obtain ws1 w1 where run: "process_frames os ws w = Some (ws1, w1)" and rcv: "received inbox now ?rest ws w ws1 w1"
    and ptr: "rb_read_ptr (ws_rx_ring ws1) = rb_read_ptr (ws_rx_ring ws) + length (concat (map rfc_encode now))"
    using pass_received [OF obs less.prems(1) now(1,2) now(4) [unfolded N_def] N(3) [unfolded N_def]] by metis
  show ?case
  proof (cases "frs = []")
    case True
    then have "now = []" "later = []" using N(2) by simp_all
    with True rcv ptr drain_frames_step [OF run] show ?thesis by auto
  next
    case False
    then have ne: "now \<noteq> []" using N(1,2,4) by auto
    then obtain fr frs' where fr: "now = fr # frs'" by (cases now) auto
    with now(2) have "2 \<le> length (rfc_encode fr)"
      using encode_sizes(3,4) [of fr] by simp
    then have "length (concat (map rfc_encode now)) \<noteq> 0"
      unfolding fr by auto
    then have "drain_frames os ws w = drain_frames os ws1 w1"
      using ptr by (simp add: drain_frames_step [OF run])
    moreover have "\<exists>ws' w'. drain_frames os ws1 w1 = Some (ws', w') \<and> received inbox later rest ws1 w1 ws' w'"
      using less.prems(4) rcv now(3) N(2) ne by (intro less.IH) (simp_all add: received_def)
    ultimately show ?thesis
      using received_trans [OF rcv] unfolding N(2) by auto
  qed
qed

text \<open>
  C7. Draining terminates and loses nothing. The loop that processes frames until the read
  pointer stands still returns, however many frames the ring holds (one pass handles at most
  1000), with every message delivered once and in order and only the unfinished frame left. The
  frames are of every opcode but ping, and the contents do not wrap around the end of the ring.
\<close>

theorem drain_frames_returns:
  assumes "observes os inbox" and "rx_ok ws" and "rb_inv (ws_rx_ring ws)" and "rb_buf (ws_rx_ring ws) \<noteq> 0"
    and "rb_read_ptr (ws_rx_ring ws) \<le> rb_write_ptr (ws_rx_ring ws)"
    and "rb_list (ws_rx_ring ws) = concat (map rfc_encode frs) @ rest"
    and "\<forall>fr \<in> set frs. rfc_valid fr \<and> r_opcode fr \<noteq> 9" and "incomplete rest"
  shows "\<exists>ws' w'. drain_frames os ws w = Some (ws', w') \<and>
    inbox w' = inbox w @ concat (map delivered frs) \<and> rb_list (ws_rx_ring ws') = rest \<and>
    messages_received (ws_metrics ws') =
      (messages_received (ws_metrics ws) + length (concat (map delivered frs))) mod 2 ^ 64"
  using drain_stream [OF assms(1) _ assms(6-8), of w] assms(2-5) by (auto simp: rx_ready_def received_def)

theorem drain_frames_returns_witness:
  "\<exists>ws' w'. drain_frames demo_ws_os (demo_ws (concat (map rfc_encode (replicate 3000 hello_frame)))) (demo_start [] []) =
       Some (ws', w') \<and> dw_messages w' = replicate 3000 [72, 105] \<and> rb_list (ws_rx_ring ws') = []"
proof -
  have gen: "\<exists>ws' w'. drain_frames demo_ws_os (demo_ws (concat (map rfc_encode (replicate n hello_frame)))) (demo_start [] []) =
       Some (ws', w') \<and> dw_messages w' = replicate n [72, 105] \<and> rb_list (ws_rx_ring ws') = []" if n: "n < 2 ^ 50" for n
  proof -
    let ?frs = "replicate n hello_frame"
    let ?d = "concat (map rfc_encode ?frs)"
    have l: "length ?d < 2 ^ 60"
      using n by (simp add: length_concat hello_length sum_list_replicate)
    have op: "r_opcode hello_frame \<noteq> 9"
      by (simp add: hello_frame_def)
    have "concat (map delivered (replicate n hello_frame)) = replicate n [72, 105]"
      by (induction n) (simp_all add: delivered_def hello_frame_def)
    moreover have "\<exists>ws' w'. drain_frames demo_ws_os (demo_ws ?d) (demo_start [] []) = Some (ws', w') \<and>
      dw_messages w' = dw_messages (demo_start [] []) @ concat (map delivered ?frs) \<and> rb_list (ws_rx_ring ws') = [] \<and>
      messages_received (ws_metrics ws') =
        (messages_received (ws_metrics (demo_ws ?d)) + length (concat (map delivered ?frs))) mod 2 ^ 64"
      using l example_frames(1) op
      by (intro drain_frames_returns [OF demo_observes demo_rx_ok]) (simp_all add: demo_ws_ring incomplete_def)
    ultimately show ?thesis
      by (auto simp: demo_start_def)
  qed
  show ?thesis
    by (rule gen) simp
qed

subsection \<open>A lone byte\<close>

lemma lone_byte_loop:
  assumes obs: "observes os inbox" and ok: "rx_ok ws" and buf: "rb_buf (ws_rx_ring ws) = buf"
  shows "\<exists>ws' w'. process_frames_loop os (Suc k) buf base 1 0 0 ws w = Some (0, ws', w') \<and> inbox w' = inbox w \<and>
    ws_rx_ring ws' = ws_rx_ring ws \<and> errors_total (ws_metrics ws') = add64 (errors_total (ws_metrics ws)) 1"
proof -
  obtain idx f pool where g: "get_frame_from_pool ws = Some (idx, f, ws\<lparr>ws_frame_pool := pool, ws_frame_pool_idx := idx\<rparr>)"
      "0 \<le> idx" "idx < 16" "length pool = 16"
    using ok get_frame_total unfolding rx_ok_def by metis
  let ?ws = "count_error (count_parse_error (ws\<lparr>ws_frame_pool_idx := idx, ws_frame_pool := pool[nat idx := f]\<rparr>))"
  obtain w' where w': "WS_LOG os ?ws WS_LOG_WARN (bytes_of ''Frame parse error at offset '' @ decimal 0) w = Some (?ws, w')"
      "inbox w' = inbox w"
    using obs by (rule observes_log)
  have "process_frames_loop os k buf base 1 1 0 ?ws w' = Some (0, ?ws, w')"
    by (cases k) simp_all
  then have "process_frames_loop os (Suc k) buf base 1 0 0 ws w = Some (0, ?ws, w')"
    using g buf w'(1) by (simp add: neon_parse_ws_frame_def store_frame_total add64_def)
  then show ?thesis
    using w'(2) by (auto simp: count_error_def count_parse_error_def)
qed

text \<open>
  A single buffered byte is counted as an error. When only the first byte of a frame has
  arrived, every pass over the ring adds one to the error counters, although the byte is valid
  and stays in the ring.
\<close>

theorem lone_byte_counted_as_error:
  assumes "observes os inbox" and "rx_ok ws" and "rb_inv (ws_rx_ring ws)" and "rb_buf (ws_rx_ring ws) \<noteq> 0"
    and "rb_list (ws_rx_ring ws) = [b]"
  shows "\<exists>ws' w'. process_frames os ws w = Some (ws', w') \<and> inbox w' = inbox w \<and> rb_list (ws_rx_ring ws') = [b] \<and>
    errors_total (ws_metrics ws') = add64 (errors_total (ws_metrics ws)) 1"
proof -
  have "(1000 :: nat) = Suc 999" by simp
  then show ?thesis
    using lone_byte_loop [OF assms(1,2) refl, of 999 "rb_read_ptr (ws_rx_ring ws)" w] assms(4,5)
    unfolding process_frames_def read_inline_eq [OF assms(3)] by auto
qed

theorem lone_byte_counted_as_error_witness:
  "\<exists>ws' w'. process_frames demo_ws_os (demo_ws [0x81]) (demo_start [] []) = Some (ws', w') \<and>
     rb_list (ws_rx_ring ws') = [0x81] \<and> errors_total (ws_metrics ws') = 1"
proof -
  have "errors_total (ws_metrics (demo_ws [0x81])) = 0"
    by (simp add: demo_ws_simps zero_metrics_def)
  with lone_byte_counted_as_error [OF demo_observes demo_rx_ok [of "[0x81]"], of "0x81" "demo_start [] []"] show ?thesis
    by (auto simp: demo_ws_ring add64_def)
qed

end
