(* ===== verification/Ws_Session.thy ===== *)
theory Ws_Session
  imports Receive_Props
begin

text \<open>
  What the whole interface keeps of the object. \<open>object_predicate\<close> is the contract of a
  predicate on the object that no elementary change of the library can break; its lemmas show
  that no function of the library breaks it either. Two predicates satisfy it: the invariant
  \<open>ws_inv\<close>, and having reached a phase of the connection. The application's callbacks take part
  through the functions a callback may call.
\<close>

subsection \<open>Rings\<close>

text \<open>A ring in use, and what every operation on a ring keeps.\<close>

definition ring_live :: "RingBuffer \<Rightarrow> bool" where
  "ring_live rb \<longleftrightarrow> rb_inv rb \<and> rb_buf rb \<noteq> 0"

definition ring_step :: "RingBuffer \<Rightarrow> RingBuffer \<Rightarrow> bool" where
  "ring_step rb rb' \<longleftrightarrow> (rb = zero_ring \<longrightarrow> rb' = zero_ring) \<and> (ring_live rb \<longrightarrow> ring_live rb')"

lemma ring_step_refl [simp]: "ring_step rb rb"
  by (simp add: ring_step_def)

lemma ring_step_trans: "ring_step a b \<Longrightarrow> ring_step b c \<Longrightarrow> ring_step a c"
  by (simp add: ring_step_def)

lemma ring_step_mem: "length m = length (rb_mem rb) \<Longrightarrow> ring_step rb (rb\<lparr>rb_mem := m\<rparr>)"
  by (auto simp: ring_step_def ring_live_def rb_inv_def zero_ring_def)

lemma ring_step_read: "p < rb_size rb \<Longrightarrow> ring_step rb (rb\<lparr>rb_read_ptr := p\<rparr>)"
  by (auto simp: ring_step_def ring_live_def rb_inv_def zero_ring_def)

lemma ring_step_write: "p < rb_size rb \<Longrightarrow> ring_step rb (rb\<lparr>rb_write_ptr := p\<rparr>)"
  by (auto simp: ring_step_def ring_live_def rb_inv_def zero_ring_def)

lemma ring_step_fill:
  assumes "length m = length (rb_mem rb)" and "p < rb_size rb"
  shows "ring_step rb (rb\<lparr>rb_mem := m, rb_write_ptr := p\<rparr>)"
  using ring_step_trans [OF ring_step_mem [OF assms(1)] ring_step_write [of p "rb\<lparr>rb_mem := m\<rparr>"]] assms(2) by simp

lemma umod_post [post_rules]: "(\<And>c. c < b \<Longrightarrow> P c) \<Longrightarrow> post (umod a b) P"
  by (simp add: umod_def)

lemma mem_write_post [post_rules]: "(\<And>m'. length m' = length m \<Longrightarrow> P m') \<Longrightarrow> post (mem_write m i d) P"
  by (simp add: mem_write_def)

lemma mem_read_post [post_rules]: "(\<And>d. length d = n \<Longrightarrow> P d) \<Longrightarrow> post (mem_read m i n) P"
  by (simp add: mem_read_def)

lemma arr_set_post [post_rules]: "(\<And>ys. length ys = length xs \<Longrightarrow> P ys) \<Longrightarrow> post (arr_set xs i x) P"
  by (simp add: arr_set_def)

lemma any_post: "(\<And>x. P x) \<Longrightarrow> post m P"
  by (simp add: post_def)

lemma memcpy_post [post_rules]: "(\<And>m'. length m' = length m \<Longrightarrow> P m') \<Longrightarrow> post (memcpy m i d j n) P"
  unfolding memcpy_def by (intro post_rules) simp

lemma copy_in_post [post_rules]: "(\<And>m'. length m' = length m \<Longrightarrow> P m') \<Longrightarrow> post (copy_in sz m wp d n) P"
  unfolding copy_in_def by (intro post_rules) simp_all

lemma ringbuffer_write_post [post_rules]:
  "(\<And>n rb'. ring_step rb rb' \<Longrightarrow> P (n, rb')) \<Longrightarrow> post (ringbuffer_write rb d) P"
  unfolding ringbuffer_write_def Let_def by (intro post_rules) (simp_all add: ring_step_fill)

lemma copy_out_post [post_rules]: "(\<And>d. P d) \<Longrightarrow> post (copy_out sz m rp n) P"
  by (rule any_post)

lemma ringbuffer_read_post [post_rules]:
  "(\<And>n d rb'. ring_step rb rb' \<Longrightarrow> P (n, d, rb')) \<Longrightarrow> post (ringbuffer_read rb b len) P"
  unfolding ringbuffer_read_def Let_def by (intro post_rules) (simp_all add: ring_step_read)

subsection \<open>Sockets and TLS\<close>

text \<open>Patterns with a nested pair or a kernel result in front.\<close>

lemma post_case_prod_app [post_rules]:
  "(\<And>a b. x = (a, b) \<Longrightarrow> post (f a b y) P) \<Longrightarrow> post ((case x of (a, b) \<Rightarrow> f a b) y) P"
  by (cases x) simp

lemma post_case_recv [post_rules]:
  "(\<And>d cs. r = Recv d cs \<Longrightarrow> post (f d cs) P) \<Longrightarrow> (\<And>e. r = Recv_error e \<Longrightarrow> post (g e) P) \<Longrightarrow>
   post (case r of Recv d cs \<Rightarrow> f d cs | Recv_error e \<Rightarrow> g e) P"
  by (cases r) simp_all

lemma post_case_backend [post_rules]:
  "(b = SSL_BACKEND_SECURETRANSPORT \<Longrightarrow> post m P) \<Longrightarrow> (b = SSL_BACKEND_OPENSSL \<Longrightarrow> post n P) \<Longrightarrow>
   post (case b of SSL_BACKEND_SECURETRANSPORT \<Rightarrow> m | SSL_BACKEND_OPENSSL \<Rightarrow> n) P"
  by (cases b) simp_all

lemma ssl_read_post [post_rules]:
  assumes "\<And>n c' rb' w'. ring_step rb rb' \<Longrightarrow> P (n, c', rb', w')"
  shows "post (ssl_read os c rb w) P"
  unfolding ssl_read_def ssl_read_securetransport_def ssl_read_openssl_def Let_def
  by (intro post_rules any_post [of _ "st_SSLRead _ _ _ _ _ _ _"]) (simp_all add: assms ring_step_fill ring_step_mem)

lemma ssl_write_post [post_rules]:
  assumes "\<And>n c' rb' w'. ring_step rb rb' \<Longrightarrow> P (n, c', rb', w')"
  shows "post (ssl_write os c rb w) P"
  unfolding ssl_write_def ssl_write_securetransport_def ssl_write_openssl_def Let_def
  by (intro post_rules any_post [of _ "st_SSLWrite _ _ _ _ _ _ _"]) (simp_all add: assms ring_step_read)

lemma arr_get_post [post_rules]: "(\<And>x. P x) \<Longrightarrow> post (arr_get xs i) P"
  by (rule any_post)

lemma io_write_post [post_rules]:
  assumes "\<And>n h' w'. (\<And>p. ring_step (h p) (h' p)) \<Longrightarrow> P (n, h', w')"
  shows "post (io_write os ctx i h w) P"
  unfolding io_write_def Let_def using assms
  by (intro post_rules any_post [of _ "io_gather _ _"]) (auto simp: ring_step_read)

text \<open>A step of the socket table keeps its invariant and does not remove the table.\<close>

definition io_step :: "ring_id IOContext option \<Rightarrow> ring_id IOContext option \<Rightarrow> bool" where
  "io_step a b \<longleftrightarrow> (a = None \<longleftrightarrow> b = None) \<and> ((\<forall>io. a = Some io \<longrightarrow> io_inv io) \<longrightarrow> (\<forall>io. b = Some io \<longrightarrow> io_inv io))"

lemma io_step_refl [simp]: "io_step a a"
  by (simp add: io_step_def)

lemma nic_sockets_post [post_rules]:
  assumes "\<And>ys. length ys = length xs \<Longrightarrow> P ys"
  shows "post (case nic of None \<Rightarrow> Some xs | Some (ns, ticks) \<Rightarrow> arr_set xs i (g ns ticks)) P"
  by (intro post_rules) (simp_all add: assms)

lemma io_read_post [post_rules]:
  assumes "\<And>n ctx' h' w'. (\<And>p. ring_step (h p) (h' p)) \<Longrightarrow> io_step (Some ctx) (Some ctx') \<Longrightarrow> P (n, ctx', h', w')"
  shows "post (io_read os ctx i h w) P"
  unfolding io_read_def Let_def io_advance_write_def
  by (intro post_rules any_post [of _ "capture_nic _ _ _"] assms)
    (simp_all add: ring_step_fill io_step_def io_inv_def)

lemma find_socket_post [post_rules]:
  assumes "\<And>x. (\<And>i. x = Some i \<Longrightarrow> i \<in> set is) \<Longrightarrow> P x"
  shows "post (find_socket socks fd is) P"
proof -
  have "find_socket socks fd is = Some (Some i) \<Longrightarrow> i \<in> set is" for i
    by (induction "is") (auto simp: bind_eq_Some_conv split: if_splits)
  with assms show ?thesis by (auto simp: post_def)
qed

lemma io_remove_socket_post [post_rules]:
  assumes "\<And>r ctx' w'. io_step (Some ctx) (Some ctx') \<Longrightarrow> P (r, ctx', w')"
  shows "post (io_remove_socket os ctx fd w) P"
  unfolding io_remove_socket_def Let_def
  by (intro post_rules assms) (auto simp: io_step_def io_inv_def)

subsection \<open>Predicates on the object\<close>

text \<open>The fields a predicate may depend on, and the counters at their widths.\<close>

definition core ::
  "WebSocket \<Rightarrow> WSState \<times> ring_id IOContext option \<times> RingBuffer \<times> RingBuffer \<times> WebSocketMetrics \<times>
     WSFrame list \<times> int \<times> u32 \<times> u64 list option \<times> size_t \<times> size_t \<times> size_t" where
  "core ws = (ws_state ws, ws_io_ctx ws, ws_rx_ring ws, ws_tx_ring ws, ws_metrics ws, ws_frame_pool ws,
     ws_frame_pool_idx ws, ws_frame_parse_errors ws, ws_latency_samples ws, ws_latency_sample_count ws,
     ws_latency_sample_capacity ws, ws_latency_sample_idx ws)"

definition metrics_typed :: "WebSocketMetrics \<Rightarrow> bool" where
  "metrics_typed m \<longleftrightarrow> messages_received m < 2 ^ 64 \<and> messages_sent m < 2 ^ 64 \<and> errors_total m < 2 ^ 64 \<and>
     bytes_received m < 2 ^ 64 \<and> bytes_sent m < 2 ^ 64 \<and> connection_uptime_ns m < 2 ^ 64"

locale object_predicate =
  fixes P :: "WebSocket \<Rightarrow> bool"
  assumes other: "P ws \<Longrightarrow> core ws' = core ws \<Longrightarrow> P ws'"
    and closing: "P ws \<Longrightarrow> P (ws\<lparr>ws_state := WS_STATE_CLOSING\<rparr>)"
    and closed: "P ws \<Longrightarrow> P (ws\<lparr>ws_state := WS_STATE_CLOSED\<rparr>)"
    and opened: "P ws \<Longrightarrow> ws_state ws = WS_STATE_CONNECTING \<Longrightarrow> P (ws\<lparr>ws_state := WS_STATE_CONNECTED\<rparr>)"
    and io: "P ws \<Longrightarrow> io_step (ws_io_ctx ws) io \<Longrightarrow> P (ws\<lparr>ws_io_ctx := io\<rparr>)"
    and rx: "P ws \<Longrightarrow> ring_step (ws_rx_ring ws) rb \<Longrightarrow> P (ws\<lparr>ws_rx_ring := rb\<rparr>)"
    and tx: "P ws \<Longrightarrow> ring_step (ws_tx_ring ws) rb \<Longrightarrow> P (ws\<lparr>ws_tx_ring := rb\<rparr>)"
    and metrics: "P ws \<Longrightarrow> (metrics_typed (ws_metrics ws) \<Longrightarrow> metrics_typed m) \<Longrightarrow> P (ws\<lparr>ws_metrics := m\<rparr>)"
    and errors: "P ws \<Longrightarrow> n < 2 ^ 32 \<Longrightarrow> P (ws\<lparr>ws_frame_parse_errors := n\<rparr>)"
    and pool: "P ws \<Longrightarrow> (length (ws_frame_pool ws) = 16 \<Longrightarrow> length p = 16) \<Longrightarrow> P (ws\<lparr>ws_frame_pool := p\<rparr>)"
    and pool_idx: "P ws \<Longrightarrow> 0 \<le> i \<Longrightarrow> i < 16 \<Longrightarrow> P (ws\<lparr>ws_frame_pool_idx := i\<rparr>)"
    and latency: "P ws \<Longrightarrow>
      (latency_inv ws \<Longrightarrow> latency_inv (ws\<lparr>ws_latency_samples := s, ws_latency_sample_idx := j, ws_latency_sample_count := c\<rparr>)) \<Longrightarrow>
      P (ws\<lparr>ws_latency_samples := s, ws_latency_sample_idx := j, ws_latency_sample_count := c\<rparr>)"
begin

lemma ws_ssl_write_keeps [post_rules]:
  assumes "P ws" and "\<And>n ws' w'. P ws' \<Longrightarrow> ws_state ws' = ws_state ws \<Longrightarrow> Q (n, ws', w')"
  shows "post (ws_ssl_write os ws w) Q"
  unfolding ws_ssl_write_def
  by (intro post_rules assms(2) tx) (simp_all add: other [OF assms(1)] core_def)

lemma ws_ssl_read_keeps [post_rules]:
  assumes "P ws" and "\<And>n ws' w'. P ws' \<Longrightarrow> ws_state ws' = ws_state ws \<Longrightarrow> Q (n, ws', w')"
  shows "post (ws_ssl_read os ws w) Q"
  unfolding ws_ssl_read_def
  by (intro post_rules assms(2) rx) (simp_all add: other [OF assms(1)] core_def)

lemma set_rings_keeps:
  assumes "P ws" and "\<And>p. ring_step (ws_rings ws p) (h p)"
  shows "P (ws_set_rings h ws)"
  using assms(1) assms(2) [of Rx] assms(2) [of Tx] by (simp add: ws_set_rings_def ws_rings_def rx tx)

lemma ws_io_write_keeps [post_rules]:
  assumes "P ws" and "\<And>n ws' w'. P ws' \<Longrightarrow> ws_state ws' = ws_state ws \<Longrightarrow> Q (n, ws', w')"
  shows "post (ws_io_write os ws w) Q"
  unfolding ws_io_write_def
  by (intro post_rules assms(2)) (simp_all add: assms(1) set_rings_keeps, simp_all add: ws_set_rings_def)

lemma ws_io_read_keeps [post_rules]:
  assumes "P ws" and "\<And>n ws' w'. P ws' \<Longrightarrow> ws_state ws' = ws_state ws \<Longrightarrow> Q (n, ws', w')"
  shows "post (ws_io_read os ws i w) Q"
  unfolding ws_io_read_def
  by (intro post_rules assms(2) io) (simp_all add: assms(1) set_rings_keeps, simp_all add: ws_set_rings_def)

lemma ws_transmit_keeps [post_rules]:
  assumes "P ws" and "\<And>ws' w'. P ws' \<Longrightarrow> ws_state ws' = ws_state ws \<Longrightarrow> Q (ws', w')"
  shows "post (ws_transmit os ws w) Q"
  unfolding ws_transmit_def by (intro post_rules) (simp_all add: assms)

end

subsection \<open>What a callback may do\<close>

text \<open>
  A callback of the application may send, close, read and reset the metrics and change the
  settings, and do anything to the rest of the world. Processing events, connecting and
  destroying the object inside a callback are left out. Nothing in the interface forbids them;
  this is a restriction of the model, and the theorems that assume it say nothing about an
  application whose callbacks do so.
\<close>

inductive callback_step :: "('w, 'z) ws_os_scheme \<Rightarrow> WebSocket \<times> 'w \<Rightarrow> WebSocket \<times> 'w \<Rightarrow> bool"
  for os :: "('w, 'z) ws_os_scheme" where
  call_send: "websocket_send os ws d t w = Some (r, ws', w') \<Longrightarrow> callback_step os (ws, w) (ws', w')"
| call_close: "websocket_close os ws w = Some (r, ws', w') \<Longrightarrow> callback_step os (ws, w) (ws', w')"
| call_get_metrics: "websocket_get_metrics os ws w = Some (m, ws', w') \<Longrightarrow> callback_step os (ws, w) (ws', w')"
| call_reset_metrics: "callback_step os (ws, w) (websocket_reset_metrics ws, w)"
| call_set_on_message: "callback_step os (ws, w) (websocket_set_on_message c u ws, w)"
| call_set_on_error: "callback_step os (ws, w) (websocket_set_on_error c u ws, w)"
| call_set_on_metrics: "callback_step os (ws, w) (websocket_set_on_metrics c u ws, w)"
| call_set_on_health: "callback_step os (ws, w) (websocket_set_on_health c u ws, w)"
| call_set_log: "callback_step os (ws, w) (websocket_set_log_callback c u ws, w)"
| call_set_reconnect: "callback_step os (ws, w) (websocket_set_reconnect_config rc ws, w)"
| call_set_heartbeat: "callback_step os (ws, w) (websocket_set_heartbeat_config hc ws, w)"
| call_other: "callback_step os (ws, w) (ws, w')"

definition callbacks_use_interface :: "('w, 'z) ws_os_scheme \<Rightarrow> bool" where
  "callbacks_use_interface os \<longleftrightarrow>
     (\<forall>cb ws d u w. post (cb_message os cb ws d u w) (\<lambda>x. (callback_step os)\<^sup>*\<^sup>* (ws, w) x)) \<and>
     (\<forall>cb ws c m u w. post (cb_error os cb ws c m u w) (\<lambda>x. (callback_step os)\<^sup>*\<^sup>* (ws, w) x)) \<and>
     (\<forall>cb ws m u w. post (cb_metrics os cb ws m u w) (\<lambda>x. (callback_step os)\<^sup>*\<^sup>* (ws, w) x)) \<and>
     (\<forall>cb ws h r u w. post (cb_health os cb ws h r u w) (\<lambda>x. (callback_step os)\<^sup>*\<^sup>* (ws, w) x)) \<and>
     (\<forall>cb ws l m u w. post (cb_log os cb ws l m u w) (\<lambda>x. (callback_step os)\<^sup>*\<^sup>* (ws, w) x)) \<and>
     (\<forall>cb ws u w. post (cb_heartbeat_timeout os cb ws u w) (\<lambda>x. (callback_step os)\<^sup>*\<^sup>* (ws, w) x))"

lemma get_time_post [post_rules]: "(\<And>t w'. P (t, w')) \<Longrightarrow> post (get_time_ns os w) P"
  by (rule any_post) auto

lemma latency_percentiles_post [post_rules]:
  "(\<And>a b w'. P (a, b, w')) \<Longrightarrow> post (calculate_latency_percentiles os ws w) P"
  by (rule any_post) auto

context object_predicate
begin

lemma count_sent_keeps: "P ws \<Longrightarrow> P (count_sent n ws)"
  unfolding count_sent_def by (rule metrics) (simp_all add: metrics_typed_def add64_def)

lemma websocket_send_keeps [post_rules]:
  assumes "P ws" and "\<And>n ws' w'. P ws' \<Longrightarrow> ws_state ws' = ws_state ws \<Longrightarrow> Q (n, ws', w')"
  shows "post (websocket_send os ws d t w) Q"
  unfolding websocket_send_def Let_def
  by (intro post_rules assms(2) tx count_sent_keeps) (simp_all add: assms tx count_sent_def)

lemma websocket_send_pong_keeps [post_rules]:
  assumes "P ws" and "\<And>n ws' w'. P ws' \<Longrightarrow> ws_state ws' = ws_state ws \<Longrightarrow> Q (n, ws', w')"
  shows "post (websocket_send_pong os ws d n w) Q"
  unfolding websocket_send_pong_def Let_def
  by (intro post_rules any_post [of _ d] assms(2) tx) (simp_all add: assms tx)

lemma websocket_close_keeps [post_rules]:
  assumes "P ws" and "\<And>n ws' w'. P ws' \<Longrightarrow> ws_state ws' = WS_STATE_CLOSED \<Longrightarrow> Q (n, ws', w')"
  shows "post (websocket_close os ws w) Q"
proof -
  have fd: "P (ws'\<lparr>ws_fd := i\<rparr>)" if "P ws'" for ws' i
    using other [OF that] by (simp add: core_def)
  show ?thesis
    unfolding websocket_close_def
    by (intro post_rules assms(2) closed) (simp_all add: assms(1) io fd)
qed

lemma websocket_get_metrics_keeps [post_rules]:
  assumes "P ws" and "\<And>m ws' w'. P ws' \<Longrightarrow> ws_state ws' = ws_state ws \<Longrightarrow> Q (m, ws', w')"
  shows "post (websocket_get_metrics os ws w) Q"
  unfolding websocket_get_metrics_def Let_def
  by (intro post_rules assms(2) metrics assms(1)) (simp_all add: metrics_typed_def sub64_less [simplified])

lemma websocket_reset_metrics_keeps:
  assumes "P ws" shows "P (websocket_reset_metrics ws)"
proof -
  let ?ws = "ws\<lparr>ws_metrics := zero_metrics\<rparr>"
  have "P (?ws\<lparr>ws_latency_samples := ws_latency_samples ?ws, ws_latency_sample_idx := 0, ws_latency_sample_count := 0\<rparr>)"
    by (intro latency metrics assms) (auto simp: metrics_typed_def zero_metrics_def latency_inv_def)
  then show ?thesis
    by (rule other) (simp add: websocket_reset_metrics_def core_def)
qed

lemma settings_keep:
  assumes "P ws"
  shows "P (websocket_set_on_message c u ws)" "P (websocket_set_on_error c u ws)" "P (websocket_set_on_metrics c u ws)"
    "P (websocket_set_on_health c u ws)" "P (websocket_set_log_callback c u ws)"
    "P (websocket_set_reconnect_config rc ws)" "P (websocket_set_heartbeat_config hc ws)"
  by (rule other [OF assms], simp add: core_def websocket_set_on_message_def websocket_set_on_error_def
      websocket_set_on_metrics_def websocket_set_on_health_def websocket_set_log_callback_def
      websocket_set_reconnect_config_def websocket_set_heartbeat_config_def Let_def)+

lemma callback_steps_keep:
  assumes "(callback_step os)\<^sup>*\<^sup>* a b" and "P (fst a)"
  shows "P (fst b)"
  using assms
proof (induction rule: rtranclp_induct)
  case (step b c)
  then have "P (fst b)" by simp
  with step.hyps(2) show ?case
  proof (cases rule: callback_step.cases)
    case (call_send ws d t w r ws' w')
    have "post (websocket_send os ws d t w) (\<lambda>(_, ws', _). P ws')"
      using \<open>P (fst b)\<close> call_send by (intro post_rules) simp_all
    with call_send show ?thesis by (auto dest: postD)
  next
    case (call_close ws w r ws' w')
    have "post (websocket_close os ws w) (\<lambda>(_, ws', _). P ws')"
      using \<open>P (fst b)\<close> call_close by (intro post_rules) simp_all
    with call_close show ?thesis by (auto dest: postD)
  next
    case (call_get_metrics ws w m ws' w')
    have "post (websocket_get_metrics os ws w) (\<lambda>(_, ws', _). P ws')"
      using \<open>P (fst b)\<close> call_get_metrics by (intro post_rules) simp_all
    with call_get_metrics show ?thesis by (auto dest: postD)
  qed (simp_all add: websocket_reset_metrics_keeps settings_keep)
qed

lemma callbacks_keep [post_rules]:
  assumes "callbacks_use_interface os" and "P ws" and "\<And>ws' w'. P ws' \<Longrightarrow> Q (ws', w')"
  shows "post (cb_message os cb ws d u w) Q" "post (cb_error os cb ws c m u w) Q" "post (cb_metrics os cb ws mt u w) Q"
    "post (cb_health os cb ws h m u w) Q" "post (cb_log os cb ws l m u w) Q" "post (cb_heartbeat_timeout os cb ws u w) Q"
proof -
  have "post x (\<lambda>y. (callback_step os)\<^sup>*\<^sup>* (ws, w) y) \<Longrightarrow> post x Q" for x
    using callback_steps_keep [of os "(ws, w)"] assms(2,3) by (elim post_mono) force
  with assms(1) show "post (cb_message os cb ws d u w) Q" "post (cb_error os cb ws c m u w) Q"
    "post (cb_metrics os cb ws mt u w) Q" "post (cb_health os cb ws h m u w) Q" "post (cb_log os cb ws l m u w) Q"
    "post (cb_heartbeat_timeout os cb ws u w) Q"
    by (simp_all add: callbacks_use_interface_def)
qed

lemma WS_LOG_keeps [post_rules]:
  assumes "callbacks_use_interface os" and "P ws" and "\<And>ws' w'. P ws' \<Longrightarrow> Q (ws', w')"
  shows "post (WS_LOG os ws l m w) Q"
  unfolding WS_LOG_def by (intro post_rules) (simp_all add: assms)

lemma report_error_keeps [post_rules]:
  assumes "callbacks_use_interface os" and "P ws" and "\<And>ws' w'. P ws' \<Longrightarrow> Q (ws', w')"
  shows "post (report_error os ws c m w) Q"
  unfolding report_error_def by (intro post_rules) (simp_all add: assms)

end

subsection \<open>Receiving and processing\<close>

lemma update_latency_shape:
  assumes "update_latency_sample ws x = Some ws'"
  obtains s j c where "ws' = ws\<lparr>ws_latency_samples := s, ws_latency_sample_idx := j, ws_latency_sample_count := c\<rparr>"
    and "latency_inv ws \<longrightarrow> latency_inv ws'"
proof -
  have "\<exists>s j c. ws' = ws\<lparr>ws_latency_samples := s, ws_latency_sample_idx := j, ws_latency_sample_count := c\<rparr>"
  proof (cases "ws_latency_samples ws = None \<or> ws_latency_sample_capacity ws = 0")
    case True
    then have "update_latency_sample ws x = Some ws"
      by (auto simp: update_latency_sample_def split: option.split)
    with assms show ?thesis
      by (intro exI [of _ "ws_latency_samples ws"] exI [of _ "ws_latency_sample_idx ws"] exI [of _ "ws_latency_sample_count ws"]) simp
  next
    case False
    then obtain s where "ws_latency_samples ws = Some s" "ws_latency_sample_capacity ws \<noteq> 0" by auto
    with assms show ?thesis
      by (auto simp: update_latency_sample_def bind_eq_Some_conv)
  qed
  moreover have "latency_inv ws \<longrightarrow> latency_inv ws'"
    by (rule impI, erule update_latency_total [of ws x]) (use assms in simp)
  ultimately show ?thesis
    by (elim exE) (rule that)
qed

lemma consume_response_post [post_rules]:
  assumes "\<And>rb'. ring_step rb rb' \<Longrightarrow> P rb'"
  shows "post (consume_response rb base off) P"
  unfolding consume_response_def Let_def
  by (intro post_rules any_post [of _ "strstr _ _"] assms ring_step_refl)
    (simp_all add: ring_step_def)

lemma parse_handshake_response_post [post_rules]:
  assumes "\<And>r rb' w'. ring_step rb rb' \<Longrightarrow> P (r, rb', w')"
  shows "post (parse_handshake_response os rb w) P"
  unfolding parse_handshake_response_def Let_def
  by (intro post_rules any_post [of _ "find_http _ _ _ _"] any_post [of _ "headers_valid _"] assms ring_step_refl)

context object_predicate
begin

lemma update_latency_keeps [post_rules]:
  assumes "P ws" and "\<And>ws'. P ws' \<Longrightarrow> Q ws'"
  shows "post (update_latency_sample ws x) Q"
proof (rule postI)
  fix ws' assume "update_latency_sample ws x = Some ws'"
  then obtain s j c where "ws' = ws\<lparr>ws_latency_samples := s, ws_latency_sample_idx := j, ws_latency_sample_count := c\<rparr>"
      "latency_inv ws \<longrightarrow> latency_inv ws'"
    by (rule update_latency_shape)
  then show "Q ws'"
    using latency [OF assms(1), where s = s and j = j and c = c] assms(2) by simp
qed

lemma get_frame_keeps [post_rules]:
  assumes "P ws" and "\<And>i f ws'. P ws' \<Longrightarrow> Q (i, f, ws')"
  shows "post (get_frame_from_pool ws) Q"
  unfolding get_frame_from_pool_def Let_def
  by (intro post_rules assms(2) pool_idx pool) (simp_all add: assms(1))

lemma store_frame_keeps [post_rules]:
  assumes "P ws" and "\<And>ws'. P ws' \<Longrightarrow> Q ws'"
  shows "post (store_frame i f ws) Q"
  unfolding store_frame_def by (intro post_rules assms(2) pool) (simp_all add: assms(1))

lemma unmask_payload_keeps [post_rules]:
  assumes "P ws" and "\<And>ws'. P ws' \<Longrightarrow> Q ws'"
  shows "post (unmask_payload f pos ws) Q"
  unfolding unmask_payload_def by (intro post_rules assms(2) rx ring_step_mem) (simp_all add: assms(1))

lemma sample_latency_keeps [post_rules]:
  assumes "P ws" and "\<And>ws' w'. P ws' \<Longrightarrow> Q (ws', w')"
  shows "post (sample_latency os ws w) Q"
  unfolding sample_latency_def Let_def
  by (intro post_rules any_post [of _ "websocket_get_last_nic_timestamp_ns ws"] assms)

lemma count_keeps: "P ws \<Longrightarrow> P (count_received n ws)" "P ws \<Longrightarrow> P (count_error ws)" "P ws \<Longrightarrow> P (count_parse_error ws)"
  unfolding count_received_def count_error_def count_parse_error_def
  by (rule metrics errors; simp add: metrics_typed_def add64_def)+

lemma pong_time_keeps: "P ws \<Longrightarrow> P (ws\<lparr>ws_last_pong_received_ns := t\<rparr>)"
  by (erule other) (simp add: core_def)

lemma process_frame_keeps [post_rules]:
  assumes "callbacks_use_interface os" and "P ws" and "\<And>ws' w'. P ws' \<Longrightarrow> Q (ws', w')"
  shows "post (process_frame os f pos ws w) Q"
  unfolding process_frame_def
  by (intro post_rules assms(3) count_keeps pong_time_keeps closing) (simp_all add: assms)

lemma process_frames_loop_keeps [post_rules]:
  assumes "callbacks_use_interface os"
  shows "P ws \<Longrightarrow> (\<And>n ws' w'. P ws' \<Longrightarrow> Q (n, ws', w')) \<Longrightarrow> post (process_frames_loop os k buf base len off n ws w) Q"
proof (induction k arbitrary: off n ws w)
  case (Suc k)
  show ?case
    unfolding process_frames_loop.simps Let_def
    by (intro post_rules any_post [of _ "neon_parse_ws_frame _ _ _"] Suc.IH assms count_keeps Suc.prems) simp_all
qed simp

lemma process_frames_keeps [post_rules]:
  assumes "callbacks_use_interface os" and "P ws" and "\<And>ws' w'. P ws' \<Longrightarrow> Q (ws', w')"
  shows "post (process_frames os ws w) Q"
  unfolding process_frames_def Let_def
  by (intro post_rules assms(3) rx ring_step_read) (simp_all add: assms(1,2))

lemma drain_frames_keeps [post_rules]:
  assumes cb: "callbacks_use_interface os" and "P ws" and "\<And>ws' w'. P ws' \<Longrightarrow> Q (ws', w')"
  shows "post (drain_frames os ws w) Q"
proof (rule postI)
  fix x
  assume "drain_frames os ws w = Some x"
  then have "callbacks_use_interface os \<longrightarrow> P ws \<longrightarrow> P (fst x)"
  proof (induction os ws w x rule: drain_frames.raw_induct [rotated, consumes 1])
    case (1 drain os ws w y)
    have "post (do {
          (ws1, w1) \<leftarrow> process_frames os ws w;
          if rb_read_ptr (ws_rx_ring ws1) \<noteq> rb_read_ptr (ws_rx_ring ws) then drain os ws1 w1 else Some (ws1, w1)
        }) (\<lambda>y. P (fst y))" if "callbacks_use_interface os" "P ws"
      using 1(1) that by (intro post_rules postI) auto
    with postD [OF _ 1(2)] show ?case by blast
  qed
  with assms show "Q x" by (cases x) auto
qed

end

text \<open>The rest of \<open>websocket_process\<close>.\<close>

context object_predicate
begin

lemma times_keep:
  assumes "P ws"
  shows "P (ws\<lparr>ws_connection_start_ns := t\<rparr>)" "P (ws\<lparr>ws_last_ping_sent_ns := t\<rparr>)" "P (ws\<lparr>ws_metrics_last_report_ns := t\<rparr>)"
    "P (ws\<lparr>ws_last_health_check_ns := t\<rparr>)" "P (ws\<lparr>ws_current_health := h\<rparr>)" "P (reset_reconnect_state ws)"
  by (rule other [OF assms], simp add: core_def reset_reconnect_state_def)+

lemma ssl_handshake_loop_keeps [post_rules]:
  "P ws \<Longrightarrow> ws_state ws = st \<Longrightarrow> (\<And>ws' w'. P ws' \<Longrightarrow> ws_state ws' = st \<Longrightarrow> Q (ws', w')) \<Longrightarrow>
   post (ssl_handshake_loop os n i b ws w) Q"
proof (induction n arbitrary: i b ws w)
  case (Suc n)
  show ?case
    unfolding ssl_handshake_loop.simps Let_def by (intro post_rules Suc.IH Suc.prems) (simp_all add: Suc.prems)
qed simp

lemma ssl_read_tries_keeps [post_rules]:
  "P ws \<Longrightarrow> ws_state ws = st \<Longrightarrow> (\<And>ws' w'. P ws' \<Longrightarrow> ws_state ws' = st \<Longrightarrow> Q (ws', w')) \<Longrightarrow>
   post (ssl_read_tries os n ws w) Q"
proof (induction n arbitrary: ws w)
  case (Suc n)
  show ?case
    unfolding ssl_read_tries.simps by (intro post_rules Suc.IH Suc.prems) (simp_all add: Suc.prems)
qed simp

lemma drive_ssl_handshake_keeps [post_rules]:
  assumes "P ws" and "\<And>ws' w'. P ws' \<Longrightarrow> ws_state ws' = ws_state ws \<Longrightarrow> Q (ws', w')"
  shows "post (drive_ssl_handshake os ws w) Q"
  unfolding drive_ssl_handshake_def
  by (intro post_rules ssl_handshake_loop_keeps [where st = "ws_state ws"] ssl_read_tries_keeps [where st = "ws_state ws"])
    (simp_all add: assms)

lemma register_write_event_keeps [post_rules]:
  assumes "P ws" and "\<And>ws' w'. P ws' \<Longrightarrow> Q (ws', w')"
  shows "post (register_write_event os ws w) Q"
  unfolding register_write_event_def by (intro post_rules) (simp_all add: assms)

lemma record_connection_start_keeps [post_rules]:
  assumes "callbacks_use_interface os" and "P ws" and "\<And>ws' w'. P ws' \<Longrightarrow> Q (ws', w')"
  shows "post (record_connection_start os ws w) Q"
  unfolding record_connection_start_def Let_def by (intro post_rules times_keep) (simp_all add: assms)

lemma process_handshake_keeps [post_rules]:
  assumes "callbacks_use_interface os" and "P ws" and "ws_state ws = WS_STATE_CONNECTING"
    and "\<And>ws' w'. P ws' \<Longrightarrow> Q (ws', w')"
  shows "post (process_handshake os ws w) Q"
  unfolding process_handshake_def Let_def
  by (intro post_rules any_post [of _ "strstr _ _"] times_keep opened rx) (simp_all add: assms rx)

lemma process_event_keeps [post_rules]:
  assumes "callbacks_use_interface os" and "P ws" and "\<And>ws' w'. P ws' \<Longrightarrow> Q (ws', w')"
  shows "post (process_event os e ws w) Q"
  unfolding process_event_def
  by (intro post_rules closed) (simp_all add: assms)

lemma process_events_keeps [post_rules]:
  assumes "callbacks_use_interface os"
  shows "P ws \<Longrightarrow> (\<And>ws' w'. P ws' \<Longrightarrow> Q (ws', w')) \<Longrightarrow> post (process_events os es ws w) Q"
proof (induction es arbitrary: ws w)
  case (Cons e es)
  show ?case
    unfolding process_events.simps by (intro post_rules Cons.IH assms Cons.prems)
qed simp

lemma frame_drain_keeps [post_rules]:
  assumes "callbacks_use_interface os"
  shows "P ws \<Longrightarrow> (\<And>ws' w'. P ws' \<Longrightarrow> Q (ws', w')) \<Longrightarrow> post (frame_drain os n ws w) Q"
proof (induction n arbitrary: ws w)
  case (Suc n)
  show ?case
    unfolding frame_drain.simps by (intro post_rules Suc.IH assms Suc.prems) simp_all
qed simp

lemma ssl_drain_keeps [post_rules]:
  assumes "callbacks_use_interface os"
  shows "P ws \<Longrightarrow> (\<And>ws' w'. P ws' \<Longrightarrow> Q (ws', w')) \<Longrightarrow> post (ssl_drain os n i b ws w) Q"
proof (induction n arbitrary: i b ws w)
  case (Suc n)
  show ?case
    unfolding ssl_drain.simps Let_def by (intro post_rules Suc.IH closed assms Suc.prems)
qed simp

lemma drain_connection_keeps [post_rules]:
  assumes "callbacks_use_interface os" and "P ws" and "\<And>ws' w'. P ws' \<Longrightarrow> Q (ws', w')"
  shows "post (drain_connection os ws w) Q"
  unfolding drain_connection_def by (intro post_rules) (simp_all add: assms)

lemma check_health_keeps [post_rules]:
  assumes "callbacks_use_interface os" and "P ws" and "\<And>ws' w'. P ws' \<Longrightarrow> Q (ws', w')"
  shows "post (check_health os ws w) Q"
  unfolding check_health_def Let_def by (intro post_rules times_keep assms)

lemma report_metrics_keeps [post_rules]:
  assumes "callbacks_use_interface os" and "P ws" and "\<And>ws' w'. P ws' \<Longrightarrow> Q (ws', w')"
  shows "post (report_metrics_if_needed os ws w) Q"
  unfolding report_metrics_if_needed_def by (intro post_rules times_keep assms)

lemma heartbeat_ping_keeps [post_rules]:
  assumes "callbacks_use_interface os" and "P ws" and "\<And>ws' w'. P ws' \<Longrightarrow> Q (ws', w')"
  shows "post (heartbeat_ping os t i ws w) Q"
  unfolding heartbeat_ping_def Let_def by (intro post_rules times_keep assms tx)

lemma heartbeat_pong_check_keeps [post_rules]:
  assumes "callbacks_use_interface os" and "P ws" and "\<And>ws' w'. P ws' \<Longrightarrow> Q (ws', w')"
  shows "post (heartbeat_pong_check os t i ws w) Q"
  unfolding heartbeat_pong_check_def Let_def by (intro post_rules times_keep assms)

lemma check_heartbeat_keeps [post_rules]:
  assumes "callbacks_use_interface os" and "P ws" and "\<And>ws' w'. P ws' \<Longrightarrow> Q (ws', w')"
  shows "post (check_heartbeat os ws w) Q"
  unfolding check_heartbeat_def Let_def by (intro post_rules assms)

lemma websocket_process_keeps [post_rules]:
  assumes "callbacks_use_interface os" and "P ws" and "\<And>n ws' w'. P ws' \<Longrightarrow> Q (n, ws', w')"
  shows "post (websocket_process os ws w) Q"
  unfolding websocket_process_def periodic_checks_def
  by (intro post_rules any_post [of _ "io_poll _ _ _ _ _"] assms)

end

end
