(* ===== verification/Session_Props.thy ===== *)
theory Session_Props
  imports Ws_Session Ring_Props
begin

text \<open>
  The properties of the object over its whole life: the invariant that every function of the
  interface keeps in every order of calls, and the phases of a connection.
\<close>

subsection \<open>The invariant\<close>

definition ring_valid :: "RingBuffer \<Rightarrow> bool" where
  "ring_valid rb \<longleftrightarrow> rb = zero_ring \<or> ring_live rb"

definition phase :: "WebSocket \<Rightarrow> nat" where
  "phase ws =
     (case ws_state ws of WS_STATE_CONNECTING \<Rightarrow> 0 | WS_STATE_CONNECTED \<Rightarrow> 1 | WS_STATE_CLOSING \<Rightarrow> 2 | WS_STATE_CLOSED \<Rightarrow> 2)"

text \<open>The object has what an open connection needs: two live rings and a socket table.\<close>

definition equipped :: "WebSocket \<Rightarrow> bool" where
  "equipped ws \<longleftrightarrow> ring_live (ws_rx_ring ws) \<and> ring_live (ws_tx_ring ws) \<and> ws_io_ctx ws \<noteq> None"

definition ws_typed :: "WebSocket \<Rightarrow> bool" where
  "ws_typed ws \<longleftrightarrow> length (ws_frame_pool ws) = 16 \<and> 0 \<le> ws_frame_pool_idx ws \<and> ws_frame_pool_idx ws < 16 \<and>
     ws_frame_parse_errors ws < 2 ^ 32 \<and> metrics_typed (ws_metrics ws)"

definition ws_inv :: "WebSocket \<Rightarrow> bool" where
  "ws_inv ws \<longleftrightarrow> ws_typed ws \<and> latency_inv ws \<and> ring_valid (ws_rx_ring ws) \<and> ring_valid (ws_tx_ring ws) \<and>
     (\<forall>io. ws_io_ctx ws = Some io \<longrightarrow> io_inv io) \<and> (phase ws < 2 \<longrightarrow> equipped ws)"

definition ready :: "WebSocket \<Rightarrow> bool" where
  "ready ws \<longleftrightarrow> ws_inv ws \<and> equipped ws"

lemma latency_inv_more [simp]:
  "latency_inv (ws\<lparr>ws_io_ctx := io\<rparr>) = latency_inv ws" "latency_inv (ws\<lparr>ws_tx_ring := rb\<rparr>) = latency_inv ws"
  by (simp_all add: latency_inv_def)

lemma core_cong:
  assumes "core ws' = core ws"
  shows "phase ws' = phase ws" "equipped ws' = equipped ws" "ws_typed ws' = ws_typed ws" "latency_inv ws' = latency_inv ws"
    "ws_inv ws' = ws_inv ws"
proof -
  show *: "phase ws' = phase ws" "equipped ws' = equipped ws" "ws_typed ws' = ws_typed ws" "latency_inv ws' = latency_inv ws"
    using assms by (simp_all add: core_def phase_def equipped_def ws_typed_def latency_inv_def)
  show "ws_inv ws' = ws_inv ws"
    unfolding ws_inv_def * using assms by (simp add: core_def)
qed

lemma ring_step_ok: "ring_step a b \<Longrightarrow> ring_valid a \<Longrightarrow> ring_valid b"
  by (auto simp: ring_step_def ring_valid_def)

lemma ring_step_live: "ring_step a b \<Longrightarrow> ring_live a \<Longrightarrow> ring_live b"
  by (simp add: ring_step_def)

lemma inv_other: "ws_inv ws \<Longrightarrow> core ws' = core ws \<Longrightarrow> ws_inv ws'"
  using core_cong(5) [of ws' ws] by simp

lemma ready_other: "ready ws \<Longrightarrow> core ws' = core ws \<Longrightarrow> ready ws'"
  unfolding ready_def using core_cong(2,5) [of ws' ws] by simp

lemmas ws_laws = ws_inv_def ws_typed_def equipped_def phase_def io_step_def ring_step_ok ring_step_live

interpretation inv: object_predicate ws_inv
  by unfold_locales (erule (1) inv_other, simp_all add: ws_laws, auto)

interpretation ready: object_predicate ready
  by unfold_locales (erule (1) ready_other, simp_all add: ready_def ws_laws, auto)

interpretation phases: object_predicate "\<lambda>ws. k \<le> phase ws" for k
  by unfold_locales (use core_cong(1) in metis, simp_all add: phase_def split: WSState.splits)

subsection \<open>Connecting\<close>

text \<open>What the kernel promises of a granted region of memory.\<close>

definition vm_laws :: "('w, 'z) vm_os_scheme \<Rightarrow> bool" where
  "vm_laws os \<longleftrightarrow> (\<forall>n w a region w'. vm_allocate os n w = (Some (a, region), w') \<longrightarrow>
     0 < unat a \<and> length region = n \<and> unat a + n < 2 ^ 64)"

lemma ringbuffer_init_post:
  assumes "vm_laws os" and "\<And>r rb' w'. (if r = 0 then ring_live rb' else rb' = rb) \<Longrightarrow> P (r, rb', w')"
  shows "post (ringbuffer_init os rb w) P"
proof -
  have live: "ring_live \<lparr>rb_buf = align_up a, rb_mem = m, rb_size = RINGBUFFER_SIZE, rb_read_ptr = 0, rb_write_ptr = 0, rb_locked = l\<rparr>"
    if "vm_allocate os (RINGBUFFER_SIZE + RINGBUFFER_ALIGNMENT) w = (Some (a, region), w1)" "length m = RINGBUFFER_SIZE"
    for a region w1 m l
  proof -
    have a: "0 < unat a" "unat a + (RINGBUFFER_SIZE + RINGBUFFER_ALIGNMENT) < 2 ^ 64"
      using assms(1) that(1) unfolding vm_laws_def by blast+
    then have "unat (align_up a) = (unat a + 127) div 128 * 128"
      by (intro unat_align_up) (simp add: RINGBUFFER_SIZE_def RINGBUFFER_ALIGNMENT_def)
    moreover have "1 \<le> (unat a + 127) div 128"
      using div_le_mono [of 128 "unat a + 127" 128] a(1) by simp
    ultimately have "align_up a \<noteq> 0" by auto
    with that(2) show ?thesis
      by (simp add: ring_live_def rb_inv_def RINGBUFFER_SIZE_def)
  qed
  show ?thesis
    unfolding ringbuffer_init_def Let_def
    by (intro post_rules assms(2)) (auto simp: live)
qed

lemma ringbuffer_cleanup_zero:
  assumes "ring_valid rb" and "ringbuffer_cleanup os rb w = (rb', w')"
  shows "rb' = zero_ring"
  using assms by (auto simp: ringbuffer_cleanup_def ring_valid_def ring_live_def zero_ring_def Let_def split: if_splits)

lemma io_init_inv: "io_init os w = (r, io, w') \<Longrightarrow> io_inv io"
  by (auto simp: io_init_def zero_context_def io_inv_def IO_MAX_SOCKETS_def Let_def split: if_splits prod.splits)

lemma io_add_socket_post [post_rules]:
  assumes "\<And>r ctx' w'. io_step (Some ctx) (Some ctx') \<Longrightarrow> P (r, ctx', w')"
  shows "post (io_add_socket os ctx fd rx tx u w) P"
  unfolding io_add_socket_def Let_def
  by (intro post_rules assms) (auto simp: io_step_def io_inv_def IO_MAX_SOCKETS_def)

text \<open>While connecting, the object is in the state before, and closed when it starts closed.\<close>

definition idle :: "WebSocket \<Rightarrow> bool" where
  "idle ws \<longleftrightarrow> ws_inv ws \<and> ws_state ws = WS_STATE_CLOSED"

lemma idle_phase: "ws_state ws = WS_STATE_CLOSED \<Longrightarrow> phase ws = 2"
  by (simp add: phase_def)

lemma idle_other: "idle ws \<Longrightarrow> core ws' = core ws \<Longrightarrow> idle ws'"
  unfolding idle_def using inv_other [of ws ws'] by (simp add: core_def)

lemma connect_cleanup_post [post_rules]:
  assumes "idle ws" and "\<And>r ws' w'. idle ws' \<Longrightarrow> P (r, ws', w')"
  shows "post (connect_cleanup os ws w) P"
proof -
  have "idle (ws1\<lparr>ws_io_ctx := None, ws_url := None, ws_rx_ring := rx, ws_tx_ring := tx\<rparr>)"
    if "idle ws1" "ringbuffer_cleanup os (ws_rx_ring ws1) w1 = (rx, w2)" "ringbuffer_cleanup os (ws_tx_ring ws1) w2 = (tx, w3)"
    for ws1 rx tx w1 w2 w3
  proof -
    have "rx = zero_ring" "tx = zero_ring"
      using that ringbuffer_cleanup_zero by (auto simp: idle_def ws_inv_def)
    with that(1) show ?thesis
      by (simp add: idle_def ws_laws ring_valid_def latency_inv_def)
  qed
  moreover have "idle (if b then ws\<lparr>ws_fd := -1\<rparr> else ws)" for b
    using idle_other [OF assms(1)] assms(1) by (simp add: core_def)
  ultimately show ?thesis
    unfolding connect_cleanup_def Let_def
    by (intro post_rules assms(2) any_post [of _ "io_cleanup _ _ _"]) blast+
qed

lemma connect_rings_post [post_rules]:
  assumes "vm_laws os" and "idle ws"
    and "\<And>ok ws' w'. idle ws' \<Longrightarrow> (ok \<Longrightarrow> ring_live (ws_rx_ring ws') \<and> ring_live (ws_tx_ring ws')) \<Longrightarrow> P (ok, ws', w')"
  shows "post (connect_rings os ws w) P"
  unfolding connect_rings_def Let_def
  by (intro ringbuffer_init_post post_rules assms(1,3))
    (use assms(2) in \<open>auto simp: idle_def ws_laws ring_valid_def split: if_splits\<close>)

lemma post_case_option_app [post_rules]:
  "(x = None \<Longrightarrow> post (m y) P) \<Longrightarrow> (\<And>z. x = Some z \<Longrightarrow> post (f z y) P) \<Longrightarrow>
   post ((case x of None \<Rightarrow> m | Some z \<Rightarrow> f z) y) P"
  by (cases x) simp_all

lemma connect_ssl_post [post_rules]:
  assumes "\<And>ok ws' w'. core ws' = core ws \<Longrightarrow> P (ok, ws', w')"
  shows "post (connect_ssl os b ws w) P"
  unfolding connect_ssl_def
  by (intro post_rules any_post [of _ "ssl_connect _ _ _ _ _"] any_post [of _ "ssl_cleanup _ _ _"] assms) (simp_all add: core_def)

lemma send_handshake_post [post_rules]:
  assumes "ready ws" and "ws_state ws = st" and "\<And>r ws' w'. ready ws' \<Longrightarrow> ws_state ws' = st \<Longrightarrow> P (r, ws', w')"
  shows "post (send_handshake os ws w) P"
proof -
  have "ready (ws\<lparr>ws_sec_websocket_key := k\<rparr>)" for k
    using ready_other [OF assms(1)] by (simp add: core_def)
  then show ?thesis
    unfolding send_handshake_def Let_def
    by (intro ready.ws_transmit_keeps ready.tx post_rules any_post [of _ "generate_websocket_key _ _ _"] assms(3))
      (simp_all add: assms(2,3) ready.tx)
qed

lemma connect_register_post [post_rules]:
  assumes "idle ws" and "ring_live (ws_rx_ring ws)" and "ring_live (ws_tx_ring ws)" and "\<And>r ws' w'. ws_inv ws' \<Longrightarrow> P (r, ws', w')"
  shows "post (connect_register os ws w) P"
proof -
  have rdy: "ready (ws\<lparr>ws_io_ctx := Some io1, ws_socket_index := i\<rparr>)" "idle (ws\<lparr>ws_io_ctx := Some io1, ws_socket_index := i\<rparr>)"
    if "ws_io_ctx ws = Some io" "io_step (Some io) (Some io1)" for io io1 i
    using that assms(1-3) by (simp_all add: idle_def ready_def ws_laws latency_inv_def)
  have cl: "idle (ws'\<lparr>ws_ssl_ctx := c\<rparr>)" if "idle ws'" for ws' c
    using idle_other [OF that] by (simp add: core_def)
  have inv: "ws_inv ws'" if "idle ws'" for ws' using that by (simp add: idle_def)
  have id: "idle ws'" if "ready ws'" "ws_state ws' = WS_STATE_CLOSED" for ws' using that by (simp add: idle_def ready_def)
  have con: "ws_inv (ws'\<lparr>ws_state := WS_STATE_CONNECTING\<rparr>)" if "ready ws'" for ws'
    using that by (simp add: ready_def ws_laws)
  have st: "ws_state ws = WS_STATE_CLOSED" using assms(1) by (simp add: idle_def)
  show ?thesis
    unfolding connect_register_def Let_def
    by (intro post_rules send_handshake_post [where st = WS_STATE_CLOSED] any_post [of _ "ssl_cleanup _ _ _"] assms(4) con cl)
      (use assms(1) st in \<open>auto simp: rdy inv id\<close>)
qed

lemma websocket_connect_post [post_rules]:
  assumes "vm_laws os" and "idle ws" and "\<And>r ws' w'. ws_inv ws' \<Longrightarrow> P (r, ws', w')"
  shows "post (websocket_connect os ws url b w) P"
proof -
  have start: "idle (ws\<lparr>ws_url := u, ws_cert_validation_disabled := c, ws_host := h, ws_path := p, ws_port := n, ws_use_ssl := s\<rparr>)"
      "idle (ws\<lparr>ws_cert_validation_disabled := c, ws_host := h, ws_path := p, ws_port := n, ws_use_ssl := s, ws_url := u\<rparr>)"
    for u c h p n s
    using idle_other [OF assms(2)] by (simp_all add: core_def)
  have none: "idle (ws'\<lparr>ws_io_ctx := None\<rparr>)" if "idle ws'" for ws'
    using that by (simp add: idle_def ws_laws latency_inv_def)
  have io: "idle (ws'\<lparr>ws_io_ctx := Some io\<rparr>)" "idle (ws'\<lparr>ws_io_ctx := Some io, ws_fd := fd\<rparr>)"
    if "io_init os w = (r, io, w')" "idle ws'" for ws' io w r w' fd
    using that(2) io_init_inv [OF that(1)] by (simp_all add: idle_def ws_laws latency_inv_def)
  have ssl: "idle ws2" "ring_live (ws_rx_ring ws2)" "ring_live (ws_tx_ring ws2)"
    if "core ws2 = core (ws1\<lparr>ws_io_ctx := Some io, ws_fd := fd\<rparr>)" "io_init os w = (r, io, w')" "idle ws1"
      "ring_live (ws_rx_ring ws1)" "ring_live (ws_tx_ring ws1)" for ws1 ws2 w r io w' fd
    using idle_other [OF io(2) [OF that(2,3)] that(1)] that by (simp_all add: core_def)
  have inv: "ws_inv ws'" if "idle ws'" for ws' using that by (simp add: idle_def)
  show ?thesis
    unfolding websocket_connect_def Let_def
    by (intro post_rules assms(1,3) any_post [of _ "parse_url _ _ _ _"])
      (auto intro: inv [OF assms(2)] inv [OF start(2)] inv start none io ssl)
qed

subsection \<open>Reachable states\<close>

text \<open>
  The calls an application can make: what a callback may do, a turn of the event loop, and
  connecting an object that is closed. \<open>websocket_connect\<close> itself does not test the state; connecting
  an object again while it is open, which overwrites its rings and its descriptor, is left out.
\<close>

inductive api_step :: "('w, 'z) ws_os_scheme \<Rightarrow> WebSocket \<times> 'w \<Rightarrow> WebSocket \<times> 'w \<Rightarrow> bool"
  for os :: "('w, 'z) ws_os_scheme" where
  api_call: "callback_step os a b \<Longrightarrow> api_step os a b"
| api_process: "websocket_process os ws w = Some (r, ws', w') \<Longrightarrow> api_step os (ws, w) (ws', w')"
| api_connect: "ws_state ws = WS_STATE_CLOSED \<Longrightarrow> websocket_connect os ws url b w = Some (r, ws', w') \<Longrightarrow>
    api_step os (ws, w) (ws', w')"

inductive reachable :: "('w, 'z) ws_os_scheme \<Rightarrow> WebSocket \<times> 'w \<Rightarrow> bool" for os :: "('w, 'z) ws_os_scheme" where
  created: "websocket_create os w = (Some ws, w') \<Longrightarrow> reachable os (ws, w')"
| stepped: "reachable os a \<Longrightarrow> api_step os a b \<Longrightarrow> reachable os b"

lemma fresh_inv: "ws_inv (fresh_websocket (Some (replicate 1000 0)))" "ws_inv (fresh_websocket None)"
  by (simp_all add: fresh_websocket_def ws_laws ring_valid_def latency_inv_def zero_metrics_def metrics_typed_def)

lemma api_step_inv:
  assumes "api_step os a b" and "callbacks_use_interface os" and "vm_laws os" and "ws_inv (fst a)"
  shows "ws_inv (fst b)"
  using assms(1)
proof cases
  case api_call
  then show ?thesis
    using inv.callback_steps_keep [of os a b] assms(4) by blast
next
  case (api_process ws w r ws' w')
  have "post (websocket_process os ws w) (\<lambda>(_, ws', _). ws_inv ws')"
    using assms(2,4) api_process(1) by (intro inv.websocket_process_keeps) simp_all
  with api_process show ?thesis by (auto dest: postD)
next
  case (api_connect ws url b w r ws' w')
  have "post (websocket_connect os ws url b w) (\<lambda>(_, ws', _). ws_inv ws')"
    using assms(3,4) api_connect(1,3) by (intro websocket_connect_post) (simp_all add: idle_def)
  with api_connect show ?thesis by (auto dest: postD)
qed

lemma reachable_ws_inv:
  assumes "reachable os a" and "callbacks_use_interface os" and "vm_laws os"
  shows "ws_inv (fst a)"
  using assms(1)
proof induction
  case (created w ws w')
  then show ?case
    using fresh_inv by (auto simp: websocket_create_def Let_def split: prod.splits if_splits)
next
  case (stepped a b)
  then show ?case
    using api_step_inv assms(2,3) by blast
qed

lemma demo_callbacks: "callbacks_use_interface demo_ws_os"
  by (simp add: callbacks_use_interface_def demo_ws_os_simps demo_note_def r_into_rtranclp call_other)

text \<open>
  C2. The invariant of the object. In every state an application can reach by creating an object
  and then calling the interface in any order, connecting only while closed, with any answers of
  the system and callbacks that use the interface in their turn, the latency window is well-formed, each ring is either unused
  or well-formed inside its memory, the socket table is well-formed, and an object that is
  connecting or connected has both rings and a socket table.
\<close>

theorem reachable_inv:
  assumes "callbacks_use_interface os" and "vm_laws os" and "reachable os (ws, w)"
  shows "latency_inv ws \<and> ring_valid (ws_rx_ring ws) \<and> ring_valid (ws_tx_ring ws) \<and>
    (\<forall>io. ws_io_ctx ws = Some io \<longrightarrow> io_inv io) \<and>
    (ws_state ws = WS_STATE_CONNECTING \<or> ws_state ws = WS_STATE_CONNECTED \<longrightarrow>
       rb_inv (ws_rx_ring ws) \<and> rb_inv (ws_tx_ring ws) \<and> ws_io_ctx ws \<noteq> None)"
  using reachable_ws_inv [OF assms(3,1,2)] by (auto simp: ws_inv_def phase_def equipped_def ring_live_def)

text \<open>A turn of the event loop on the connected object of the examples, without events.\<close>

lemma demo_poll: "io_poll demo_ws_os demo_ws_io IO_MAX_SOCKETS 10 w = Some (0, [], w)"
  by (simp add: io_poll_def IO_MAX_SOCKETS_def demo_ws_os_simps)

lemma demo_fields:
  "ws_io_ctx (demo_ws d) = Some demo_ws_io" "ws_use_ssl (demo_ws d) = False" "ws_on_health (demo_ws d) = 0"
  "ws_on_metrics (demo_ws d) = 0" "enable_heartbeat (ws_heartbeat_config (demo_ws d)) = False"
  by (simp_all add: demo_ws_simps zero_heartbeat_config_def)

lemma demo_quiet: "periodic_checks os (demo_ws d) w = Some (demo_ws d, w)"
  by (simp add: periodic_checks_def check_health_def report_metrics_if_needed_def check_heartbeat_def demo_fields demo_ws_ring)

lemma demo_idle_turn: "websocket_process demo_ws_os (demo_ws []) w = Some (0, demo_ws [], w)"
proof -
  have "process_frames demo_ws_os (demo_ws []) w = Some (demo_ws [], w)"
    by (simp add: process_frames_def read_inline_eq demo_ws_ring)
  then show ?thesis
    by (simp add: websocket_process_def demo_fields demo_poll drain_connection_def demo_ws_ring demo_quiet)
qed



end
