(* ===== verification/Turn_Props.thy ===== *)
theory Turn_Props
  imports Session_Props
begin

text \<open>
  The properties that span components: a message from \<open>websocket_send\<close> to the system call, a
  read event from the socket to the message callback, the answer to the opening handshake, and
  the end of a connection.
\<close>

subsection \<open>A connected object on a plain socket\<close>

definition plain_socket :: "WebSocket \<Rightarrow> int \<Rightarrow> bool" where
  "plain_socket ws fd \<longleftrightarrow> \<not> ws_use_ssl ws \<and> 0 \<le> fd \<and> rb_inv (ws_rx_ring ws) \<and> rb_inv (ws_tx_ring ws) \<and>
     (\<exists>io. ws_io_ctx ws = Some io \<and> io_inv io \<and> 0 \<le> ws_socket_index ws \<and> ws_socket_index ws < io_socket_count io \<and>
        so_fd (io_sockets io ! nat (ws_socket_index ws)) = fd \<and>
        so_rx_ring (io_sockets io ! nat (ws_socket_index ws)) = Some Rx \<and>
        so_tx_ring (io_sockets io ! nat (ws_socket_index ws)) = Some Tx)"

text \<open>The kernel takes at most the bytes it is offered.\<close>

definition writev_law :: "('w, 'z) io_os_scheme \<Rightarrow> int \<Rightarrow> bool" where
  "writev_law os fd \<longleftrightarrow> (\<forall>iov w. fst (os_writev os fd iov w) \<le> int (length (concat iov)))"

lemma ws_rings_simps [simp]: "ws_rings ws Rx = ws_rx_ring ws" "ws_rings ws Tx = ws_tx_ring ws"
  by (simp_all add: ws_rings_def)

lemma plain_transmit:
  assumes "plain_socket ws fd" and "writev_law os fd" and "rb_list (ws_tx_ring ws) \<noteq> []"
  obtains iov n tx w' where "concat iov = rb_list (ws_tx_ring ws)" and "os_writev os fd iov w = (n, w')"
    and "ws_transmit os ws w = Some (ws\<lparr>ws_tx_ring := tx\<rparr>, w')" and "rb_inv tx"
    and "rb_list tx = drop (nat n) (rb_list (ws_tx_ring ws))"
proof -
  obtain io where io: "ws_io_ctx ws = Some io" "io_inv io" "0 \<le> ws_socket_index ws" "ws_socket_index ws < io_socket_count io"
      "so_tx_ring (io_sockets io ! nat (ws_socket_index ws)) = Some Tx" "so_fd (io_sockets io ! nat (ws_socket_index ws)) = fd"
    using assms(1) by (auto simp: plain_socket_def)
  let ?P = "\<lambda>iov n h' w'. concat iov = rb_list (ws_rings ws Tx) \<and> length iov \<le> 2 \<and>
      os_writev os (so_fd (io_sockets io ! nat (ws_socket_index ws))) iov w = (n, w') \<and>
      io_write os io (ws_socket_index ws) (ws_rings ws) w = Some (n, h', w') \<and> rb_inv (h' Tx) \<and>
      rb_list (h' Tx) = drop (nat n) (rb_list (ws_rings ws Tx)) \<and> (\<forall>q. q \<noteq> Tx \<longrightarrow> h' q = ws_rings ws q)"
  have "\<exists>iov n h' w'. ?P iov n h' w'"
    by (rule io_write_effect [where p = Tx]) (use io assms in \<open>simp_all add: plain_socket_def writev_law_def\<close>)
  then obtain iov n h' w' where "?P iov n h' w'" by blast
  then have "concat iov = rb_list (ws_tx_ring ws)" "os_writev os fd iov w = (n, w')"
      "ws_transmit os ws w = Some (ws\<lparr>ws_tx_ring := h' Tx\<rparr>, w')" "rb_inv (h' Tx)"
      "rb_list (h' Tx) = drop (nat n) (rb_list (ws_tx_ring ws))"
    using assms(1) io by (auto simp: plain_socket_def ws_transmit_def ws_io_write_def ws_set_rings_def)
  then show ?thesis by (rule that)
qed

subsection \<open>Sending\<close>

text \<open>A write into the transmit ring, with the capacity it keeps, and the two writes of a frame.\<close>

lemma send_header_size: "send_header t n \<noteq> []"
  by (simp add: send_header_def Let_def)

lemma write_prefix:
  assumes inv: "rb_inv rb"
  obtains n1 rb1 where "ringbuffer_write rb (Some h) = Some (n1, rb1)"
    and "rb_inv rb1" and "rb_list rb1 = rb_list rb @ take (rb_capacity rb - length (rb_list rb)) h"
    and "rb_capacity rb1 = rb_capacity rb" and "n1 = min (length h) (rb_capacity rb - length (rb_list rb))"
proof -
  obtain rb1 where r: "ringbuffer_write rb (Some h) = Some (min (length h) (rb_capacity rb - length (rb_list rb)), rb1)"
      "rb_inv rb1" "rb_list rb1 = rb_list rb @ take (rb_capacity rb - length (rb_list rb)) h"
      "rb1 = rb\<lparr>rb_mem := rb_mem rb1, rb_write_ptr := rb_write_ptr rb1\<rparr>"
    using inv by (rule ringbuffer_write_law)
  have "rb_capacity rb1 = rb_capacity rb"
    by (subst r(4)) (simp add: rb_capacity_def)
  from that [OF r(1-3) this refl] show ?thesis .
qed

lemma write_frame_fits:
  assumes inv: "rb_inv rb" and fits: "length (rb_list rb) + length (h @ d) \<le> rb_capacity rb"
  obtains rb1 rb2 where "ringbuffer_write rb (Some h) = Some (length h, rb1)" and "rb_inv rb1" and "rb_list rb1 = rb_list rb @ h"
    and "ringbuffer_write rb1 (Some d) = Some (length d, rb2)" and "rb_inv rb2" and "rb_list rb2 = rb_list rb @ h @ d"
proof -
  let ?l = "rb_list rb" and ?c = "rb_capacity rb"
  obtain n1 rb1 where r1: "ringbuffer_write rb (Some h) = Some (n1, rb1)" "rb_inv rb1"
      "rb_list rb1 = ?l @ take (?c - length ?l) h" "rb_capacity rb1 = ?c" "n1 = min (length h) (?c - length ?l)"
    using inv by (rule write_prefix)
  obtain n2 rb2 where r2: "ringbuffer_write rb1 (Some d) = Some (n2, rb2)" "rb_inv rb2"
      "rb_list rb2 = rb_list rb1 @ take (rb_capacity rb1 - length (rb_list rb1)) d"
      "n2 = min (length d) (rb_capacity rb1 - length (rb_list rb1))"
    using r1(2) by (rule write_prefix)
  have "n1 = length h" "rb_list rb1 = ?l @ h" "n2 = length d" "rb_list rb2 = ?l @ h @ d"
    using fits r1(3-5) r2(3,4) by auto
  with that r1(1,2) r2(1,2) show ?thesis by simp
qed

lemma send_fits:
  assumes "plain_socket ws fd" and "ws_state ws = WS_STATE_CONNECTED" and "d \<noteq> []"
    and "length (rb_list (ws_tx_ring ws)) + length (send_header t (length d) @ d) \<le> rb_capacity (ws_tx_ring ws)"
  obtains tx where "websocket_send os ws (Some d) t w =
      map_option (\<lambda>(ws3, w3). (0, ws3, w3)) (ws_transmit os (count_sent (length d) (ws\<lparr>ws_tx_ring := tx\<rparr>)) w)"
    and "rb_inv tx" and "rb_list tx = rb_list (ws_tx_ring ws) @ send_header t (length d) @ d"
proof -
  have inv: "rb_inv (ws_tx_ring ws)" using assms(1) by (simp add: plain_socket_def)
  obtain rb1 rb2 where r: "ringbuffer_write (ws_tx_ring ws) (Some (send_header t (length d))) = Some (length (send_header t (length d)), rb1)"
      "ringbuffer_write rb1 (Some d) = Some (length d, rb2)" "rb_inv rb2"
      "rb_list rb2 = rb_list (ws_tx_ring ws) @ send_header t (length d) @ d"
    by (rule write_frame_fits [OF inv assms(4)])
  then show ?thesis
    using that [of rb2] assms(2,3) by (simp add: websocket_send_def Let_def)
qed

lemma pong_fits:
  assumes "plain_socket ws fd" and "ws_state ws = WS_STATE_CONNECTED" and "\<forall>n w. fst (os_malloc os n w)"
    and "length (rb_list (ws_tx_ring ws)) + length p + 14 \<le> rb_capacity (ws_tx_ring ws)"
  obtains key tx v where "websocket_send_pong os ws (Some p) (length p) w =
      map_option (\<lambda>(ws3, w3). (0, ws3, w3)) (ws_transmit os (ws\<lparr>ws_tx_ring := tx\<rparr>) v)"
    and "rb_inv tx" and "rb_list tx = rb_list (ws_tx_ring ws) @ pong_header key (length p) @ apply_mask key p"
proof -
  have inv: "rb_inv (ws_tx_ring ws)" using assms(1) by (simp add: plain_socket_def)
  obtain key w1 where k: "urandom_key os w = (key, w1)" by force
  obtain w2 where m: "os_malloc os (length p) w1 = (True, w2)"
    using assms(3) by (metis (full_types) prod.collapse)
  let ?h = "pong_header key (length p)" and ?d = "apply_mask key p"
  have "length (rb_list (ws_tx_ring ws)) + length (?h @ ?d) \<le> rb_capacity (ws_tx_ring ws)"
    using assms(4) by (simp add: pong_header_def Let_def)
  then obtain rb1 rb2 where r: "ringbuffer_write (ws_tx_ring ws) (Some ?h) = Some (length ?h, rb1)" "rb_inv rb1"
      "rb_list rb1 = rb_list (ws_tx_ring ws) @ ?h" "ringbuffer_write rb1 (Some ?d) = Some (length ?d, rb2)" "rb_inv rb2"
      "rb_list rb2 = rb_list (ws_tx_ring ws) @ ?h @ ?d"
    by (rule write_frame_fits [OF inv])
  show ?thesis
  proof (cases "p = []")
    case True
    then show ?thesis
      using that [of rb1 w1 key] k r(1-3) assms(2) by (simp add: websocket_send_pong_def apply_mask_def)
  next
    case False
    then show ?thesis
      using that [of rb2 w2 key] k m r assms(2) by (simp add: websocket_send_pong_def)
  qed
qed

text \<open>
  C3. A message that fits is sent. On a connected plain socket \<open>websocket_send\<close> returns \<open>0\<close>;
  the system call is offered exactly what was queued before followed by one complete RFC 6455
  frame of the message, in one or two parts; what the kernel does not take stays queued, in
  order; and the message and its bytes are counted once. The frame carries no masking key.
\<close>

theorem websocket_send_transmits:
  assumes "plain_socket ws fd" and "ws_state ws = WS_STATE_CONNECTED" and "d \<noteq> []" and "writev_law os fd"
    and "length (rb_list (ws_tx_ring ws)) + length (send_header is_text (length d) @ d) \<le> rb_capacity (ws_tx_ring ws)"
  shows "\<exists>iov n ws' w'. os_writev os fd iov w = (n, w') \<and> websocket_send os ws (Some d) is_text w = Some (0, ws', w') \<and>
    concat iov = rb_list (ws_tx_ring ws) @
      rfc_encode \<lparr>r_fin = True, r_opcode = (if is_text then 1 else 2), r_key = None, r_payload = d\<rparr> \<and>
    rb_list (ws_tx_ring ws') = drop (nat n) (concat iov) \<and>
    messages_sent (ws_metrics ws') = add64 (messages_sent (ws_metrics ws)) 1 \<and>
    bytes_sent (ws_metrics ws') = add64 (bytes_sent (ws_metrics ws)) (length d)"
proof -
  obtain tx where tx: "websocket_send os ws (Some d) is_text w =
      map_option (\<lambda>(ws3, w3). (0, ws3, w3)) (ws_transmit os (count_sent (length d) (ws\<lparr>ws_tx_ring := tx\<rparr>)) w)"
      "rb_inv tx" "rb_list tx = rb_list (ws_tx_ring ws) @ send_header is_text (length d) @ d"
    using assms(1-3,5) by (rule send_fits)
  let ?ws = "count_sent (length d) (ws\<lparr>ws_tx_ring := tx\<rparr>)"
  have "plain_socket ?ws fd" "rb_list (ws_tx_ring ?ws) \<noteq> []"
    using assms(1,3) tx(2,3) by (simp_all add: plain_socket_def count_sent_def)
  then obtain iov n tx' w' where "concat iov = rb_list (ws_tx_ring ?ws)" "os_writev os fd iov w = (n, w')"
      "ws_transmit os ?ws w = Some (?ws\<lparr>ws_tx_ring := tx'\<rparr>, w')" "rb_list tx' = drop (nat n) (rb_list (ws_tx_ring ?ws))"
    using assms(4) plain_transmit [of ?ws fd os w] by metis
  then show ?thesis
    using tx(1,3) send_header_rfc [of is_text d]
    by (intro exI [of _ iov] exI [of _ n] exI [of _ "?ws\<lparr>ws_tx_ring := tx'\<rparr>"] exI [of _ w'])
      (simp add: count_sent_def)
qed

lemma demo_plain: "length d < 2 ^ 60 \<Longrightarrow> plain_socket (demo_ws d) 5"
  by (simp add: plain_socket_def demo_ws_simps demo_ws_io_def io_inv_def)

lemma demo_writev: "writev_law demo_ws_os fd"
  by (simp add: writev_law_def demo_ws_os_simps)

lemma demo_tx: "ws_tx_ring (demo_ws d) = demo_ring []" "rb_capacity (demo_ring d) = length d + 63"
  by (simp_all add: demo_ws_simps rb_capacity_def)

theorem websocket_send_transmits_witness:
  "\<exists>iov n ws' w'. os_writev demo_ws_os 5 iov (demo_start [] []) = (n, w') \<and>
     websocket_send demo_ws_os (demo_ws []) (Some [72, 105]) True (demo_start [] []) = Some (0, ws', w') \<and>
     concat iov = rfc_encode \<lparr>r_fin = True, r_opcode = 1, r_key = None, r_payload = [72, 105]\<rparr>"
proof -
  have "length (send_header True (length [72 :: byte, 105])) = 2"
    by (simp add: send_header_def)
  with websocket_send_transmits [OF demo_plain demo_ws_ring(2) _ demo_writev, of "[]" "[72, 105]" True "demo_start [] []"]
  show ?thesis
    by (auto simp: demo_tx)
qed

text \<open>
  C39. A message that does not fit leaves a fragment. When the frame does not fit into the
  transmit ring, \<open>websocket_send\<close> returns \<open>-1\<close> but the part of the frame that fits stays queued
  behind the earlier frames, so that the peer reads the next frame as the rest of this one.
\<close>

theorem failed_send_leaves_fragment:
  assumes "rb_inv (ws_tx_ring ws)" and "ws_state ws = WS_STATE_CONNECTED" and "d \<noteq> []"
    and "rb_capacity (ws_tx_ring ws) < length (rb_list (ws_tx_ring ws)) + length (send_header is_text (length d) @ d)"
  shows "\<exists>ws'. websocket_send os ws (Some d) is_text w = Some (-1, ws', w) \<and>
    rb_list (ws_tx_ring ws') = rb_list (ws_tx_ring ws) @
      take (rb_capacity (ws_tx_ring ws) - length (rb_list (ws_tx_ring ws))) (send_header is_text (length d) @ d)"
proof -
  let ?h = "send_header is_text (length d)" and ?l = "rb_list (ws_tx_ring ws)" and ?c = "rb_capacity (ws_tx_ring ws)"
  obtain n1 rb1 where r1: "ringbuffer_write (ws_tx_ring ws) (Some ?h) = Some (n1, rb1)" "rb_inv rb1"
      "rb_list rb1 = ?l @ take (?c - length ?l) ?h" "rb_capacity rb1 = ?c" "n1 = min (length ?h) (?c - length ?l)"
    using assms(1) by (rule write_prefix)
  obtain n2 rb2 where r2: "ringbuffer_write rb1 (Some d) = Some (n2, rb2)"
      "rb_list rb2 = rb_list rb1 @ take (rb_capacity rb1 - length (rb_list rb1)) d"
      "n2 = min (length d) (rb_capacity rb1 - length (rb_list rb1))"
    using r1(2) by (rule write_prefix)
  have le: "length ?l \<le> ?c" using length_rb_list_capacity [OF assms(1)] .
  show ?thesis
  proof (cases "?c - length ?l < length ?h")
    case True
    then show ?thesis
      using r1 assms(2,3) by (simp add: websocket_send_def Let_def)
  next
    case False
    then have "n1 = length ?h" "rb_list rb1 = ?l @ ?h" "n2 \<noteq> length d" "rb_list rb2 = ?l @ ?h @ take (?c - length ?l - length ?h) d"
      using assms(4) le r1(3-5) r2(2,3) by (auto simp: diff_diff_add)
    with False show ?thesis
      using r1(1) r2(1) assms(2,3) by (simp add: websocket_send_def Let_def)
  qed
qed

theorem failed_send_leaves_fragment_witness:
  "\<exists>ws'. websocket_send demo_ws_os (demo_ws []) (Some (replicate 70 7)) True (demo_start [] []) = Some (-1, ws', demo_start [] []) \<and>
     rb_list (ws_tx_ring ws') = take 63 (send_header True 70 @ replicate 70 7)"
proof -
  have "rb_inv (ws_tx_ring (demo_ws []))" "length (send_header True 70) = 2"
    by (simp_all add: demo_tx send_header_def)
  with failed_send_leaves_fragment [OF _ demo_ws_ring(2), of "[]" "replicate 70 7" True demo_ws_os "demo_start [] []"] show ?thesis
    by (auto simp: demo_tx)
qed

text \<open>
  C18. A ping is answered. When a ping frame with a payload that lies in the ring memory is
  processed on a connected plain socket with room in the transmit ring, the system call is
  offered what was queued before followed by one complete masked pong frame with the payload of
  the ping; what the kernel does not take stays queued.
\<close>

theorem ping_is_answered:
  assumes "plain_socket ws fd" and "ws_state ws = WS_STATE_CONNECTED" and "writev_law os fd"
    and "\<forall>n w. fst (os_malloc os n w)" and "f_opcode frame = WS_OPCODE_PING" and "f_mask frame = 0"
    and "mem_read (rb_mem (ws_rx_ring ws)) pos (f_payload_len frame) = Some p"
    and "length (rb_list (ws_tx_ring ws)) + length p + 14 \<le> rb_capacity (ws_tx_ring ws)"
  shows "\<exists>key iov v n ws' w'. process_frame os frame pos ws w = Some (ws', w') \<and> os_writev os fd iov v = (n, w') \<and>
    concat iov = rb_list (ws_tx_ring ws) @
      rfc_encode \<lparr>r_fin = True, r_opcode = 10, r_key = Some (store_le 4 key), r_payload = p\<rparr> \<and>
    rb_list (ws_tx_ring ws') = drop (nat n) (concat iov)"
proof -
  have len: "f_payload_len frame = length p"
    using assms(7) by (auto simp: mem_read_def split: if_splits)
  obtain key tx v where tx: "websocket_send_pong os ws (Some p) (length p) w =
      map_option (\<lambda>(ws3, w3). (0, ws3, w3)) (ws_transmit os (ws\<lparr>ws_tx_ring := tx\<rparr>) v)"
      "rb_inv tx" "rb_list tx = rb_list (ws_tx_ring ws) @ pong_header key (length p) @ apply_mask key p"
    by (rule pong_fits [OF assms(1,2,4,8)])
  let ?ws = "ws\<lparr>ws_tx_ring := tx\<rparr>"
  have "plain_socket ?ws fd" "rb_list (ws_tx_ring ?ws) \<noteq> []"
    using assms(1) tx(2,3) by (simp_all add: plain_socket_def pong_header_def Let_def)
  then obtain iov n tx' w' where t: "concat iov = rb_list (ws_tx_ring ?ws)" "os_writev os fd iov v = (n, w')"
      "ws_transmit os ?ws v = Some (?ws\<lparr>ws_tx_ring := tx'\<rparr>, w')" "rb_list tx' = drop (nat n) (rb_list (ws_tx_ring ?ws))"
    using assms(3) plain_transmit [of ?ws fd os v] by metis
  have "process_frame os frame pos ws w = Some (?ws\<lparr>ws_tx_ring := tx'\<rparr>, w')"
    using tx(1) t(3) assms(5-7) len by (simp add: process_frame_def unmask_payload_def WS_OPCODE_TEXT_def
        WS_OPCODE_BINARY_def WS_OPCODE_PING_def)
  with t(1,2,4) tx(3) show ?thesis
    by (intro exI [of _ key] exI [of _ iov] exI [of _ v] exI [of _ n] exI [of _ "?ws\<lparr>ws_tx_ring := tx'\<rparr>"] exI [of _ w'])
      (simp add: pong_header_rfc)
qed

theorem ping_is_answered_witness:
  "\<exists>key iov v n ws' w'. process_frame demo_ws_os (zero_frame\<lparr>f_opcode := WS_OPCODE_PING, f_payload_len := 2\<rparr>) 2
       (demo_ws [0x89, 2, 72, 105]) (demo_start [] []) = Some (ws', w') \<and> os_writev demo_ws_os 5 iov v = (n, w') \<and>
     concat iov = rfc_encode \<lparr>r_fin = True, r_opcode = 10, r_key = Some (store_le 4 key), r_payload = [72, 105]\<rparr>"
proof -
  let ?f = "zero_frame\<lparr>f_opcode := WS_OPCODE_PING, f_payload_len := 2\<rparr>" and ?ws = "demo_ws [0x89, 2, 72, 105]"
  have "mem_read (rb_mem (ws_rx_ring ?ws)) 2 (f_payload_len ?f) = Some [72, 105]"
    by (simp add: demo_ws_ring demo_ring_def mem_read_def)
  moreover have "\<forall>n w. fst (os_malloc demo_ws_os n w)" "f_mask ?f = 0"
    by (simp_all add: demo_ws_os_simps zero_frame_def)
  ultimately show ?thesis
    using ping_is_answered [OF demo_plain demo_ws_ring(2) demo_writev, of "[0x89, 2, 72, 105]" ?f 2 "[72, 105]" "demo_start [] []"]
    by (simp add: demo_tx) blast
qed

subsection \<open>A turn of the event loop\<close>

text \<open>The calls of the kernel used while receiving do not run application code.\<close>

definition kernel_quiet :: "('w, 'z) io_os_scheme \<Rightarrow> ('w \<Rightarrow> byte list list) \<Rightarrow> bool" where
  "kernel_quiet os inbox \<longleftrightarrow>
     (\<forall>kq c w. inbox (snd (os_kevent_change os kq c w)) = inbox w) \<and>
     (\<forall>kq n t w. inbox (snd (os_kevent_wait os kq n t w)) = inbox w) \<and>
     (\<forall>fd n w. inbox (snd (os_recvmsg os fd n w)) = inbox w)"

lemma capture_nic_quiet:
  assumes "observes os inbox" and "capture_nic os cs w = Some (nic, w')"
  shows "inbox w' = inbox w"
proof -
  have "inbox (snd (os_absolute_time os v)) = inbox v" for v
    using assms(1) by (simp add: observes_def)
  with assms(2) show ?thesis
    by (auto simp: capture_nic_def split: option.splits prod.splits) (metis snd_conv)+
qed

lemma receive_all:
  assumes "observes os inbox" and "rx_ready ws" and "rb_list (ws_rx_ring ws) = concat (map rfc_encode frs) @ rest"
    and "\<forall>fr \<in> set frs. rfc_valid fr \<and> r_opcode fr \<noteq> 9" and "incomplete rest"
  obtains ws1 w1 ws' w' where "process_frames os ws w = Some (ws1, w1)" and "drain_frames os ws1 w1 = Some (ws', w')"
    and "received inbox frs rest ws w ws' w'"
proof -
  define now later where "now = take 1000 frs" and "later = drop 1000 frs"
  let ?rest = "concat (map rfc_encode later) @ rest"
  have now: "frs = now @ later" "length now \<le> 1000" "length now = 1000 \<or> incomplete ?rest"
    using assms(5) by (auto simp: now_def later_def min_def)
  then have front: "rb_list (ws_rx_ring ws) = concat (map rfc_encode now) @ ?rest"
      "\<forall>fr \<in> set now. rfc_valid fr \<and> r_opcode fr \<noteq> 9"
    using assms(3,4) by simp_all
  obtain ws1 w1 where run: "process_frames os ws w = Some (ws1, w1)" and rcv: "received inbox now ?rest ws w ws1 w1"
    by (rule pass_received [OF assms(1,2) front now(3,2)])
  have "\<exists>ws' w'. drain_frames os ws1 w1 = Some (ws', w') \<and> received inbox later rest ws1 w1 ws' w'"
    using assms(4,5) rcv by (intro drain_stream [OF assms(1)]) (simp_all add: received_def now(1))
  then obtain ws' w' where "drain_frames os ws1 w1 = Some (ws', w')" "received inbox later rest ws1 w1 ws' w'" by blast
  with run received_trans [OF rcv] show ?thesis
    using that by (auto simp: now(1))
qed

text \<open>
  The kernel reports one read event and hands out \<open>d\<close>, which fits into the receive ring without
  wrapping around.
\<close>

definition arrives :: "('w, 'z) io_os_scheme \<Rightarrow> WebSocket \<Rightarrow> int \<Rightarrow> byte list \<Rightarrow> 'w \<Rightarrow> bool" where
  "arrives os ws fd d w \<longleftrightarrow> d \<noteq> [] \<and> rb_write_ptr (ws_rx_ring ws) + length d < rb_size (ws_rx_ring ws) \<and>
     (\<exists>io e w1 cs w2. ws_io_ctx ws = Some io \<and>
        os_kevent_wait os (io_kq io) IO_MAX_SOCKETS (poll_timeout 10) w = (Some [e], w1) \<and>
        ke_filter e = EVFILT_READ \<and> \<not> ke_eof e \<and> \<not> ke_error e \<and> ke_udata e = ws_socket_index ws \<and>
        os_recvmsg os fd (rb_size (ws_rx_ring ws) - rb_write_ptr (ws_rx_ring ws))
          (snd (os_kevent_change os (io_kq io) (EV_ADD_ONESHOT EVFILT_READ fd (ws_socket_index ws)) w1)) = (Recv d cs, w2))"

text \<open>No health, metrics or heartbeat reports are switched on.\<close>

definition unmonitored :: "WebSocket \<Rightarrow> bool" where
  "unmonitored ws \<longleftrightarrow> ws_on_health ws = 0 \<and> ws_on_metrics ws = 0 \<and> \<not> enable_heartbeat (ws_heartbeat_config ws)"

text \<open>The object after a read: only the ring and the time stamps of the socket differ.\<close>

definition after_read :: "byte list \<Rightarrow> WebSocket \<Rightarrow> WebSocket \<Rightarrow> bool" where
  "after_read d ws ws' \<longleftrightarrow> rx_ready ws' \<and> rb_list (ws_rx_ring ws') = rb_list (ws_rx_ring ws) @ d \<and>
     ws_state ws' = ws_state ws \<and> settings ws' = settings ws \<and> ws_metrics ws' = ws_metrics ws \<and> ws_io_ctx ws' \<noteq> None \<and>
     drop (rb_write_ptr (ws_rx_ring ws) + length d) (rb_mem (ws_rx_ring ws')) =
       drop (rb_write_ptr (ws_rx_ring ws) + length d) (rb_mem (ws_rx_ring ws)) \<and>
     rb_read_ptr (ws_rx_ring ws') \<le> rb_write_ptr (ws_rx_ring ws)"

lemma read_window:
  assumes "rb_inv rb" and "rb_read_ptr rb \<le> rb_write_ptr rb" and "inline_commit rb d = Some rb'"
    and "rb_write_ptr rb + length d < rb_size rb"
  shows "rb_read_ptr rb' = rb_read_ptr rb \<and> rb_write_ptr rb' = rb_write_ptr rb + length d \<and> rb_buf rb' = rb_buf rb \<and>
    drop (rb_write_ptr rb + length d) (rb_mem rb') = drop (rb_write_ptr rb + length d) (rb_mem rb) \<and>
    length d \<le> rb_capacity rb - length (rb_list rb)"
proof -
  have "umod (add64 (rb_write_ptr rb) (length d)) (rb_size rb) = Some (rb_write_ptr rb + length d)"
    using assms(1,4) by (simp add: rb_inv_def arith64)
  with assms show ?thesis
    by (auto simp: inline_commit_def mem_write_def length_rb_list ring_used_def rb_capacity_def rb_inv_def
        split: bind_splits if_splits)
qed

lemma socket_read:
  assumes obs: "observes os inbox" "0 < fst (os_timebase os)" and plain: "plain_socket ws fd" and rx: "rx_ready ws"
    and recv: "os_recvmsg os fd (rb_size (ws_rx_ring ws) - rb_write_ptr (ws_rx_ring ws)) w = (Recv d cs, w1)"
    and d: "d \<noteq> []" "rb_write_ptr (ws_rx_ring ws) + length d < rb_size (ws_rx_ring ws)"
  obtains ws' w' where "ws_io_read os ws (ws_socket_index ws) w = Some (int (length d), ws', w')"
    and "after_read d ws ws'" and "inbox w' = inbox w1"
proof -
  let ?i = "ws_socket_index ws" and ?rb = "ws_rx_ring ws"
  obtain io where io: "ws_io_ctx ws = Some io" "io_inv io" "0 \<le> ?i" "?i < io_socket_count io"
      "so_rx_ring (io_sockets io ! nat ?i) = Some Rx" "so_fd (io_sockets io ! nat ?i) = fd" "0 \<le> fd"
    using plain by (auto simp: plain_socket_def)
  have inv: "rb_inv ?rb" and le: "rb_read_ptr ?rb \<le> rb_write_ptr ?rb" and ok: "rx_ok ws" "rb_buf ?rb \<noteq> 0"
    using rx by (simp_all add: rx_ready_def)
  have tb: "0 < snd (os_timebase os)" using obs(1) by (simp add: observes_def)
  have h: "rb_inv (ws_rings ws Rx)" "snd (ringbuffer_write_inline (ws_rings ws Rx)) \<noteq> 0"
      "os_recvmsg os (so_fd (io_sockets io ! nat ?i)) (snd (ringbuffer_write_inline (ws_rings ws Rx))) w = (Recv d cs, w1)"
      "length d \<le> snd (ringbuffer_write_inline (ws_rings ws Rx))" "0 \<le> so_fd (io_sockets io ! nat ?i)"
    using inv le recv io d(2) by (simp_all add: write_inline_eq)
  obtain socks rb nic w' where r: "io_read os io ?i (ws_rings ws) w =
        Some (int (length d), io\<lparr>io_sockets := socks\<rparr>, (ws_rings ws)(Rx := rb), w')"
      "rb_inv rb" "rb_list rb = (if length d \<le> rb_capacity (ws_rings ws Rx) - length (rb_list (ws_rings ws Rx))
          then rb_list (ws_rings ws Rx) @ d else [])"
      "map so_fd socks = map so_fd (io_sockets io)" "capture_nic os cs w1 = Some (nic, w')"
      "inline_commit (ws_rings ws Rx) d = Some rb"
    by (rule io_read_effect [of io ?i Rx "ws_rings ws" os w d cs w1, OF io(2-5) h(5) h(1-3) d(1) h(4) obs(2) tb])
  let ?ws = "ws\<lparr>ws_rx_ring := rb, ws_io_ctx := Some (io\<lparr>io_sockets := socks\<rparr>)\<rparr>"
  have run: "ws_io_read os ws ?i w = Some (int (length d), ?ws, w')"
    using r(1) io(1) by (simp add: ws_io_read_def ws_set_rings_def)
  have win: "rb_read_ptr rb = rb_read_ptr ?rb \<and> rb_write_ptr rb = rb_write_ptr ?rb + length d \<and> rb_buf rb = rb_buf ?rb \<and>
      drop (rb_write_ptr ?rb + length d) (rb_mem rb) = drop (rb_write_ptr ?rb + length d) (rb_mem ?rb) \<and>
      length d \<le> rb_capacity ?rb - length (rb_list ?rb)"
    using r(6) by (intro read_window inv le d(2)) simp
  moreover have "length socks = length (io_sockets io)"
    using r(4) by (rule map_eq_imp_length_eq)
  ultimately have "rx_ready ?ws"
    using ok r(2) io le by (auto simp: rx_ready_def rx_ok_def pool_ok_def latency_inv_def websocket_get_last_nic_timestamp_ns_def
        io_get_last_nic_timestamp_ns_def io_inv_def arr_get_def)
  then have "after_read d ws ?ws"
    using win r(3) le by (simp add: after_read_def settings_def)
  from that [OF run this] capture_nic_quiet [OF obs(1) r(5)] show ?thesis by simp
qed

lemma quiet_checks:
  assumes "settings ws' = settings ws" and "unmonitored ws"
  shows "periodic_checks os ws' w = Some (ws', w)"
  using assms by (simp add: settings_def unmonitored_def periodic_checks_def check_health_def
      report_metrics_if_needed_def check_heartbeat_def)

text \<open>What a read event does after the read, by the state of the connection.\<close>

definition handle_read :: "('w, 'z) ws_os_scheme \<Rightarrow> WebSocket \<Rightarrow> 'w \<Rightarrow> (WebSocket \<times> 'w) option" where
  "handle_read os ws w =
     (if ws_state ws = WS_STATE_CONNECTING then process_handshake os ws w
      else do {
        (ws1, w1) \<leftarrow> process_frames os ws w;
        drain_frames os ws1 w1
      })"

lemma read_turn:
  assumes "observes os inbox" and "kernel_quiet os inbox" and "0 < fst (os_timebase os)"
    and "plain_socket ws fd" and "rx_ready ws" and "arrives os ws fd d w" and "unmonitored ws"
    and "ws_state ws = WS_STATE_CONNECTING \<or> ws_state ws = WS_STATE_CONNECTED"
  obtains ws1 w1 where "after_read d ws ws1" and "inbox w1 = inbox w" and "\<not> ws_use_ssl ws1"
    and "\<forall>ws2 w2 ws3 w3. handle_read os ws1 w1 = Some (ws2, w2) \<and> drain_connection os ws2 w2 = Some (ws3, w3) \<and>
      settings ws3 = settings ws \<longrightarrow> websocket_process os ws w = Some (1, ws3, w3)"
proof -
  let ?i = "ws_socket_index ws"
  from assms(6) obtain io e w1 cs w2 where
    a: "ws_io_ctx ws = Some io" "os_kevent_wait os (io_kq io) IO_MAX_SOCKETS (poll_timeout 10) w = (Some [e], w1)"
      "ke_filter e = EVFILT_READ" "\<not> ke_eof e" "\<not> ke_error e" "ke_udata e = ?i"
      "os_recvmsg os fd (rb_size (ws_rx_ring ws) - rb_write_ptr (ws_rx_ring ws))
        (snd (os_kevent_change os (io_kq io) (EV_ADD_ONESHOT EVFILT_READ fd ?i) w1)) = (Recv d cs, w2)"
    and d: "d \<noteq> []" "rb_write_ptr (ws_rx_ring ws) + length d < rb_size (ws_rx_ring ws)"
    unfolding arrives_def by blast
  let ?wr = "snd (os_kevent_change os (io_kq io) (EV_ADD_ONESHOT EVFILT_READ fd ?i) w1)"
  have box: "inbox w1 = inbox w" "inbox ?wr = inbox w1" "inbox w2 = inbox ?wr"
    using assms(2) a(2,7) unfolding kernel_quiet_def by (metis snd_conv)+
  have sock: "io_inv io" "0 \<le> ?i" "?i < io_socket_count io" "so_fd (io_sockets io ! nat ?i) = fd" "\<not> ws_use_ssl ws"
    using assms(4) a(1) by (auto simp: plain_socket_def)
  have poll: "io_poll os io IO_MAX_SOCKETS 10 w = Some (1, [e], ?wr)"
    using a(2,6) sock socket_at(1) [OF sock(1-3)] by (simp add: io_poll_def IO_MAX_SOCKETS_def Let_def)
  obtain ws1 wa where rd: "ws_io_read os ws ?i ?wr = Some (int (length d), ws1, wa)" "after_read d ws ws1" "inbox wa = inbox w2"
    by (rule socket_read [OF assms(1,3,4,5) a(7) d])
  have ssl: "\<not> ws_use_ssl ws1" and st: "ws_state ws1 = WS_STATE_CONNECTING \<or> ws_state ws1 = WS_STATE_CONNECTED"
    using rd(2) sock(5) assms(8) by (simp_all add: after_read_def settings_def)
  have "process_event os e ws ?wr = handle_read os ws1 wa"
    using st by (elim disjE) (simp_all add: process_event_def handle_read_def drive_ssl_handshake_def rd(1) ssl a sock(5))
  then show ?thesis
    using box rd(3) a(1) poll
    by (intro that [OF rd(2) _ ssl, of wa]) (auto simp: websocket_process_def quiet_checks [OF _ assms(7)])
qed

text \<open>The frames that a turn leaves to the final pass.\<close>

lemma drain_rest:
  assumes "observes os inbox" and "rx_ready ws" and "rb_list (ws_rx_ring ws) = concat (map rfc_encode frs) @ rest"
    and "\<forall>fr \<in> set frs. rfc_valid fr \<and> r_opcode fr \<noteq> 9" and "incomplete rest" and "length frs \<le> 1000"
    and "\<not> ws_use_ssl ws" and "frs = [] \<or> ws_state ws = WS_STATE_CONNECTED"
  obtains ws' w' where "drain_connection os ws w = Some (ws', w')" and "received inbox frs rest ws w ws' w'"
proof (cases "ws_state ws = WS_STATE_CONNECTED")
  case True
  obtain ws' w' where "process_frames os ws w = Some (ws', w')" "received inbox frs rest ws w ws' w'"
    by (rule pass_received [OF assms(1-4) disjI2 [OF assms(5)] assms(6)])
  with True assms(7) show ?thesis
    by (intro that [of ws' w']) (simp_all add: drain_connection_def)
next
  case False
  with assms(2,3,8) show ?thesis
    by (intro that [of ws w]) (simp_all add: drain_connection_def received_def after_frames_def rx_ready_def rx_ok_def)
qed

text \<open>
  C1. From the socket to the callback. When the kernel reports a read event on a connected plain
  socket and delivers bytes that complete a number of frames, one turn of \<open>websocket_process\<close>
  returns the number of events with every message handed to the callback once and in order, also
  those of a frame that had begun to arrive before; the beginning of the next frame stays
  buffered, and the object is closing exactly when a close frame came. The frames are of every
  opcode but ping, the contents do not wrap around the end of the ring, and the reports of health,
  metrics and heartbeat are off.
\<close>

theorem websocket_process_delivers:
  assumes "observes os inbox" and "kernel_quiet os inbox" and "0 < fst (os_timebase os)"
    and "plain_socket ws fd" and "rx_ready ws" and "arrives os ws fd d w" and "unmonitored ws"
    and "ws_state ws = WS_STATE_CONNECTED"
    and "rb_list (ws_rx_ring ws) @ d = concat (map rfc_encode frs) @ rest"
    and "\<forall>fr \<in> set frs. rfc_valid fr \<and> r_opcode fr \<noteq> 9" and "incomplete rest"
  shows "\<exists>ws' w'. websocket_process os ws w = Some (1, ws', w') \<and>
    inbox w' = inbox w @ concat (map delivered frs) \<and> rb_list (ws_rx_ring ws') = rest \<and>
    ws_state ws' = (if \<exists>fr \<in> set frs. r_opcode fr = 8 then WS_STATE_CLOSING else WS_STATE_CONNECTED)"
proof -
  obtain ws1 w1 where rd: "after_read d ws ws1" "inbox w1 = inbox w" "\<not> ws_use_ssl ws1"
    and turn: "\<forall>ws2 w2 ws3 w3. handle_read os ws1 w1 = Some (ws2, w2) \<and> drain_connection os ws2 w2 = Some (ws3, w3) \<and>
      settings ws3 = settings ws \<longrightarrow> websocket_process os ws w = Some (1, ws3, w3)"
    by (rule read_turn [OF assms(1-7) disjI2 [OF assms(8)]])
  then have s1: "rx_ready ws1" "rb_list (ws_rx_ring ws1) = concat (map rfc_encode frs) @ rest" "settings ws1 = settings ws"
      "ws_state ws1 = WS_STATE_CONNECTED"
    using assms(8,9) by (simp_all add: after_read_def)
  obtain ws2 wb ws3 wc where rcv: "process_frames os ws1 w1 = Some (ws2, wb)" "drain_frames os ws2 wb = Some (ws3, wc)"
      "received inbox frs rest ws1 w1 ws3 wc"
    by (rule receive_all [OF assms(1) s1(1,2) assms(10,11)])
  have s3: "rx_ready ws3" "rb_list (ws_rx_ring ws3) = concat (map rfc_encode []) @ rest" "settings ws3 = settings ws"
    using rcv(3) s1(3) by (simp_all add: received_def)
  obtain ws4 wd where dr: "drain_connection os ws3 wc = Some (ws4, wd)" "received inbox [] rest ws3 wc ws4 wd"
    by (rule drain_rest [OF assms(1) s3(1,2) _ assms(11)]) (use rd(3) s1(3) s3(3) in \<open>simp_all add: settings_def\<close>)
  have "handle_read os ws1 w1 = Some (ws3, wc)" using rcv(1,2) s1(4) by (simp add: handle_read_def)
  moreover have "received inbox frs rest ws1 w1 ws4 wd"
    using received_trans [OF rcv(3) dr(2)] by simp
  ultimately show ?thesis
    using turn dr(1) rd(2) s1(3,4) by (auto simp: received_def after_frames_eq)
qed

text \<open>The example system, with one event pending.\<close>

definition demo_event_os :: "kevent \<Rightarrow> demo_world ws_os" where
  "demo_event_os e = demo_ws_os\<lparr>os_kevent_wait := \<lambda>kq n t w. (Some [e], w)\<rparr>"

definition read_event :: kevent where
  "read_event = \<lparr>ke_filter = EVFILT_READ, ke_eof = False, ke_error = False, ke_udata = 0\<rparr>"

lemma demo_event_observes: "observes (demo_event_os e) dw_messages"
  by (simp add: observes_def demo_event_os_def demo_ws_os_simps demo_note_def)

lemma demo_event_quiet: "kernel_quiet (demo_event_os e) dw_messages"
  by (simp add: kernel_quiet_def demo_event_os_def demo_ws_os_simps demo_change_def demo_recvmsg_def
      split: kchange.split list.split)

lemma demo_event_calls:
  "os_kevent_wait (demo_event_os e) kq n t w = (Some [e], w)"
  "os_kevent_change (demo_event_os e) = demo_change" "os_recvmsg (demo_event_os e) = demo_recvmsg"
  "os_timebase (demo_event_os e) = (125, 3)"
  by (simp_all add: demo_event_os_def demo_ws_os_simps)

lemma demo_rx_ready: "length d < 2 ^ 60 \<Longrightarrow> rx_ready (demo_ws d)"
  by (simp add: rx_ready_def demo_rx_ok demo_ws_ring)

lemma demo_ws_settings:
  "ws_io_ctx (demo_ws d) = Some demo_ws_io" "ws_socket_index (demo_ws d) = 0" "ws_on_health (demo_ws d) = 0"
  "ws_on_metrics (demo_ws d) = 0" "\<not> enable_heartbeat (ws_heartbeat_config (demo_ws d))"
  by (simp_all add: demo_ws_simps zero_heartbeat_config_def)

lemma demo_arrives:
  assumes "d \<noteq> []" and "length d < 64"
  shows "arrives (demo_event_os read_event) (demo_ws pre\<lparr>ws_state := s\<rparr>) 5 d (demo_start [] [Recv d []])"
  using assms by (simp add: arrives_def demo_ws_ring demo_ws_settings demo_event_calls read_event_def
      demo_recvmsg_def demo_change_def demo_start_def)

lemma demo_state:
  "demo_ws d\<lparr>ws_state := WS_STATE_CONNECTED\<rparr> = demo_ws d" "rx_ready (demo_ws d\<lparr>ws_state := s\<rparr>) = rx_ready (demo_ws d)"
  "plain_socket (demo_ws d\<lparr>ws_state := s\<rparr>) fd = plain_socket (demo_ws d) fd" "unmonitored (demo_ws d\<lparr>ws_state := s\<rparr>)"
  by (simp_all add: demo_ws_simps zero_heartbeat_config_def rx_ready_def rx_ok_def pool_ok_def latency_inv_def plain_socket_def
      websocket_get_last_nic_timestamp_ns_def unmonitored_def)

theorem websocket_process_delivers_witness:
  "\<exists>ws' w'. websocket_process (demo_event_os read_event) (demo_ws []) (demo_start [] [Recv (rfc_encode hello_frame) []]) =
     Some (1, ws', w') \<and> dw_messages w' = [[72, 105]] \<and> ws_state ws' = WS_STATE_CONNECTED"
proof -
  have "rfc_encode hello_frame \<noteq> []" "length (rfc_encode hello_frame) < 64" "r_opcode hello_frame = 1"
      "delivered hello_frame = [[72, 105]]"
    using hello_length by (auto simp: hello_frame_def delivered_def)
  with websocket_process_delivers [OF demo_event_observes demo_event_quiet _ demo_plain demo_rx_ready
      demo_arrives [where s = WS_STATE_CONNECTED and pre = "[]", unfolded demo_state(1)],
      of "rfc_encode hello_frame" "[hello_frame]" "[]"] demo_state(4) [where s = WS_STATE_CONNECTED and d = "[]"]
  show ?thesis
    by (auto simp: demo_event_calls demo_ws_ring demo_state example_frames incomplete_def demo_start_def)
qed

subsection \<open>The connection opens\<close>

text \<open>Memory is available, and asking for it does not run application code.\<close>

definition malloc_succeeds :: "('w, 'z) tls_os_scheme \<Rightarrow> ('w \<Rightarrow> byte list list) \<Rightarrow> bool" where
  "malloc_succeeds os inbox \<longleftrightarrow> (\<forall>n w. fst (os_malloc os n w) \<and> inbox (snd (os_malloc os n w)) = inbox w)"

text \<open>A complete response of the server that the client must accept.\<close>

definition good_response :: "byte list \<Rightarrow> bool" where
  "good_response resp \<longleftrightarrow> 0 \<notin> set resp \<and> length resp \<le> 4095 \<and> status_101 resp \<and>
     names_upgrade (map tolower resp) \<and> names_connection (map tolower resp) \<and> ends_at_blank resp"

lemma record_start_effect:
  assumes "observes os inbox"
  obtains t w' where "record_connection_start os ws w = Some (ws\<lparr>ws_connection_start_ns := t\<rparr>, w')" and "inbox w' = inbox w"
proof (cases "ws_connection_start_ns ws = 0")
  case True
  obtain t w0 where t: "get_time_ns os w = Some (t, w0)" "inbox w0 = inbox w"
    by (rule observes_time [OF assms])
  let ?ws = "ws\<lparr>ws_connection_start_ns := t\<rparr>"
  obtain w' where "WS_LOG os ?ws WS_LOG_INFO
      (bytes_of ''WebSocket connected to '' @ ws_host ?ws @ bytes_of '':'' @ int_decimal (ws_port ?ws)) w0 = Some (?ws, w')"
      "inbox w' = inbox w0"
    by (rule observes_log [OF assms])
  with t True show ?thesis
    by (intro that [of t w']) (simp_all add: record_connection_start_def)
next
  case False
  then show ?thesis
    by (intro that [of "ws_connection_start_ns ws" w]) (simp_all add: record_connection_start_def)
qed

lemma register_write_effect:
  assumes "kernel_quiet os inbox" and "ws_io_ctx ws \<noteq> None"
  obtains w' where "register_write_event os ws w = Some (ws, w')" and "inbox w' = inbox w"
proof -
  obtain io where "ws_io_ctx ws = Some io" using assms(2) by blast
  moreover have "inbox (snd (os_kevent_change os kq c v)) = inbox v" for kq c v
    using assms(1) by (simp add: kernel_quiet_def)
  ultimately show ?thesis
    using that by (cases "0 < ringbuffer_readable (ws_tx_ring ws)") (simp_all add: register_write_event_def)
qed

lemma opened_object:
  assumes "observes os inbox" and "kernel_quiet os inbox" and "ws_io_ctx ws \<noteq> None"
  obtains ws1 ws' w1 w' where "record_connection_start os ws w = Some (ws1, w1)"
    and "register_write_event os (reset_reconnect_state ws1) w1 = Some (ws', w')" and "inbox w' = inbox w"
    and "ws_rx_ring ws' = ws_rx_ring ws" and "ws_state ws' = ws_state ws" and "settings ws' = settings ws"
    and "rx_ok ws' = rx_ok ws"
proof -
  obtain t w1 where start: "record_connection_start os ws w = Some (ws\<lparr>ws_connection_start_ns := t\<rparr>, w1)" "inbox w1 = inbox w"
    by (rule record_start_effect [OF assms(1)])
  let ?ws' = "reset_reconnect_state (ws\<lparr>ws_connection_start_ns := t\<rparr>)"
  have same: "ws_io_ctx ?ws' = ws_io_ctx ws" "ws_rx_ring ?ws' = ws_rx_ring ws" "ws_state ?ws' = ws_state ws"
      "settings ?ws' = settings ws" "latency_inv ?ws' = latency_inv ws" "pool_ok ?ws' = pool_ok ws"
      "ws_socket_index ?ws' = ws_socket_index ws" "ws_use_ssl ?ws' = ws_use_ssl ws" "ws_ssl_ctx ?ws' = ws_ssl_ctx ws"
      "ws_on_message ?ws' = ws_on_message ws" "ws_metrics ?ws' = ws_metrics ws"
    by (simp_all add: reset_reconnect_state_def settings_def latency_inv_def pool_ok_def)
  then have rx: "rx_ok ?ws' = rx_ok ws"
    by (simp add: rx_ok_def websocket_get_last_nic_timestamp_ns_def cong: if_cong option.case_cong)
  obtain w' where reg: "register_write_event os ?ws' w1 = Some (?ws', w')" "inbox w' = inbox w1"
    using register_write_effect [OF assms(2), of ?ws' w1] assms(3) same(1) by metis
  show ?thesis
    using that [OF start(1) reg(1)] start(2) reg(2) same(2-4) rx by simp
qed

lemma handshake_opens:
  assumes "observes os inbox" and "kernel_quiet os inbox" and "malloc_succeeds os inbox" and "rx_ready ws"
    and "ws_io_ctx ws \<noteq> None" and "rb_list (ws_rx_ring ws) = resp @ rest" and "good_response resp"
    and "0 \<in> set (drop (rb_read_ptr (ws_rx_ring ws)) (rb_mem (ws_rx_ring ws)))"
  obtains ws' w' where "process_handshake os ws w = Some (ws', w')" and "inbox w' = inbox w" and "rx_ready ws'"
    and "rb_list (ws_rx_ring ws') = rest" and "ws_state ws' = WS_STATE_CONNECTED" and "settings ws' = settings ws"
proof -
  have rx: "rx_ok ws" "rb_inv (ws_rx_ring ws)" "rb_buf (ws_rx_ring ws) \<noteq> 0" "rb_read_ptr (ws_rx_ring ws) \<le> rb_write_ptr (ws_rx_ring ws)"
    using assms(4) by (simp_all add: rx_ready_def)
  have g: "0 \<notin> set resp" "length resp \<le> 4095" "status_101 resp" "names_upgrade (map tolower resp)"
      "names_connection (map tolower resp)" "ends_at_blank resp"
    using assms(7) by (simp_all add: good_response_def)
  have m: "\<forall>n. fst (os_malloc os n w)" using assms(3) by (simp add: malloc_succeeds_def)
  obtain rb n where p: "parse_handshake_response os (ws_rx_ring ws) w = Some (0, rb, snd (os_malloc os n w))" "rb_inv rb"
      "rb_list rb = rest" "rb = (ws_rx_ring ws)\<lparr>rb_read_ptr := rb_read_ptr rb\<rparr>"
    by (rule response_accepted [OF rx(2,4) assms(6) g assms(8) m rx(3)])
  let ?ws = "ws\<lparr>ws_rx_ring := rb, ws_state := WS_STATE_CONNECTED\<rparr>" and ?w = "snd (os_malloc os n w)"
  have rb: "rb_buf rb = rb_buf (ws_rx_ring ws)" "rb_write_ptr rb = rb_write_ptr (ws_rx_ring ws)" "rb_size rb = rb_size (ws_rx_ring ws)"
    by (subst p(4); simp)+
  have le: "rb_read_ptr rb \<le> rb_write_ptr rb"
    using length_rb_list [OF p(2)] length_rb_list [OF rx(2)] p(2,3) rx(4) assms(6) rb
    by (auto simp: ring_used_def rb_inv_def split: if_splits)
  have "ws_io_ctx ?ws \<noteq> None" using assms(5) by simp
  then obtain ws1 ws' w1 w' where o: "record_connection_start os ?ws ?w = Some (ws1, w1)"
      "register_write_event os (reset_reconnect_state ws1) w1 = Some (ws', w')" "inbox w' = inbox ?w"
      "ws_rx_ring ws' = ws_rx_ring ?ws" "ws_state ws' = ws_state ?ws" "settings ws' = settings ?ws" "rx_ok ws' = rx_ok ?ws"
    by (rule opened_object [OF assms(1,2)])
  have "snd (ringbuffer_read_inline (ws_rx_ring ws)) \<noteq> 0"
    using g(3) assms(6) rx(2,4) by (auto simp: read_inline_eq status_101_def)
  then have "process_handshake os ws w = Some (ws', w')"
    using p(1) o(1,2) by (simp add: process_handshake_def split_beta)
  moreover have "rx_ok ?ws"
    using rx(1) by (simp add: rx_ok_def pool_ok_def latency_inv_def websocket_get_last_nic_timestamp_ns_def
        cong: if_cong option.case_cong)
  then have "rx_ready ws'"
    using rx(3) p(2) rb le o(4,7) by (simp add: rx_ready_def)
  ultimately show ?thesis
    using that [of ws' w'] o p(3) assms(3) by (simp add: malloc_succeeds_def settings_def)
qed

text \<open>
  C4. The connection opens. When the bytes that complete a correct response of the server arrive
  on a connecting plain socket, one turn of \<open>websocket_process\<close> makes the object connected; the
  messages that arrive behind the response are delivered in the same turn, once and in order, and
  the beginning of the next frame stays buffered. The search for the blank line reads the ring as
  a string, so that a zero byte behind the contents is needed. At most 1000 frames, none of them a
  ping, follow the response, the contents do not wrap around the end of the ring, and the reports of
  health, metrics and heartbeat are off.
\<close>

theorem websocket_process_opens:
  assumes "observes os inbox" and "kernel_quiet os inbox" and "0 < fst (os_timebase os)"
    and "plain_socket ws fd" and "rx_ready ws" and "arrives os ws fd d w" and "unmonitored ws" and "malloc_succeeds os inbox"
    and "ws_state ws = WS_STATE_CONNECTING"
    and "rb_list (ws_rx_ring ws) @ d = resp @ concat (map rfc_encode frs) @ rest" and "good_response resp"
    and "\<forall>fr \<in> set frs. rfc_valid fr \<and> r_opcode fr \<noteq> 9" and "incomplete rest" and "length frs \<le> 1000"
    and "0 \<in> set (drop (rb_write_ptr (ws_rx_ring ws) + length d) (rb_mem (ws_rx_ring ws)))"
  shows "\<exists>ws' w'. websocket_process os ws w = Some (1, ws', w') \<and>
    inbox w' = inbox w @ concat (map delivered frs) \<and> rb_list (ws_rx_ring ws') = rest \<and>
    ws_state ws' = (if \<exists>fr \<in> set frs. r_opcode fr = 8 then WS_STATE_CLOSING else WS_STATE_CONNECTED)"
proof -
  obtain ws1 w1 where rd: "after_read d ws ws1" "inbox w1 = inbox w" "\<not> ws_use_ssl ws1"
    and turn: "\<forall>ws2 w2 ws3 w3. handle_read os ws1 w1 = Some (ws2, w2) \<and> drain_connection os ws2 w2 = Some (ws3, w3) \<and>
      settings ws3 = settings ws \<longrightarrow> websocket_process os ws w = Some (1, ws3, w3)"
    by (rule read_turn [OF assms(1-7) disjI1 [OF assms(9)]])
  let ?p = "rb_write_ptr (ws_rx_ring ws) + length d"
  have s1: "rx_ready ws1" "rb_list (ws_rx_ring ws1) = resp @ concat (map rfc_encode frs) @ rest" "settings ws1 = settings ws"
      "ws_state ws1 = WS_STATE_CONNECTING" "ws_io_ctx ws1 \<noteq> None"
      "drop ?p (rb_mem (ws_rx_ring ws1)) = drop ?p (rb_mem (ws_rx_ring ws))" "rb_read_ptr (ws_rx_ring ws1) \<le> ?p"
    using rd(1) assms(9,10) by (simp_all add: after_read_def)
  have "0 \<in> set (drop (rb_read_ptr (ws_rx_ring ws1)) (rb_mem (ws_rx_ring ws1)))"
    using assms(15) s1(6) set_drop_subset_set_drop [OF s1(7), of "rb_mem (ws_rx_ring ws1)"] by auto
  then obtain ws2 w2 where hs: "process_handshake os ws1 w1 = Some (ws2, w2)" "inbox w2 = inbox w1" "rx_ready ws2"
      "rb_list (ws_rx_ring ws2) = concat (map rfc_encode frs) @ rest" "ws_state ws2 = WS_STATE_CONNECTED" "settings ws2 = settings ws1"
    by (rule handshake_opens [OF assms(1,2,8) s1(1,5,2) assms(11)])
  have "\<not> ws_use_ssl ws2" using hs(6) rd(3) by (simp add: settings_def)
  then obtain ws3 w3 where dr: "drain_connection os ws2 w2 = Some (ws3, w3)" "received inbox frs rest ws2 w2 ws3 w3"
    using disjI2 [OF hs(5)] by (rule drain_rest [OF assms(1) hs(3,4) assms(12-14)])
  have "handle_read os ws1 w1 = Some (ws2, w2)" using hs(1) s1(4) by (simp add: handle_read_def)
  then show ?thesis
    using turn dr hs(2,5,6) rd(2) s1(3) by (auto simp: received_def after_frames_eq)
qed

theorem websocket_process_opens_witness:
  "\<exists>ws' w'. websocket_process (demo_event_os read_event) (demo_ws (take 50 demo_response)\<lparr>ws_state := WS_STATE_CONNECTING\<rparr>)
       (demo_start [] [Recv (drop 50 demo_response @ rfc_encode hello_frame) []]) = Some (1, ws', w') \<and>
     dw_messages w' = [[72, 105]] \<and> ws_state ws' = WS_STATE_CONNECTED"
proof -
  let ?pre = "take 50 demo_response" and ?d = "drop 50 demo_response @ rfc_encode hello_frame"
  let ?ws = "demo_ws ?pre\<lparr>ws_state := WS_STATE_CONNECTING\<rparr>" and ?os = "demo_event_os read_event"
  have l: "length ?d = 18" "?d \<noteq> []" "r_opcode hello_frame = 1" "delivered hello_frame = [[72, 105]]"
    using hello_length demo_response_ok(4) by (auto simp: hello_frame_def delivered_def)
  have g: "good_response demo_response" "malloc_succeeds ?os dw_messages"
    using demo_response_ok unfolding good_response_def names_upgrade_def names_connection_def
    by (auto simp: malloc_succeeds_def demo_event_os_def demo_ws_os_simps)
  have r: "rb_list (ws_rx_ring ?ws) @ ?d = demo_response @ concat (map rfc_encode [hello_frame]) @ []"
    by (simp add: demo_ws_ring)
  have z: "0 \<in> set (drop (rb_write_ptr (ws_rx_ring ?ws) + length ?d) (rb_mem (ws_rx_ring ?ws)))"
    using l(1) by (simp add: demo_ws_ring demo_ring_def demo_response_ok)
  have "plain_socket ?ws 5" "rx_ready ?ws" "unmonitored ?ws" "arrives ?os ?ws 5 ?d (demo_start [] [Recv ?d []])"
    using l demo_arrives [of ?d] by (simp_all add: demo_state demo_plain demo_rx_ready demo_response_ok)
  from websocket_process_opens [OF demo_event_observes demo_event_quiet _ this(1,2,4,3) g(2) _ r g(1) _ _ _ z] l show ?thesis
    by (auto simp: demo_event_calls example_frames incomplete_def demo_start_def)
qed

subsection \<open>The end of a connection\<close>

text \<open>
  Descriptors: \<open>fds\<close> gives the descriptors that are open in a world. A call of \<open>close\<close> closes its
  argument and nothing else, and the other calls of the cleanup close none.
\<close>

definition descriptor_laws :: "('w, 'z) io_os_scheme \<Rightarrow> ('w \<Rightarrow> int set) \<Rightarrow> bool" where
  "descriptor_laws os fds \<longleftrightarrow>
     (\<forall>fd w. fds (os_close os fd w) = fds w - {fd}) \<and> (\<forall>fd w. fds (os_shutdown os fd w) = fds w) \<and>
     (\<forall>kq c w. fds (snd (os_kevent_change os kq c w)) = fds w) \<and>
     (\<forall>a n w. fds (vm_munlock os a n w) = fds w) \<and> (\<forall>a n w. fds (vm_deallocate os a n w) = fds w)"

text \<open>An observation of the world that the calls which neither open nor close a descriptor keep.\<close>

definition calls_keep :: "('w, 'z) io_os_scheme \<Rightarrow> ('w \<Rightarrow> 'o) \<Rightarrow> bool" where
  "calls_keep os f \<longleftrightarrow> (\<forall>fd w. f (os_shutdown os fd w) = f w) \<and> (\<forall>kq c w. f (snd (os_kevent_change os kq c w)) = f w) \<and>
     (\<forall>a n w. f (vm_munlock os a n w) = f w) \<and> (\<forall>a n w. f (vm_deallocate os a n w) = f w)"

lemma descriptor_laws_keep: "descriptor_laws os fds \<Longrightarrow> calls_keep os fds"
  by (simp add: descriptor_laws_def calls_keep_def)

text \<open>The calls of \<open>close\<close>, in order, as an observation of the world.\<close>

definition close_log :: "('w, 'z) io_os_scheme \<Rightarrow> ('w \<Rightarrow> int list) \<Rightarrow> bool" where
  "close_log os closes \<longleftrightarrow> calls_keep os closes \<and> (\<forall>fd w. closes (os_close os fd w) = closes w @ [fd])"

lemma remove_keeps:
  assumes "calls_keep os f" and "io_inv ctx"
  obtains r ctx' w' where "io_remove_socket os ctx fd w = Some (r, ctx', w')" and "io_inv ctx'"
    and "io_kq ctx' = io_kq ctx" and "f w' = f w"
proof -
  have k: "f (snd (os_kevent_change os kq c v)) = f v" for kq c v
    using assms(1) by (simp add: calls_keep_def)
  let ?f = "find (\<lambda>i. so_fd (live ctx ! i) = fd) [0..<length (live ctx)]"
  have "i < nat (io_socket_count ctx)" if "?f = Some i" for i
    using that assms(2) unfolding find_Some_iff by (auto simp: live_def io_inv_def)
  then have "fd < 0 \<or> ?f = None \<or> (\<exists>i < nat (io_socket_count ctx). 0 \<le> fd \<and> ?f = Some i)"
    by (cases ?f) auto
  then have "\<exists>r ctx' w'. io_remove_socket os ctx fd w = Some (r, ctx', w') \<and> io_inv ctx' \<and> io_kq ctx' = io_kq ctx \<and> f w' = f w"
    using assms(2) k
    by (elim disjE exE conjE)
      (auto simp: io_remove_socket_def find_live [OF assms(2)] Let_def split_beta arr_get_def arr_set_def io_inv_def)
  then show ?thesis using that by blast
qed

lemma cleanup_loop_keeps:
  assumes "calls_keep os f"
  shows "io_inv ctx \<Longrightarrow> \<exists>ctx' w'. io_cleanup_loop os is ctx w = Some (ctx', w') \<and> io_kq ctx' = io_kq ctx \<and> f w' = f w"
proof (induction "is" arbitrary: ctx w)
  case (Cons i js)
  show ?case
  proof (cases "int i < io_socket_count ctx")
    case True
    note s = socket_at(1) [OF Cons.prems _ True]
    obtain r ctx' w' where r: "io_remove_socket os ctx (so_fd (io_sockets ctx ! i)) w = Some (r, ctx', w')" "io_inv ctx'"
        "io_kq ctx' = io_kq ctx" "f w' = f w"
      by (rule remove_keeps [OF assms Cons.prems])
    show ?thesis
      using True s r Cons.IH [OF r(2), of w'] Cons.IH [OF Cons.prems, of w]
      by (cases "so_fd (io_sockets ctx ! i) = -1") simp_all
  qed simp
qed simp

lemma ring_cleanup_keeps:
  assumes "calls_keep os f"
  shows "f (snd (ringbuffer_cleanup os rb w)) = f w"
  using assms by (simp add: calls_keep_def ringbuffer_cleanup_def Let_def)

lemma closed_destroy:
  assumes "descriptor_laws os fds" and "ws_state ws = WS_STATE_CLOSED" and "ws_ssl_ctx ws = None"
    and "ws_io_ctx ws = Some io" and "io_inv io"
  obtains w' where "websocket_destroy os ws w = Some w'" and "fds w - {io_kq io} \<subseteq> fds w'"
proof -
  obtain ctx w1 where c: "io_cleanup_loop os [0..<nat (io_socket_count io)] io w = Some (ctx, w1)" "io_kq ctx = io_kq io" "fds w1 = fds w"
    using cleanup_loop_keeps [OF descriptor_laws_keep [OF assms(1)] assms(5)] by blast
  have cl: "fds (os_close os fd v) = fds v - {fd}" for fd v
    using assms(1) by (simp add: descriptor_laws_def)
  show ?thesis
    using assms(2-4) c
    by (intro that) (auto simp: websocket_destroy_def io_cleanup_def split_beta Let_def ring_cleanup_keeps [OF descriptor_laws_keep [OF assms(1)]] cl
        split: if_splits)
qed

text \<open>
  C20. A peer that closes a plain connection leaves its descriptor open for good. After the event
  that reports the end of the connection the object is closed, but its socket is not: neither
  \<open>websocket_close\<close>, which does nothing to a closed object, nor \<open>websocket_destroy\<close>, which frees it,
  closes the descriptor.
\<close>

theorem peer_close_leaks_descriptor:
  assumes "descriptor_laws os fds" and "plain_socket ws fd" and "ws_ssl_ctx ws = None" and "ws_io_ctx ws = Some io"
    and "ws_state ws = WS_STATE_CONNECTED \<or> ws_state ws = WS_STATE_CONNECTING" and "ws_on_error ws = 0"
    and "ke_eof e" and "fd \<in> fds w" and "io_kq io \<noteq> fd"
  shows "\<exists>ws' w''. process_event os e ws w = Some (ws', w) \<and> ws_state ws' = WS_STATE_CLOSED \<and>
    websocket_close os ws' w = Some (0, ws', w) \<and> websocket_destroy os ws' w = Some w'' \<and> fd \<in> fds w''"
proof -
  let ?ws = "ws\<lparr>ws_state := WS_STATE_CLOSED\<rparr>"
  have "ws_state ?ws = WS_STATE_CLOSED" "ws_ssl_ctx ?ws = None" "ws_io_ctx ?ws = Some io" "io_inv io"
    using assms(2-4) by (simp_all add: plain_socket_def)
  then obtain w'' where "websocket_destroy os ?ws w = Some w''" "fds w - {io_kq io} \<subseteq> fds w''"
    by (rule closed_destroy [OF assms(1)])
  moreover have "process_event os e ws w = Some (?ws, w)"
    using assms(5-7) by (auto simp: process_event_def report_error_def)
  ultimately show ?thesis
    using assms(8,9) by (intro exI [of _ ?ws] exI [of _ w'']) (auto simp: websocket_close_def)
qed

text \<open>In the example system a descriptor is open until it is listed as closed.\<close>

lemma demo_descriptors: "descriptor_laws demo_ws_os (\<lambda>w. {3, 5} - set (dw_closed w))"
  by (auto simp: descriptor_laws_def demo_ws_os_simps demo_change_def split: kchange.split)

theorem peer_close_leaks_descriptor_witness:
  "\<exists>ws' w''. process_event demo_ws_os (read_event\<lparr>ke_eof := True\<rparr>) (demo_ws []) (demo_start [] []) = Some (ws', demo_start [] []) \<and>
     websocket_destroy demo_ws_os ws' (demo_start [] []) = Some w'' \<and> 5 \<notin> set (dw_closed w'')"
proof -
  have "ws_ssl_ctx (demo_ws []) = None" "ws_on_error (demo_ws []) = 0" "io_kq demo_ws_io \<noteq> 5"
      "5 \<in> {3, 5} - set (dw_closed (demo_start [] []))"
    by (simp_all add: demo_ws_simps demo_ws_io_def demo_start_def)
  with peer_close_leaks_descriptor [OF demo_descriptors demo_plain _ demo_ws_settings(1), of "[]" "read_event\<lparr>ke_eof := True\<rparr>" "demo_start [] []"]
  show ?thesis
    by (auto simp: demo_ws_ring)
qed

lemma close_effect:
  assumes "close_log os closes" and "ws_state ws \<noteq> WS_STATE_CLOSED" and "0 \<le> ws_fd ws"
    and "\<forall>io. ws_io_ctx ws = Some io \<longrightarrow> io_inv io"
  obtains io w' where "websocket_close os ws w = Some (0, ws\<lparr>ws_io_ctx := io, ws_fd := -1, ws_state := WS_STATE_CLOSED\<rparr>, w')"
    and "closes w' = closes w @ [ws_fd ws]" and "\<forall>io'. io = Some io' \<longrightarrow> io_inv io'"
    and "map_option io_kq io = map_option io_kq (ws_io_ctx ws)"
proof -
  have k: "calls_keep os closes" "closes (os_close os (ws_fd ws) (os_shutdown os (ws_fd ws) v)) = closes v @ [ws_fd ws]" for v
    using assms(1) by (simp_all add: close_log_def calls_keep_def)
  show ?thesis
  proof (cases "\<exists>io. ws_io_ctx ws = Some io \<and> 0 \<le> ws_socket_index ws")
    case True
    then obtain io where io: "ws_io_ctx ws = Some io" "0 \<le> ws_socket_index ws" "io_inv io"
      using assms(4) by blast
    obtain r io' w1 where "io_remove_socket os io (ws_fd ws) w = Some (r, io', w1)" "io_inv io'" "io_kq io' = io_kq io"
        "closes w1 = closes w"
      by (rule remove_keeps [OF k(1) io(3)])
    with io assms(2,3) show ?thesis
      by (intro that [of "Some io'" "os_close os (ws_fd ws) (os_shutdown os (ws_fd ws) w1)"]) (simp_all add: websocket_close_def k(2))
  next
    case False
    with assms(2-4) show ?thesis
      by (intro that [of "ws_io_ctx ws" "os_close os (ws_fd ws) (os_shutdown os (ws_fd ws) w)"]) (auto simp: websocket_close_def k(2) split: option.splits)
  qed
qed

text \<open>
  C19. Closing a connection closes its descriptor exactly once: in the log of the calls of \<open>close\<close>
  the socket's descriptor is added once and nothing else. The object, plain or encrypted, is then
  closed and has no descriptor, its socket table stays well-formed, and closing it again does
  nothing at all.
\<close>

theorem websocket_close_releases:
  assumes "close_log os closes" and "ws_state ws \<noteq> WS_STATE_CLOSED" and "0 \<le> ws_fd ws"
    and "\<forall>io. ws_io_ctx ws = Some io \<longrightarrow> io_inv io"
  shows "\<exists>ws' w'. websocket_close os ws w = Some (0, ws', w') \<and> ws_state ws' = WS_STATE_CLOSED \<and> ws_fd ws' = -1 \<and>
    closes w' = closes w @ [ws_fd ws] \<and> (\<forall>io'. ws_io_ctx ws' = Some io' \<longrightarrow> io_inv io') \<and>
    websocket_close os ws' w' = Some (0, ws', w')"
proof -
  obtain io w1 where "websocket_close os ws w = Some (0, ws\<lparr>ws_io_ctx := io, ws_fd := -1, ws_state := WS_STATE_CLOSED\<rparr>, w1)"
      "closes w1 = closes w @ [ws_fd ws]" "\<forall>io'. io = Some io' \<longrightarrow> io_inv io'"
    by (rule close_effect [OF assms]) blast
  then show ?thesis
    by (simp add: websocket_close_def)
qed

lemma demo_close_log: "close_log demo_ws_os dw_closed"
  by (auto simp: close_log_def calls_keep_def demo_ws_os_simps demo_change_def split: kchange.split)

theorem websocket_close_releases_witness:
  "\<exists>ws' w'. websocket_close demo_ws_os (demo_ws []) (demo_start [] []) = Some (0, ws', w') \<and>
     ws_state ws' = WS_STATE_CLOSED \<and> dw_closed w' = [5]"
proof -
  have "ws_fd (demo_ws []) = 5" "dw_closed (demo_start [] []) = []" "\<forall>io. ws_io_ctx (demo_ws []) = Some io \<longrightarrow> io_inv io"
      "ws_state (demo_ws []) \<noteq> WS_STATE_CLOSED"
    using demo_plain [of "[]"] by (auto simp: demo_ws_simps demo_start_def plain_socket_def)
  with websocket_close_releases [OF demo_close_log, of "demo_ws []" "demo_start [] []"] show ?thesis
    by auto
qed

subsection \<open>Destroying an encrypted connection\<close>

text \<open>
  The shutdown calls of the TLS libraries return and do not close the descriptor: closing the
  session, releasing the handles and sleeping.
\<close>

definition tls_leaves_descriptor :: "('w, 'z) tls_os_scheme \<Rightarrow> ('w \<Rightarrow> int list) \<Rightarrow> bool" where
  "tls_leaves_descriptor os closes \<longleftrightarrow>
     (\<forall>rd wr h c w. \<exists>status c' w'. st_SSLClose os rd wr h c w = Some (status, c', w') \<and> closes w' = closes w) \<and>
     (\<forall>h w. closes (st_SSLDisposeContext os h w) = closes w) \<and> (\<forall>n w. closes (os_usleep os n w) = closes w) \<and>
     (\<forall>h w. closes (ossl_shutdown_free os h w) = closes w) \<and> (\<forall>h w. closes (ossl_CTX_free os h w) = closes w)"

lemma ssl_cleanup_closes:
  assumes "close_log os closes" and "tls_leaves_descriptor os closes" and "0 \<le> sc_fd c"
  obtains w' where "ssl_cleanup os c w = Some w'" and "closes w' = closes w @ [sc_fd c]"
proof -
  let ?c = "c\<lparr>sc_fd := -1\<rparr>"
  obtain st c' w1 where cl: "st_SSLClose os (ssl_read_func os) (ssl_write_func os) (sc_st_ctx c) ?c
      (os_close os (sc_fd c) (os_shutdown os (sc_fd c) w)) = Some (st, c', w1)"
      "closes w1 = closes w @ [sc_fd c]"
    using assms(1,2) unfolding tls_leaves_descriptor_def close_log_def calls_keep_def by metis
  have k: "closes (os_close os (sc_fd c) (os_shutdown os (sc_fd c) w)) = closes w @ [sc_fd c]"
    using assms(1) by (simp add: close_log_def calls_keep_def)
  have "\<exists>w'. ssl_cleanup os c w = Some w' \<and> closes w' = closes w @ [sc_fd c]"
    using assms(2,3) cl k by (simp add: ssl_cleanup_def tls_leaves_descriptor_def Let_def)
  then show ?thesis using that by blast
qed

lemma io_cleanup_closes:
  assumes "close_log os closes" and "io_inv io"
  obtains io' w' where "io_cleanup os io w = Some (io', w')"
    and "closes w' = closes w @ (if io_kq io = -1 then [] else [io_kq io])"
proof -
  have k: "calls_keep os closes" "closes (os_close os fd v) = closes v @ [fd]" for fd v
    using assms(1) by (simp_all add: close_log_def)
  obtain ctx w1 where "io_cleanup_loop os [0..<nat (io_socket_count io)] io w = Some (ctx, w1)" "io_kq ctx = io_kq io"
      "closes w1 = closes w"
    using cleanup_loop_keeps [OF k(1) assms(2)] by blast
  then show ?thesis
    by (intro that) (auto simp: io_cleanup_def Let_def split_beta k(2) split: if_splits)
qed

text \<open>
  C17. Destroying an open encrypted connection closes its descriptor twice. \<open>websocket_close\<close>
  closes the socket, but the TLS context still holds its number, stored by \<open>ssl_connect\<close>, and
  \<open>ssl_cleanup\<close> closes that number again; by then another thread may own it. The kernel queue is closed once, after them.
\<close>

theorem tls_destroy_closes_twice:
  assumes "close_log os closes" and "tls_leaves_descriptor os closes"
    and "ws_state ws = WS_STATE_CONNECTED \<or> ws_state ws = WS_STATE_CONNECTING" and "0 \<le> ws_fd ws"
    and "ws_ssl_ctx ws = Some c" and "sc_fd c = ws_fd ws" and "ws_io_ctx ws = Some io" and "io_inv io"
  shows "\<exists>w'. websocket_destroy os ws w = Some w' \<and>
    closes w' = closes w @ [ws_fd ws, ws_fd ws] @ (if io_kq io = -1 then [] else [io_kq io])"
proof -
  have "ws_state ws \<noteq> WS_STATE_CLOSED" "\<forall>io. ws_io_ctx ws = Some io \<longrightarrow> io_inv io"
    using assms(3,7,8) by auto
  then obtain i w1 where cl: "websocket_close os ws w =
        Some (0, ws\<lparr>ws_io_ctx := i, ws_fd := -1, ws_state := WS_STATE_CLOSED\<rparr>, w1)"
      "closes w1 = closes w @ [ws_fd ws]" "\<forall>io'. i = Some io' \<longrightarrow> io_inv io'"
      "map_option io_kq i = map_option io_kq (ws_io_ctx ws)"
    using close_effect [OF assms(1) _ assms(4)] by metis
  then obtain io' where io': "i = Some io'" "io_inv io'" "io_kq io' = io_kq io"
    using assms(7) by auto
  obtain w2 where w2: "ssl_cleanup os c w1 = Some w2" "closes w2 = closes w1 @ [ws_fd ws]"
    using ssl_cleanup_closes [OF assms(1,2), of c w1] assms(4,6) by metis
  obtain io2 w3 where "io_cleanup os io' w2 = Some (io2, w3)"
      "closes w3 = closes w2 @ (if io_kq io' = -1 then [] else [io_kq io'])"
    by (rule io_cleanup_closes [OF assms(1) io'(2)])
  moreover have "calls_keep os closes"
    using assms(1) by (simp add: close_log_def)
  ultimately show ?thesis
    using assms(3,5) cl(1,2) io'(1,3) w2
    by (simp add: websocket_destroy_def split_beta Let_def ring_cleanup_keeps)
qed

definition tls_ws :: WebSocket where
  "tls_ws = (demo_ws [])\<lparr>ws_use_ssl := True, ws_ssl_ctx := Some demo_ssl\<rparr>"

theorem tls_destroy_closes_twice_witness:
  "\<exists>w'. websocket_destroy demo_ws_os tls_ws (demo_start [] []) = Some w' \<and> dw_closed w' = [5, 5, 3]"
proof -
  have "tls_leaves_descriptor demo_ws_os dw_closed"
    by (simp add: tls_leaves_descriptor_def demo_ws_os_simps)
  moreover have "ws_state tls_ws = WS_STATE_CONNECTED" "ws_fd tls_ws = 5" "ws_ssl_ctx tls_ws = Some demo_ssl"
      "sc_fd demo_ssl = 5" "ws_io_ctx tls_ws = Some demo_ws_io" "dw_closed (demo_start [] []) = []"
    by (simp_all add: tls_ws_def demo_ws_simps demo_start_def demo_ssl_def)
  moreover have "io_inv demo_ws_io" "io_kq demo_ws_io = 3"
    using demo_plain [of "[]"] by (auto simp: plain_socket_def demo_ws_simps demo_ws_io_def)
  ultimately show ?thesis
    using tls_destroy_closes_twice [OF demo_close_log, of tls_ws demo_ssl demo_ws_io "demo_start [] []"] by simp
qed

end
