(* ===== verification/Connect_Props.thy ===== *)
theory Connect_Props
  imports Turn_Props
begin

text \<open>
  Opening a connection: \<open>websocket_connect\<close> on a plain URL, from the URL to the upgrade request in
  the hands of the kernel, and the object it leaves for the event loop.
\<close>

subsection \<open>A system that lets the client connect\<close>

text \<open>
  The system answers for the host and service of the URL with a list of addresses; one of them
  accepts, the others may fail at either call. A descriptor is \<open>-1\<close> or not negative. Memory, the
  kernel queue and the configuration of the socket are granted, and the encoding of sixteen bytes
  fits its buffer.
\<close>

definition accepts :: "('w, 'z) net_os_scheme \<Rightarrow> addrinfo \<Rightarrow> bool" where
  "accepts os a \<longleftrightarrow> (\<forall>w. fst (os_socket os a w) \<noteq> -1) \<and> (\<forall>fd w. fst (os_connect os fd a w) = 0)"

definition granting :: "('w, 'z) ws_os_scheme \<Rightarrow> byte list \<Rightarrow> byte list \<Rightarrow> bool" where
  "granting os host service \<longleftrightarrow> (\<forall>w. fst (vm_allocate os (RINGBUFFER_SIZE + RINGBUFFER_ALIGNMENT) w) \<noteq> None) \<and>
     (\<forall>n w. fst (os_malloc os n w)) \<and> (\<forall>w. fst (os_kqueue os w) \<noteq> -1) \<and>
     (\<forall>w. \<exists>as. fst (os_getaddrinfo os host service w) = Some as \<and> (\<exists>a \<in> set as. accepts os a)) \<and>
     (\<forall>a w. -1 \<le> fst (os_socket os a w)) \<and>
     (\<forall>fd w. fst (os_fcntl_getfl os fd w) \<noteq> -1) \<and> (\<forall>fd fl w. fst (os_fcntl_setfl os fd fl w) \<noteq> -1) \<and>
     (\<forall>kq c w. fst (os_kevent_change os kq c w) \<noteq> -1) \<and> urandom_law os \<and>
     (\<forall>bs. length bs = 16 \<longrightarrow> length (fst (evp_encode os bs) @ snd (evp_encode os bs)) \<le> 32)"

text \<open>A ring as it is after initialisation.\<close>

definition new_ring :: "RingBuffer \<Rightarrow> bool" where
  "new_ring rb \<longleftrightarrow> ring_live rb \<and> rb_read_ptr rb = 0 \<and> rb_write_ptr rb = 0 \<and> rb_size rb = RINGBUFFER_SIZE"

lemma new_ring_simps:
  assumes "new_ring rb"
  shows "rb_inv rb" "rb_buf rb \<noteq> 0" "rb_list rb = []" "rb_capacity rb = 8388607" "rb_read_ptr rb \<le> rb_write_ptr rb"
  using assms by (simp_all add: new_ring_def ring_live_def rb_list_def ring_list_def rb_capacity_def RINGBUFFER_SIZE_def)

lemma init_succeeds:
  assumes "vm_laws os" and "granting os host service"
  obtains rb' w' where "ringbuffer_init os rb w = Some (0, rb', w')" and "new_ring rb'"
proof -
  let ?n = "RINGBUFFER_SIZE + RINGBUFFER_ALIGNMENT"
  have "fst (vm_allocate os ?n w) \<noteq> None"
    using assms(2) by (simp add: granting_def)
  then obtain a region w1 where v: "vm_allocate os ?n w = (Some (a, region), w1)"
    by (cases "vm_allocate os ?n w") auto
  then have l: "length region = ?n" "unat a + length region < 2 ^ 64"
    using assms(1) unfolding vm_laws_def by metis+
  obtain m ok w2 where r: "ringbuffer_init os rb w = Some (0, \<lparr>rb_buf = align_up a, rb_mem = m,
      rb_size = RINGBUFFER_SIZE, rb_read_ptr = 0, rb_write_ptr = 0, rb_locked = ok\<rparr>, w2)"
    by (rule ringbuffer_init_effect [OF v l])
  let ?rb = "\<lparr>rb_buf = align_up a, rb_mem = m, rb_size = RINGBUFFER_SIZE, rb_read_ptr = 0, rb_write_ptr = 0, rb_locked = ok\<rparr>"
  have "post (ringbuffer_init os rb w) (\<lambda>(r, rb', w'). if r = 0 then ring_live rb' else rb' = rb)"
    by (rule ringbuffer_init_post [OF assms(1)]) simp
  then have "ring_live ?rb" using r by (auto dest: postD)
  with r that show ?thesis by (simp add: new_ring_def)
qed

lemma rings_succeed:
  assumes "vm_laws os" and "granting os host service"
  obtains rx tx w' where "connect_rings os ws w = Some (True, ws\<lparr>ws_rx_ring := rx, ws_tx_ring := tx\<rparr>, w')"
    and "new_ring rx" and "new_ring tx"
proof -
  obtain rx w1 where rx: "ringbuffer_init os (ws_rx_ring ws) w = Some (0, rx, w1)" "new_ring rx"
    by (rule init_succeeds [OF assms])
  obtain tx w2 where tx: "ringbuffer_init os (ws_tx_ring ws) w1 = Some (0, tx, w2)" "new_ring tx"
    by (rule init_succeeds [OF assms])
  show ?thesis
    using rx tx by (intro that [OF _ rx(2) tx(2)]) (simp add: connect_rings_def)
qed

lemma io_init_succeeds:
  fixes os :: "('w, 'z) ws_os_scheme"
  assumes "granting os host service"
  obtains io :: "'p IOContext" and w' where "io_init os w = (0, io, w')" and "io_inv io" and "io_socket_count io = 0"
proof -
  obtain kq w1 where kq: "os_kqueue os w = (kq, w1)" by force
  then have "kq \<noteq> -1" using assms by (metis fst_conv granting_def)
  let ?r = "io_init os w :: int \<times> 'p IOContext \<times> 'w"
  have r: "fst ?r = 0" "io_socket_count (fst (snd ?r)) = 0"
    using \<open>kq \<noteq> -1\<close> kq by (simp_all add: io_init_def zero_context_def Let_def split_beta)
  obtain io w' where i: "?r = (0, io, w')"
    using r(1) by (cases ?r) auto
  with r(2) io_init_inv [OF i] that show ?thesis by simp
qed

lemma tcp_connect_loop_succeeds:
  assumes "\<forall>a w. -1 \<le> fst (os_socket os a w)"
  shows "\<exists>a \<in> set as. accepts os a \<Longrightarrow> 0 \<le> fst (tcp_connect_loop os as w)"
proof (induction as arbitrary: w)
  case (Cons a as)
  obtain fd w1 where fd: "os_socket os a w = (fd, w1)" by force
  obtain r w2 where r: "os_connect os fd a (snd (os_set_timestamp os fd w1)) = (r, w2)" by force
  have "-1 \<le> fd" using assms fd by (metis fst_conv)
  moreover have "fd \<noteq> -1 \<and> r = 0" if "accepts os a"
    using that fd r unfolding accepts_def by (metis fst_conv)
  ultimately show ?case
    using Cons fd r by (auto simp: split_beta Let_def)
qed simp

lemma tcp_connect_succeeds:
  assumes "granting os host (int_decimal port)"
  obtains fd w' where "tcp_connect os host port w = (fd, w')" and "0 \<le> fd"
proof -
  obtain as w1 where g: "os_getaddrinfo os host (int_decimal port) w = (Some as, w1)" "\<exists>a \<in> set as. accepts os a"
    using assms unfolding granting_def by (metis prod.collapse)
  have "0 \<le> fst (tcp_connect_loop os as w1)"
    using assms g(2) by (intro tcp_connect_loop_succeeds) (simp_all add: granting_def)
  with g(1) show ?thesis
    by (intro that [of "fst (tcp_connect_loop os as w1)" "snd (tcp_connect_loop os as w1)"]) (simp_all add: tcp_connect_def)
qed

text \<open>The first socket of an empty table.\<close>

lemma add_first_socket:
  assumes "granting os host service" and "io_inv io" and "io_socket_count io = 0" and "0 \<le> fd"
  obtains io' w' where "io_add_socket os io fd rx tx u w = Some (0, io', w')" and "io_inv io'" and "io_socket_count io' = 1"
    and "so_fd (io_sockets io' ! 0) = fd" and "so_rx_ring (io_sockets io' ! 0) = rx" and "so_tx_ring (io_sockets io' ! 0) = tx"
proof -
  have g: "fst (os_fcntl_getfl os fd v) \<noteq> -1" "fst (os_fcntl_setfl os fd fl v) \<noteq> -1"
      "fst (os_kevent_change os kq c v) \<noteq> -1" for v fl kq c
    using assms(1) by (simp_all add: granting_def)
  let ?s = "\<lparr>so_fd = fd, so_rx_ring = rx, so_tx_ring = tx, so_user_data = u,
      so_last_nic_timestamp_ns = 0, so_last_nic_timestamp_ticks = 0\<rparr>"
  let ?io = "io\<lparr>io_sockets := (io_sockets io)[0 := ?s], io_socket_count := 1\<rparr>"
  have "\<exists>w'. io_add_socket os io fd rx tx u w = Some (0, ?io, w')"
    using g assms(2-4) by (auto simp: io_add_socket_def IO_MAX_SOCKETS_def Let_def split_beta arr_set_def io_inv_def)
  moreover have "io_inv ?io" "io_sockets ?io ! 0 = ?s"
    using assms(2,3) by (simp_all add: io_inv_def)
  ultimately show ?thesis using that by auto
qed

subsection \<open>The request\<close>

lemma key_generated:
  assumes "granting os host service"
  obtains key w' where "generate_websocket_key os k w = Some (key, w')"
proof -
  let ?u = "os_urandom os 16 w"
  let ?bs = "case fst ?u of Some bs \<Rightarrow> bs | None \<Rightarrow> fst (rand_bytes os 16 (snd ?u))"
  have "length ?bs = 16"
    using assms by (auto simp: granting_def urandom_law_def rand_bytes_length split: option.split)
  then have "\<not> 32 < length (fst (evp_encode os ?bs)) + length (snd (evp_encode os ?bs))"
    using assms by (simp add: granting_def not_less)
  then have "generate_websocket_key os k w \<noteq> None"
    by (cases "fst ?u") (simp_all add: generate_websocket_key_def Let_def split_beta)
  with that show ?thesis by auto
qed

lemma handshake_text_length: "length (handshake_text path host key) \<le> 511" "handshake_text path host key \<noteq> []"
  by (simp_all add: handshake_text_def upgrade_request_def WS_HTTP_UPGRADE_HEADER_SIZE_def bytes_of_def)

text \<open>With a key, room in the transmit ring and a plain socket, the request follows the queued bytes.\<close>

lemma request_sent:
  assumes "generate_websocket_key os (ws_sec_websocket_key ws) w = Some (key, w1)" and "writev_law os fd"
    and "plain_socket ws fd" and "length (rb_list (ws_tx_ring ws)) + 511 \<le> rb_capacity (ws_tx_ring ws)"
  obtains iov n v tx w' where "send_handshake os ws w = Some (0, ws\<lparr>ws_sec_websocket_key := key, ws_tx_ring := tx\<rparr>, w')"
    and "os_writev os fd iov v = (n, w')"
    and "concat iov = rb_list (ws_tx_ring ws) @ handshake_text (ws_path ws) (ws_host ws) key"
    and "rb_inv tx" and "rb_list tx = drop (nat n) (concat iov)"
proof -
  let ?h = "handshake_text (ws_path ws) (ws_host ws) key"
  have t: "rb_inv (ws_tx_ring ws)" using assms(3) by (simp add: plain_socket_def)
  have "length (rb_list (ws_tx_ring ws)) + length (?h @ []) \<le> rb_capacity (ws_tx_ring ws)"
    using handshake_text_length(1) [of "ws_path ws" "ws_host ws" key] assms(4) by simp
  then obtain rb1 rb2 where wr: "ringbuffer_write (ws_tx_ring ws) (Some ?h) = Some (length ?h, rb1)" "rb_inv rb1"
      "rb_list rb1 = rb_list (ws_tx_ring ws) @ ?h"
    by (rule write_frame_fits [OF t])
  let ?ws = "ws\<lparr>ws_sec_websocket_key := key, ws_tx_ring := rb1\<rparr>"
  have "plain_socket ?ws fd" "rb_list (ws_tx_ring ?ws) \<noteq> []"
    using assms(3) wr handshake_text_length(2) by (simp_all add: plain_socket_def)
  then obtain iov n tx w' where tr: "concat iov = rb_list (ws_tx_ring ?ws)" "os_writev os fd iov w1 = (n, w')"
      "ws_transmit os ?ws w1 = Some (?ws\<lparr>ws_tx_ring := tx\<rparr>, w')" "rb_inv tx" "rb_list tx = drop (nat n) (rb_list (ws_tx_ring ?ws))"
    using assms(2) plain_transmit [of ?ws fd os w1] by metis
  have "send_handshake os ws w = Some (0, ws\<lparr>ws_sec_websocket_key := key, ws_tx_ring := tx\<rparr>, w')"
    using assms(1) wr(1) tr(3) by (simp add: send_handshake_def)
  with that tr wr(3) show ?thesis by simp
qed

subsection \<open>Connecting\<close>

text \<open>From the connected socket to the request; the rings are new and the socket table is empty.\<close>

lemma register_succeeds:
  assumes "granting os host service" and "writev_law os fd" and "new_ring (ws_rx_ring ws)" and "new_ring (ws_tx_ring ws)"
    and "ws_io_ctx ws = Some io" and "io_inv io" and "io_socket_count io = 0" and "ws_fd ws = fd" and "\<not> ws_use_ssl ws"
    and "latency_inv ws" and "pool_ok ws" and "ws_on_message ws \<noteq> 0" and "messages_received (ws_metrics ws) < 2 ^ 64"
    and "0 \<le> fd"
  obtains key iov n v ws' w' io' where "connect_register os ws w = Some (0, ws', w')" and "ws_state ws' = WS_STATE_CONNECTING"
    and "plain_socket ws' fd" and "rx_ready ws'" and "rb_list (ws_rx_ring ws') = []"
    and "os_writev os fd iov v = (n, w')" and "concat iov = handshake_text (ws_path ws) (ws_host ws) key"
    and "rb_list (ws_tx_ring ws') = drop (nat n) (concat iov)" and "ws_fd ws' = fd"
    and "ws_io_ctx ws' = Some io'" and "io_socket_count io' = 1"
proof -
  note fd = assms(14)
  obtain io1 w1 where io1: "io_add_socket os io fd (Some Rx) (Some Tx) 1 w = Some (0, io1, w1)" "io_inv io1" "io_socket_count io1 = 1"
      "so_fd (io_sockets io1 ! 0) = fd" "so_rx_ring (io_sockets io1 ! 0) = Some Rx" "so_tx_ring (io_sockets io1 ! 0) = Some Tx"
    by (rule add_first_socket [OF assms(1,6,7) fd])
  note rx = new_ring_simps [OF assms(3)] and tx = new_ring_simps [OF assms(4)]
  let ?ws1 = "ws\<lparr>ws_io_ctx := Some io1, ws_socket_index := 0\<rparr>"
  obtain key w2 where "generate_websocket_key os (ws_sec_websocket_key ?ws1) w1 = Some (key, w2)"
    by (rule key_generated [OF assms(1)])
  moreover have "plain_socket ?ws1 fd" "length (rb_list (ws_tx_ring ?ws1)) + 511 \<le> rb_capacity (ws_tx_ring ?ws1)"
    using assms(9) fd io1 rx(1) tx by (simp_all add: plain_socket_def)
  ultimately obtain iov n v tx w' where h0: "send_handshake os ?ws1 w1 = Some (0, ?ws1\<lparr>ws_sec_websocket_key := key, ws_tx_ring := tx\<rparr>, w')"
      "os_writev os fd iov v = (n, w')" "concat iov = rb_list (ws_tx_ring ?ws1) @ handshake_text (ws_path ?ws1) (ws_host ?ws1) key"
      "rb_inv tx" "rb_list tx = drop (nat n) (concat iov)"
    by (rule request_sent [OF _ assms(2)])
  then have h: "send_handshake os ?ws1 w1 = Some (0, ?ws1\<lparr>ws_sec_websocket_key := key, ws_tx_ring := tx\<rparr>, w')"
      "os_writev os fd iov v = (n, w')" "concat iov = handshake_text (ws_path ws) (ws_host ws) key"
      "rb_inv tx" "rb_list tx = drop (nat n) (concat iov)"
    using tx(3) by simp_all
  let ?ws = "?ws1\<lparr>ws_sec_websocket_key := key, ws_tx_ring := tx, ws_state := WS_STATE_CONNECTING\<rparr>"
  have "connect_register os ws w = Some (0, ?ws, w')"
    using assms(5,8) io1(1) h(1) by (simp add: connect_register_def)
  moreover have "plain_socket ?ws fd"
    using assms(9) fd io1 rx(1) h(4) by (simp add: plain_socket_def)
  moreover have "websocket_get_last_nic_timestamp_ns ?ws \<noteq> None"
    using assms(9) io1(2,3) by (simp add: websocket_get_last_nic_timestamp_ns_def io_get_last_nic_timestamp_ns_def io_inv_def arr_get_def)
  then have "rx_ready ?ws"
    using assms(10-13) rx by (simp add: rx_ready_def rx_ok_def pool_ok_def latency_inv_def)
  ultimately show ?thesis
    using that [of ?ws w' iov v n key io1] h rx(3) assms(8) io1(3) by simp
qed

lemma connect_succeeds:
  assumes "granting os (u_host parts) (int_decimal (u_port parts))" and "vm_laws os" and "\<forall>fd. writev_law os fd"
    and "parse_url (Some url) 256 1024
      \<lparr>u_host = ws_host ws, u_path = ws_path ws, u_port = ws_port ws, u_use_ssl = ws_use_ssl ws\<rparr> = Some (0, parts)"
    and "\<not> u_use_ssl parts" and "ws_state ws = WS_STATE_CLOSED"
    and "latency_inv ws" and "pool_ok ws" and "ws_on_message ws \<noteq> 0" and "messages_received (ws_metrics ws) < 2 ^ 64"
  obtains fd key iov n v ws' w' io where "websocket_connect os ws (Some url) b w = Some (0, ws', w')"
    and "ws_state ws' = WS_STATE_CONNECTING" and "plain_socket ws' fd" and "rx_ready ws'" and "rb_list (ws_rx_ring ws') = []"
    and "os_writev os fd iov v = (n, w')" and "concat iov = handshake_text (u_path parts) (u_host parts) key"
    and "rb_list (ws_tx_ring ws') = drop (nat n) (concat iov)" and "ws_fd ws' = fd" and "ws_io_ctx ws' = Some io"
    and "io_socket_count io = 1"
proof -
  have m: "fst (os_malloc os k v)" for k v
    using assms(1) by (simp add: granting_def)
  obtain w1 where d: "os_malloc os (length url + 1) w = (True, w1)"
    using m by (metis (full_types) prod.collapse)
  let ?ws2 = "ws\<lparr>ws_url := Some url, ws_cert_validation_disabled := b, ws_host := u_host parts, ws_path := u_path parts,
      ws_port := u_port parts, ws_use_ssl := u_use_ssl parts\<rparr>"
  obtain rx tx w2 where r: "connect_rings os ?ws2 w1 = Some (True, ?ws2\<lparr>ws_rx_ring := rx, ws_tx_ring := tx\<rparr>, w2)" "new_ring rx" "new_ring tx"
    by (rule rings_succeed [OF assms(2,1)])
  obtain w3 where d2: "os_malloc os 1 w2 = (True, w3)"
    using m by (metis (full_types) prod.collapse)
  obtain io w4 where io: "io_init os w3 = (0, io :: ring_id IOContext, w4)" "io_inv io" "io_socket_count io = 0"
    by (rule io_init_succeeds [OF assms(1)])
  obtain fd w5 where t: "tcp_connect os (u_host parts) (u_port parts) w4 = (fd, w5)" "0 \<le> fd"
    by (rule tcp_connect_succeeds [OF assms(1)])
  let ?ws = "?ws2\<lparr>ws_rx_ring := rx, ws_tx_ring := tx, ws_io_ctx := Some io, ws_fd := fd\<rparr>"
  have "latency_inv ?ws" "pool_ok ?ws" "ws_on_message ?ws \<noteq> 0" "messages_received (ws_metrics ?ws) < 2 ^ 64"
      "new_ring (ws_rx_ring ?ws)" "new_ring (ws_tx_ring ?ws)" "ws_io_ctx ?ws = Some io" "ws_fd ?ws = fd" "\<not> ws_use_ssl ?ws"
    using assms(5,7-10) r(2,3) by (simp_all add: latency_inv_def pool_ok_def)
  then obtain key iov n v ws' w' io' where c: "connect_register os ?ws (verify_timestamp os fd w5) = Some (0, ws', w')"
      "ws_state ws' = WS_STATE_CONNECTING" "plain_socket ws' fd" "rx_ready ws'" "rb_list (ws_rx_ring ws') = []"
      "os_writev os fd iov v = (n, w')" "concat iov = handshake_text (ws_path ?ws) (ws_host ?ws) key"
      "rb_list (ws_tx_ring ws') = drop (nat n) (concat iov)" "ws_fd ws' = fd" "ws_io_ctx ws' = Some io'" "io_socket_count io' = 1"
    using register_succeeds [OF assms(1) spec [OF assms(3), of fd], of ?ws io "verify_timestamp os fd w5"] io(2,3) t(2) by metis
  have "websocket_connect os ws (Some url) b w = Some (0, ws', w')"
    using d assms(4,5) r(1) d2 io(1) t c(1) by (simp add: websocket_connect_def connect_ssl_def)
  from that [OF this c(2-6) _ c(8-11)] c(7) show ?thesis by simp
qed

text \<open>
  C5. Connecting. Take a URL for a plain connection, a system that grants memory and resolves the
  host and service of the URL to addresses one of which accepts, and a closed object with a message
  callback. Then \<open>websocket_connect\<close> returns \<open>0\<close> and leaves the object connecting, with the descriptor
  of the new socket, exactly one registered socket, an empty receive ring ready for the answer, and
  the upgrade request for the path and host of the URL, cut to its buffer, offered to the system
  call; what the kernel does not take stays queued.
\<close>

theorem websocket_connect_requests:
  assumes "granting os (u_host parts) (int_decimal (u_port parts))" and "vm_laws os" and "\<forall>fd. writev_law os fd"
    and "parse_url (Some url) 256 1024
      \<lparr>u_host = ws_host ws, u_path = ws_path ws, u_port = ws_port ws, u_use_ssl = ws_use_ssl ws\<rparr> = Some (0, parts)"
    and "\<not> u_use_ssl parts" and "ws_state ws = WS_STATE_CLOSED"
    and "latency_inv ws" and "pool_ok ws" and "ws_on_message ws \<noteq> 0" and "messages_received (ws_metrics ws) < 2 ^ 64"
  shows "\<exists>key iov n v ws' w' io. websocket_connect os ws (Some url) b w = Some (0, ws', w') \<and>
    ws_state ws' = WS_STATE_CONNECTING \<and> plain_socket ws' (ws_fd ws') \<and>
    ws_io_ctx ws' = Some io \<and> io_socket_count io = 1 \<and> rx_ready ws' \<and> rb_list (ws_rx_ring ws') = [] \<and>
    os_writev os (ws_fd ws') iov v = (n, w') \<and> concat iov = handshake_text (u_path parts) (u_host parts) key \<and>
    rb_list (ws_tx_ring ws') = drop (nat n) (concat iov)"
  by (rule connect_succeeds [OF assms]) blast

text \<open>The example system, with memory.\<close>

definition demo_memory_os :: "demo_world ws_os" where
  "demo_memory_os = demo_ws_os\<lparr>vm_allocate := \<lambda>n w. (if n < 2 ^ 60 then Some (16384, replicate n 0) else None, w)\<rparr>"

lemma demo_memory:
  "granting demo_memory_os host service" "vm_laws demo_memory_os" "\<forall>fd. writev_law demo_memory_os fd"
  "callbacks_use_interface demo_memory_os"
proof -
  show "granting demo_memory_os host service"
    by (simp add: granting_def accepts_def urandom_law_def demo_memory_os_def demo_ws_os_simps demo_change_def RINGBUFFER_SIZE_def RINGBUFFER_ALIGNMENT_def
        del: replicate.simps split: kchange.split)
  show "vm_laws demo_memory_os"
    by (auto simp: vm_laws_def demo_memory_os_def demo_ws_os_simps split: if_splits)
  show "\<forall>fd. writev_law demo_memory_os fd"
    using demo_writev by (simp add: writev_law_def demo_memory_os_def)
  show "callbacks_use_interface demo_memory_os"
    by (simp add: callbacks_use_interface_def demo_memory_os_def demo_ws_os_simps demo_note_def r_into_rtranclp call_other)
qed

definition demo_url :: "byte list" where
  "demo_url = bytes_of ''ws://h/ws''"

lemma demo_url_parts:
  "parse_url (Some demo_url) 256 1024 out = Some (0, \<lparr>u_host = bytes_of ''h'', u_path = bytes_of ''/ws'', u_port = 80, u_use_ssl = False\<rparr>)"
  by (simp add: demo_url_def bytes_of_def parse_url_def url_host_end_def strchr_def parse_host_port_def parse_path_def
      default_port_def upt_rec Let_def)

text \<open>A new object with a message callback.\<close>

abbreviation demo_new :: WebSocket where
  "demo_new \<equiv> websocket_set_on_message 1 0 (fresh_websocket (Some (replicate 1000 0)))"

lemma demo_new_ok:
  "ws_state demo_new = WS_STATE_CLOSED" "latency_inv demo_new" "pool_ok demo_new" "ws_on_message demo_new \<noteq> 0"
  "messages_received (ws_metrics demo_new) < 2 ^ 64"
  by (simp_all add: websocket_set_on_message_def fresh_websocket_def latency_inv_def pool_ok_def zero_metrics_def)

theorem websocket_connect_requests_witness:
  "\<exists>key iov n v ws' w'. websocket_connect demo_memory_os demo_new (Some demo_url) False (demo_start [] []) = Some (0, ws', w') \<and>
     ws_state ws' = WS_STATE_CONNECTING \<and> os_writev demo_memory_os (ws_fd ws') iov v = (n, w') \<and>
     concat iov = handshake_text (bytes_of ''/ws'') (bytes_of ''h'') key"
  using websocket_connect_requests [OF demo_memory(1,2,3) demo_url_parts _ demo_new_ok, of False "demo_start [] []"]
  by simp blast

subsection \<open>A connecting object is reachable\<close>

lemma demo_connecting:
  obtains ws w where "reachable demo_memory_os (ws, w)" and "ws_state ws = WS_STATE_CONNECTING"
proof -
  have "reachable demo_memory_os (fresh_websocket (Some (replicate 1000 0)), demo_start [] [])"
    by (rule created [where w = "demo_start [] []"]) (simp add: websocket_create_def demo_memory_os_def demo_ws_os_simps)
  then have new: "reachable demo_memory_os (demo_new, demo_start [] [])"
    by (rule stepped) (rule api_call, rule call_set_on_message)
  have "\<not> u_use_ssl \<lparr>u_host = bytes_of ''h'', u_path = bytes_of ''/ws'', u_port = 80, u_use_ssl = False\<rparr>" by simp
  then obtain ws w where "websocket_connect demo_memory_os demo_new (Some demo_url) False (demo_start [] []) = Some (0, ws, w)"
      "ws_state ws = WS_STATE_CONNECTING"
    by (rule connect_succeeds [OF demo_memory(1,2,3) demo_url_parts _ demo_new_ok, where b = False and w = "demo_start [] []"])
  with new that show ?thesis
    using stepped api_connect demo_new_ok(1) by meson
qed

theorem reachable_inv_witness:
  "\<exists>ws w. reachable demo_memory_os (ws, w) \<and> ws_state ws = WS_STATE_CONNECTING \<and>
     rb_inv (ws_rx_ring ws) \<and> rb_inv (ws_tx_ring ws) \<and> ws_io_ctx ws \<noteq> None"
proof -
  obtain ws w where r: "reachable demo_memory_os (ws, w)" "ws_state ws = WS_STATE_CONNECTING"
    by (rule demo_connecting)
  with reachable_inv [OF demo_memory(4,2) r(1)] show ?thesis by blast
qed

subsection \<open>The opening key\<close>

text \<open>
  C33. The request carries no key. \<open>EVP_EncodeFinal\<close> gives 24 characters and a newline for sixteen
  random bytes, 25 bytes, and \<open>generate_websocket_key\<close> stores only what is shorter. So an object
  whose key is empty, as it is created, offers its plain socket a request with an empty key; one
  that is not cut has the header \<open>Sec-WebSocket-Key\<close> without a value.
\<close>

theorem request_without_key:
  assumes "urandom_law os" and "evp_law os" and "writev_law os fd" and "plain_socket ws fd"
    and "ws_sec_websocket_key ws = []" and "length (rb_list (ws_tx_ring ws)) + 511 \<le> rb_capacity (ws_tx_ring ws)"
  shows "\<exists>iov n v ws' w'. send_handshake os ws w = Some (0, ws', w') \<and> ws_sec_websocket_key ws' = [] \<and>
    os_writev os fd iov v = (n, w') \<and>
    concat iov = rb_list (ws_tx_ring ws) @ handshake_text (ws_path ws) (ws_host ws) [] \<and>
    (length (ws_path ws) + length (ws_host ws) + 114 < 512 \<longrightarrow>
      (\<exists>before after. concat iov = before @ crlf @ bytes_of ''Sec-WebSocket-Key: '' @ crlf @ after))"
proof -
  obtain w1 where "generate_websocket_key os (ws_sec_websocket_key ws) w = Some ([], w1)"
    using key_not_stored [OF assms(1,2), of "[]" w] assms(5) by metis
  then obtain iov n v tx w' where s: "send_handshake os ws w = Some (0, ws\<lparr>ws_sec_websocket_key := [], ws_tx_ring := tx\<rparr>, w')"
      "os_writev os fd iov v = (n, w')" "concat iov = rb_list (ws_tx_ring ws) @ handshake_text (ws_path ws) (ws_host ws) []"
    by (rule request_sent [OF _ assms(3,4,6)])
  have "\<exists>before after. concat iov = before @ crlf @ bytes_of ''Sec-WebSocket-Key: '' @ crlf @ after"
    if "length (ws_path ws) + length (ws_host ws) + 114 < 512"
  proof -
    from that have "handshake_text (ws_path ws) (ws_host ws) [] = upgrade_request (ws_path ws) (ws_host ws) []"
      by (simp add: handshake_request_truncated)
    then show ?thesis
      unfolding s(3) upgrade_request_def append_Nil by (metis append.assoc)
  qed
  with s show ?thesis
    by (intro exI [of _ iov] exI [of _ n] exI [of _ v]) auto
qed

text \<open>The object of the examples with room for a request.\<close>

definition wide_ws :: WebSocket where
  "wide_ws = (demo_ws [])\<lparr>ws_tx_ring := \<lparr>rb_buf = 128, rb_mem = replicate 1024 0, rb_size = 1024, rb_read_ptr = 0,
     rb_write_ptr = 0, rb_locked = False\<rparr>, ws_host := bytes_of ''h'', ws_path := bytes_of ''/ws''\<rparr>"

lemma wide_ws_simps:
  "plain_socket wide_ws 5" "rb_list (ws_tx_ring wide_ws) = []" "rb_capacity (ws_tx_ring wide_ws) = 1023"
  "ws_sec_websocket_key wide_ws = []" "ws_host wide_ws = bytes_of ''h''" "ws_path wide_ws = bytes_of ''/ws''"
  using demo_plain [of "[]"]
  by (simp_all add: wide_ws_def plain_socket_def rb_inv_def rb_list_def ring_list_def rb_capacity_def demo_ws_simps
      del: replicate.simps)

theorem request_without_key_witness:
  "\<exists>iov n v ws' w' before after. send_handshake demo_memory_os wide_ws (demo_start [] []) = Some (0, ws', w') \<and>
     os_writev demo_memory_os 5 iov v = (n, w') \<and>
     concat iov = before @ crlf @ bytes_of ''Sec-WebSocket-Key: '' @ crlf @ after"
proof -
  have "urandom_law demo_memory_os" "evp_law demo_memory_os"
    by (simp_all add: urandom_law_def evp_law_def demo_memory_os_def demo_ws_os_simps)
  moreover have "writev_law demo_memory_os 5"
    using demo_memory(3) by blast
  moreover have "length (ws_path wide_ws) + length (ws_host wide_ws) + 114 < 512"
    by (simp add: wide_ws_simps bytes_of_def)
  ultimately show ?thesis
    using request_without_key [of demo_memory_os 5 wide_ws "demo_start [] []"]
    by (simp add: wide_ws_simps) blast
qed

end
