(* ===== verification/Os_Macos.thy ===== *)
theory Os_Macos
  imports Ws_Client
begin

text \<open>
  The helpers of \<^verbatim>\<open>src/src/os_macos.h\<close> for applications, over a system record with the calls that an
  application makes besides the library. The helper \<open>cpu_pin_e_core\<close>, which the library itself
  uses, is with the sockets.
\<close>

record 'w app_os = "'w ws_os" +
  os_sysctl_read :: "byte list \<Rightarrow> 'w \<Rightarrow> u64 option \<times> 'w"
  os_sysctl_write :: "byte list \<Rightarrow> int \<Rightarrow> 'w \<Rightarrow> int \<times> 'w"
  os_system :: "byte list \<Rightarrow> 'w \<Rightarrow> int \<times> 'w"
  os_clear_cache :: "addr \<Rightarrow> addr \<Rightarrow> 'w \<Rightarrow> 'w"
  os_signal :: "int \<Rightarrow> 'w \<Rightarrow> 'w"
  os_running :: "'w \<Rightarrow> bool \<times> 'w"
  os_set_running :: "bool \<Rightarrow> 'w \<Rightarrow> 'w"
  os_stdout :: "byte list \<Rightarrow> 'w \<Rightarrow> 'w"
  os_stderr :: "byte list \<Rightarrow> 'w \<Rightarrow> 'w"

subsection \<open>Time\<close>

definition arm_cycle_count :: "('w, 'z) app_os_scheme \<Rightarrow> 'w \<Rightarrow> u64 \<times> 'w" where
  "arm_cycle_count os w = os_absolute_time os w"

definition arm_get_cpu_frequency :: "('w, 'z) app_os_scheme \<Rightarrow> 'w \<Rightarrow> u64 \<times> 'w" where
  "arm_get_cpu_frequency os w =
     (case os_sysctl_read os (bytes_of ''hw.cpufrequency'') w of
        (None, w1) \<Rightarrow> (4000000000, w1)
      | (Some freq, w1) \<Rightarrow> (freq, w1))"

definition arm_cycles_to_ns :: "('w, 'z) app_os_scheme \<Rightarrow> u64 \<Rightarrow> fp" where
  "arm_cycles_to_ns os cycles =
     fp_div (fp_mul (fp_of_nat cycles) (fp_of_nat (fst (os_timebase os)))) (fp_of_nat (snd (os_timebase os)))"

subsection \<open>Caches, cores and system settings\<close>

definition cache_flush :: "('w, 'z) app_os_scheme \<Rightarrow> addr \<Rightarrow> size_t \<Rightarrow> 'w \<Rightarrow> 'w" where
  "cache_flush os a len w = os_clear_cache os a (a + of_nat len) w"

definition cpu_pin_p_core :: "('w, 'z) app_os_scheme \<Rightarrow> 'w \<Rightarrow> int \<times> 'w" where
  "cpu_pin_p_core os w =
     (let (ok, w1) = os_thread_affinity os 1 w
      in if \<not> ok then (-1, w1) else (0, os_set_qos_class os w1))"

definition sysctl_tune_network :: "('w, 'z) app_os_scheme \<Rightarrow> 'w \<Rightarrow> int \<times> 'w" where
  "sysctl_tune_network os w =
     (let (r, w1) = os_sysctl_write os (bytes_of ''net.inet.tcp.recvspace'') (8 * 1024 * 1024) w in
      if r \<noteq> 0 then (-1, w1)
      else
        let (r, w2) = os_sysctl_write os (bytes_of ''net.inet.tcp.delayed_ack'') 0 w1
        in if r \<noteq> 0 then (-1, w2) else (0, w2))"

definition disable_cpu_throttling :: "('w, 'z) app_os_scheme \<Rightarrow> 'w \<Rightarrow> int \<times> 'w" where
  "disable_cpu_throttling os w = os_system os (bytes_of ''pmset -a noidle 1 2>/dev/null'') w"

subsection \<open>The conversion of ticks\<close>

text \<open>
  The conversion rounds once: as long as ticks times numerator is at most \<open>2 ^ 53\<close>, the result is
  the double nearest to the exact quotient.
\<close>

lemma arm_cycles_to_ns_rounds_once:
  assumes "0 < snd (os_timebase os)" and "snd (os_timebase os) \<le> 2 ^ 53" and "fst (os_timebase os) \<le> 2 ^ 53"
    and "cycles \<le> 2 ^ 53" and "cycles * fst (os_timebase os) \<le> 2 ^ 53"
  shows "arm_cycles_to_ns os cycles = round_double (of_nat (cycles * fst (os_timebase os)) / of_nat (snd (os_timebase os)))"
proof -
  have "round_double (of_nat (cycles * fst (os_timebase os))) = Fin (of_nat (cycles * fst (os_timebase os)))"
    using fp_of_nat_exact [OF assms(5)] by (simp add: fp_of_nat_def)
  with assms show ?thesis
    by (simp add: arm_cycles_to_ns_def fp_of_nat_exact)
qed

end
