(* ===== verification/Ticker.thy ===== *)
theory Ticker
  imports Os_Macos Json_Props
begin

text \<open>
  The example client \<^verbatim>\<open>src/examples/binance_ticker.c\<close>: its callbacks, its event loop and its main
  function. The local character arrays are uninitialised storage, \<open>stack\<close> and \<open>data_stack\<close>; the pointers of the
  two callbacks are parameters.
\<close>

subsection \<open>The message callback\<close>

text \<open>A call of the extractor with a local buffer and a local length.\<close>

definition ticker_field ::
  "byte list \<Rightarrow> size_t \<Rightarrow> string \<Rightarrow> size_t \<Rightarrow> byte list \<times> size_t \<Rightarrow> (int \<times> byte list \<times> size_t) option" where
  "ticker_field json len name sz v = do {
     (r, buf, n) \<leftarrow> neon_parse_json_market_data (Some json) len (Some (bytes_of name)) (Some (fst v)) sz (Some (snd v));
     b \<leftarrow> buf;
     k \<leftarrow> n;
     Some (r, b, k)
   }"

text \<open>The second name is tried when the first gave no value.\<close>

definition ticker_field_or ::
  "byte list \<Rightarrow> size_t \<Rightarrow> string \<Rightarrow> string \<Rightarrow> byte list \<Rightarrow> (byte list \<times> size_t) option" where
  "ticker_field_or json len name other stack = do {
     (_, b, n) \<leftarrow> ticker_field json len name 32 (stack, 0);
     if n = 0 then map_option snd (ticker_field json len other 32 (b, n)) else Some (b, n)
   }"

text \<open>The characters that \<open>printf\<close> copies for \<open>%s\<close>.\<close>

definition c_chars :: "byte list \<Rightarrow> byte list option" where
  "c_chars buf = (if 0 \<in> set buf then Some (takeWhile (\<lambda>c. c \<noteq> 0) buf) else None)"

definition ticker_values ::
  "byte list \<times> byte list \<times> byte list \<Rightarrow> byte list \<Rightarrow> byte list \<Rightarrow> size_t \<Rightarrow>
     ((byte list \<times> size_t) \<times> (byte list \<times> size_t) \<times> (byte list \<times> size_t)) option" where
  "ticker_values stack data_stack data len = do {
     let (symbol_stack, price_stack, volume_stack) = stack;
     (r, data_field, data_field_len) \<leftarrow> ticker_field data len ''data'' 4096 (data_stack, 0);
     if r = 0 \<and> 0 < data_field_len then do {
       (_, symbol) \<leftarrow> ticker_field data_field data_field_len ''s'' 32 (symbol_stack, 0);
       (_, price) \<leftarrow> ticker_field data_field data_field_len ''p'' 32 (price_stack, 0);
       (_, volume) \<leftarrow> ticker_field data_field data_field_len ''q'' 32 (volume_stack, 0);
       Some (symbol, price, volume)
     }
     else do {
       (_, symbol) \<leftarrow> ticker_field data len ''s'' 32 (symbol_stack, 0);
       price \<leftarrow> ticker_field_or data len ''p'' ''c'' price_stack;
       volume \<leftarrow> ticker_field_or data len ''q'' ''v'' volume_stack;
       Some (symbol, price, volume)
     }
   }"

definition ticker_on_message ::
  "('w, 'z) app_os_scheme \<Rightarrow> byte list \<times> byte list \<times> byte list \<Rightarrow> byte list \<Rightarrow> byte list \<Rightarrow> size_t \<Rightarrow> 'w \<Rightarrow> 'w option" where
  "ticker_on_message os stack data_stack data len w = do {
     ((symbol_buf, symbol_len), (price_buf, price_len), (volume_buf, volume_len)) \<leftarrow> ticker_values stack data_stack data len;
     if 0 < symbol_len \<and> 0 < price_len then do {
       s \<leftarrow> c_chars symbol_buf;
       p \<leftarrow> c_chars price_buf;
       let w1 = os_stdout os (bytes_of ''['' @ s @ bytes_of ''] Price: '' @ p) w;
       w2 \<leftarrow> (if 0 < volume_len then do {
                 v \<leftarrow> c_chars volume_buf;
                 Some (os_stdout os (bytes_of '' | Volume: '' @ v) w1)
               }
               else Some w1);
       Some (os_stdout os [10] w2)
     }
     else Some w
   }"

definition ticker_on_error :: "('w, 'z) app_os_scheme \<Rightarrow> int \<Rightarrow> byte list option \<Rightarrow> 'w \<Rightarrow> 'w" where
  "ticker_on_error os error_code error_msg w =
     os_stderr os (bytes_of ''Error '' @ int_decimal error_code @ bytes_of '': '' @
       (case error_msg of None \<Rightarrow> bytes_of ''Unknown error'' | Some m \<Rightarrow> m) @ [10]) w"

definition signal_handler :: "('w, 'z) app_os_scheme \<Rightarrow> int \<Rightarrow> 'w \<Rightarrow> 'w" where
  "signal_handler os sig w = os_set_running os False w"

subsection \<open>The event loop and the main function\<close>

partial_function (option) ticker_loop ::
  "('w, 'z) app_os_scheme \<Rightarrow> WebSocket \<Rightarrow> 'w \<Rightarrow> (WebSocket \<times> 'w) option" where
  "ticker_loop os ws w =
     (let (running, w1) = os_running os w in
      if \<not> running then Some (ws, w1)
      else do {
        (events, ws1, w2) \<leftarrow> websocket_process os ws w1;
        if events < 0 then Some (ws1, os_stderr os (bytes_of ''Error processing events'' @ [10]) w2)
        else if websocket_get_state (Some ws1) = WS_STATE_CLOSED
        then Some (ws1, os_stderr os (bytes_of ''Connection closed'' @ [10]) w2)
        else ticker_loop os ws1 (os_usleep os 100 w2)
      })"

definition ticker_url :: "byte list \<Rightarrow> byte list" where
  "ticker_url symbol =
     take 255 (bytes_of ''wss://stream.binance.com:443/stream?streams='' @ symbol @ bytes_of ''@trade&timeUnit=MICROSECOND'')"

definition ticker_main ::
  "('w, 'z) app_os_scheme \<Rightarrow> addr \<Rightarrow> addr \<Rightarrow> byte list list \<Rightarrow> 'w \<Rightarrow> (int \<times> 'w) option" where
  "ticker_main os on_message on_error argv w =
     (let symbol = (if 1 < length argv then argv ! 1 else bytes_of ''btcusdt'');
          w1 = os_stdout os (bytes_of ''Binance Trade Stream Example'' @ [10]) w;
          w2 = os_stdout os (bytes_of ''============================'' @ [10, 10]) w1;
          w3 = os_stdout os (bytes_of ''Subscribing to '' @ symbol @ bytes_of '' trade stream (same endpoint as benchmark)...'' @ [10, 10]) w2;
          w4 = os_signal os 15 (os_signal os 2 w3);
          (_, w5) = sysctl_tune_network os w4
      in case websocket_create os w5 of
           (None, w6) \<Rightarrow> Some (1, os_stderr os (bytes_of ''Failed to create WebSocket'' @ [10]) w6)
         | (Some ws, w6) \<Rightarrow>
             let ws1 = websocket_set_on_error on_error 0 (websocket_set_on_message on_message 0 ws); url = ticker_url symbol in
             do {
               (r, ws2, w7) \<leftarrow> websocket_connect os ws1 (Some url) True w6;
               if r \<noteq> 0 then
                 map_option (Pair 1)
                   (websocket_destroy os ws2 (os_stderr os (bytes_of ''Failed to connect to '' @ url @ [10]) w7))
               else do {
                 let w8 = os_stdout os (bytes_of ''Connected! Receiving ticker updates...'' @ [10]) w7;
                 let w9 = os_stdout os (bytes_of ''Press Ctrl+C to stop'' @ [10, 10]) w8;
                 (ws3, w10) \<leftarrow> ticker_loop os ws2 w9;
                 (_, ws4, w11) \<leftarrow> websocket_close os ws3 (os_stdout os ([10] @ bytes_of ''Disconnecting...'' @ [10]) w10);
                 map_option (Pair 0) (websocket_destroy os ws4 w11)
               }
             })"

subsection \<open>The messages of the subscribed stream\<close>

text \<open>A message in the format that the source documents for the endpoint the example subscribes to.\<close>

definition stream_message :: "byte list \<Rightarrow> byte list \<Rightarrow> byte list" where
  "stream_message stream rest =
     bytes_of ''{\"stream\":\"'' @ stream @ bytes_of ''\",\"data\":{\"e\":\"trade\",'' @ rest"

lemma stream_message_parts:
  "stream_message x rest = [123, 34, 115, 116, 114, 101, 97, 109, 34, 58, 34] @ x @
     [34, 44] @ [34, 100, 97, 116, 97, 34, 58] @ [123, 34, 101, 34, 58, 34, 116, 114, 97, 100, 101, 34] @ 44 # rest"
  by (simp add: stream_message_def bytes_of_def)

lemma data_pattern: "search_pattern (bytes_of ''data'') = [34, 100, 97, 116, 97, 34, 58]"
  by (simp add: search_pattern_def bytes_of_def)

text \<open>The value of the key is cut at the first comma, inside the object.\<close>

definition cut_object :: "byte list" where
  "cut_object = [123, 34, 101, 34, 58, 34, 116, 114, 97, 100, 101, 34]"

lemma stream_message_split:
  obtains pre where "length pre = length x + 13"
    and "stream_message x rest = pre @ search_pattern (bytes_of ''data'') @ cut_object @ 44 # rest"
  by (rule that [of "[123, 34, 115, 116, 114, 101, 97, 109, 34, 58, 34] @ x @ [34, 44]"])
    (simp_all add: stream_message_parts data_pattern cut_object_def)

text \<open>The characters up to the key.\<close>

lemma stream_nth:
  "i < 11 \<Longrightarrow> stream_message x rest ! i = [123, 34, 115, 116, 114, 101, 97, 109, 34, 58, 34] ! i"
  "i < length x \<Longrightarrow> stream_message x rest ! (11 + i) = x ! i"
  "stream_message x rest ! (11 + length x) = 34" "stream_message x rest ! (12 + length x) = 44"
proof -
  define a z :: "byte list" where "a = [123, 34, 115, 116, 114, 101, 97, 109, 34, 58, 34]"
    and "z = [34, 44] @ search_pattern (bytes_of ''data'') @ cut_object @ 44 # rest"
  have d: "stream_message x rest = a @ x @ z" "length a = 11"
    by (simp_all add: stream_message_parts data_pattern cut_object_def a_def z_def)
  then have head: "stream_message x rest ! i = a ! i" if "i < 11" for i
    using that by (simp add: nth_append)
  show "i < 11 \<Longrightarrow> stream_message x rest ! i = [123, 34, 115, 116, 114, 101, 97, 109, 34, 58, 34] ! i"
    by (simp only: head a_def)
  show "i < length x \<Longrightarrow> stream_message x rest ! (11 + i) = x ! i"
    "stream_message x rest ! (11 + length x) = 34" "stream_message x rest ! (12 + length x) = 44"
    using d by (simp_all add: nth_append z_def)
qed

text \<open>The name of the stream with its quotes is not the key, even when it reads the same.\<close>

lemma name_is_not_key:
  assumes "34 \<notin> set x" and l: "\<And>i. i < 6 \<Longrightarrow> stream_message x rest ! (11 + i) = [100, 97, 116, 97, 34, 58] ! i"
  shows False
proof -
  consider "length x < 4" | "length x = 4" | "4 < length x" by linarith
  then show False
  proof cases
    case 1
    then have "length x \<in> {0, 1, 2, 3}"
      by (simp only: insert_iff empty_iff simp_thms) presburger
    with l [of "length x"] stream_nth(3) [of x rest] show False by auto
  next
    case 2
    with l [of 5] stream_nth(4) [of x rest] show False by simp
  next
    case 3
    with l [of 4] stream_nth(2) [of 4 x rest] assms(1) nth_mem [of 4 x] show False by simp
  qed
qed

text \<open>The first occurrence of the quoted name is the key.\<close>

lemma data_key:
  assumes "34 \<notin> set x"
  shows "occ (search_pattern (bytes_of ''data'')) (stream_message x rest) (length x + 13)"
    and "q < length x + 13 \<Longrightarrow> \<not> occ (search_pattern (bytes_of ''data'')) (stream_message x rest) q"
proof -
  let ?d = "stream_message x rest" and ?n = "length x"
  show "occ (search_pattern (bytes_of ''data'')) ?d (?n + 13)"
    by (rule stream_message_split [of x rest]) (simp add: occ_def)
  assume q: "q < ?n + 13"
  show "\<not> occ (search_pattern (bytes_of ''data'')) ?d q"
  proof
    assume "occ (search_pattern (bytes_of ''data'')) ?d q"
    then have eq: "take 7 (drop q ?d) = [34, 100, 97, 116, 97, 34, 58]" and le: "q + 7 \<le> length ?d"
      by (simp_all add: occ_def data_pattern numeral_eq_Suc)
    have at: "?d ! (q + i) = [34, 100, 97, 116, 97, 34, 58] ! i" if "i < 7" for i
      using arg_cong [OF eq, of "\<lambda>l. l ! i"] that le by simp
    consider "q < 11" | "11 \<le> q" "q < 11 + ?n" | "q = 11 + ?n" | "q = 12 + ?n"
      using q by linarith
    then show False
    proof cases
      case 1
      then have "q \<in> {0, 1, 2, 3, 4, 5, 6, 7, 8, 9, 10}"
        by (simp only: insert_iff empty_iff simp_thms) presburger
      with at [of 0] at [of 1] stream_nth(1) [of q x rest] stream_nth(1) [of "q + 1" x rest] have "q = 10" by auto
      then have "?d ! (11 + i) = [100, 97, 116, 97, 34, 58] ! i" if "i < 6" for i
        using at [of "Suc i"] that by (simp add: add.commute)
      with assms show False by (rule name_is_not_key)
    next
      case 2
      then have "q - 11 < ?n" "11 + (q - 11) = q" by linarith+
      with at [of 0] stream_nth(2) [of "q - 11" x rest] assms nth_mem [of "q - 11" x] show False by simp
    next
      case 3
      with at [of 1] stream_nth(4) [of x rest] show False by simp
    next
      case 4
      with at [of 0] stream_nth(4) [of x rest] show False by simp
    qed
  qed
qed

lemma data_value:
  "json_value (drop (length x + 13 + length (search_pattern (bytes_of ''data''))) (stream_message x rest)) = cut_object"
  by (rule stream_message_split [of x rest]) (simp add: json_value_def cut_object_def blank_def bare_def)

lemma ticker_data_field:
  assumes "34 \<notin> set x" and "length (stream_message x rest) < 2 ^ 64" and "length data_stack = 4096"
  shows "ticker_field (stream_message x rest) (length (stream_message x rest)) ''data'' 4096 (data_stack, 0) =
    Some (0, stored data_stack 4096 cut_object, 12)"
proof -
  let ?d = "stream_message x rest" and ?pat = "search_pattern (bytes_of ''data'')"
  have "length x + 13 < length ?d - 7"
    by (simp add: stream_message_parts)
  then have f: "find (occ ?pat ?d) [0..<max (16 * (length ?d div 16)) (length ?d - length ?pat)] = Some (length x + 13)"
    using data_key [OF assms(1)] unfolding find_upt_Some by (auto simp: data_pattern less_max_iff_disj)
  have "7 \<le> length ?d" by (simp add: stream_message_parts)
  then show ?thesis
    using neon_extract_at [of "length ?d" ?d "bytes_of ''data''" 4096 data_stack 0] assms(2,3) f data_value [of x rest]
    by (simp add: ticker_field_def Let_def data_pattern) (simp add: cut_object_def)
qed

lemma occ_subset: "occ p xs i \<Longrightarrow> set p \<subseteq> set xs"
  by (metis occ_def set_drop_subset set_take_subset subset_trans)

lemma cut_object_names:
  assumes "name \<in> {''s'', ''p'', ''q''}"
  shows "\<not> occ (search_pattern (bytes_of name)) cut_object i"
proof -
  have "\<not> set (search_pattern (bytes_of name)) \<subseteq> set cut_object"
    using assms by (auto simp: search_pattern_def bytes_of_def cut_object_def)
  with occ_subset show ?thesis by blast
qed

lemma cut_object_field:
  assumes "name \<in> {''s'', ''p'', ''q''}" and "length data_stack = 4096" and "length stack = 32"
  shows "ticker_field (stored data_stack 4096 cut_object) 12 name 32 (stack, 0) = Some (-1, stack, 0)"
proof -
  have t: "take 12 (stored data_stack 4096 cut_object) = cut_object" "length (stored data_stack 4096 cut_object) = 4096"
    using assms(2) by (simp_all add: stored_def cut_object_def)
  have p: "search_pattern (bytes_of name) = 34 # bytes_of name @ [34, 58]" "length (bytes_of name) = 1"
    using assms(1) by (auto simp: search_pattern_def bytes_of_def)
  have "find (occ (search_pattern (bytes_of name)) cut_object) [0..<8] = None"
    using cut_object_names [OF assms(1)] by (simp add: find_None_iff)
  then show ?thesis
    using neon_extract_at [of 12 "stored data_stack 4096 cut_object" "bytes_of name" 32 stack 0] t p assms(3)
    by (simp add: ticker_field_def)
qed

text \<open>
  C40. The example never shows a trade of the stream it subscribes to. For every message in the
  documented format of the endpoint, whatever the stream is called and whatever follows, the
  message callback prints nothing: the extractor cuts the object behind \<open>data\<close> at its first comma,
  and the symbol and the price are searched in what is left.
\<close>

theorem ticker_drops_stream_trades:
  assumes "34 \<notin> set stream" and "length (stream_message stream rest) < 2 ^ 64"
    and "length s1 = 32" and "length s2 = 32" and "length s3 = 32" and "length data_stack = 4096"
  shows "ticker_on_message os (s1, s2, s3) data_stack (stream_message stream rest) (length (stream_message stream rest)) w = Some w"
  using ticker_data_field [OF assms(1,2,6)] cut_object_field [OF _ assms(6)] assms(3-5)
  by (simp add: ticker_on_message_def ticker_values_def)

theorem ticker_drops_stream_trades_witness:
  "\<forall>os w. ticker_on_message os (replicate 32 0, replicate 32 1, replicate 32 2) (replicate 4096 0)
     (stream_message (bytes_of ''btcusdt@trade'') (bytes_of ''\"s\":\"BTCUSDT\",\"p\":\"100.5\"}}''))
     (length (stream_message (bytes_of ''btcusdt@trade'') (bytes_of ''\"s\":\"BTCUSDT\",\"p\":\"100.5\"}}''))) w = Some w"
  by (intro allI ticker_drops_stream_trades length_replicate) (simp_all add: stream_message_def bytes_of_def)

end
