(* ===== verification/Spec2Isabelle.thy ===== *)
theory Spec2Isabelle
  imports Ring_Props Ring_SPSC Frame_Props Json_Props Io_Props Tls_Props Ws_Url Handshake_Props
    Observe_Props Receive_Props Connect_Props Ticker
begin

text \<open>
  This development verifies the WebSocket client library under \<^verbatim>\<open>src/src\<close> and its example client
  under \<^verbatim>\<open>src/examples\<close>.

  \<^bold>\<open>The program.\<close> A \<open>WebSocket\<close> object (\<^verbatim>\<open>websocket.c\<close>) owns two byte rings (\<^verbatim>\<open>ringbuffer.c\<close>), a table
  of sockets registered with a kernel queue (\<^verbatim>\<open>io_kqueue.c\<close>), and a TLS context when the URL asks
  for one (\<^verbatim>\<open>ssl.c\<close>). \<open>websocket_connect\<close> opens the socket and queues the HTTP upgrade request. Each
  call of \<open>websocket_process\<close> polls the kernel queue, reads from the socket or the TLS library into
  the receive ring, answers the opening handshake or parses frames (\<^verbatim>\<open>parser_neon.c\<close>) and runs the
  application's callbacks, and finally checks health, metrics and heartbeat. \<open>websocket_send\<close>
  builds a frame in the transmit ring and hands the ring to the socket. The JSON extractors of
  \<^verbatim>\<open>parser_neon.c\<close> are for the callbacks.

  \<^bold>\<open>How the model corresponds to the code.\<close>
  \<^item> A C object in memory is the list of its bytes. Every access is checked, and an access outside
    the object is \<open>None\<close>. In every result type \<open>'a option\<close> of an operation \<open>None\<close> is undefined behaviour,
    and for the two partial functions \<open>drain_frames\<close> and \<open>ticker_loop\<close> also a run that never ends. A
    theorem that states \<open>Some\<close> therefore states memory safety and termination.
  \<^item> \<open>size_t\<close> and \<open>uint64_t\<close> are naturals with the wrap-around written out (\<open>add64\<close>, \<open>sub64\<close>, \<open>mul64\<close>);
    bytes are \<open>8 word\<close>; \<open>int\<close> is an integer; \<open>double\<close> is IEEE binary64 over the rationals.
    The release build has \<^verbatim>\<open>-ffast-math\<close>; the theorems about floating point describe the strict
    arithmetic of the language, and the one about the backoff stays below infinity.
  \<^item> The casts of lengths to \<open>int\<close> in the OpenSSL calls are left out, since a ring has 8 MB.
  \<^item> The operating system, the two TLS libraries, the allocator and the callbacks are fields of a
    system record, an argument of every operation, which takes and returns a world. What a
    theorem needs of them is a named hypothesis: \<open>kqueue_laws\<close>, \<open>vm_laws\<close>, \<open>writev_law\<close>,
    \<open>descriptor_laws\<close>, \<open>close_log\<close>, \<open>tls_leaves_descriptor\<close>, \<open>observes\<close>, \<open>kernel_quiet\<close>,
    \<open>malloc_succeeds\<close>, \<open>granting\<close>, \<open>urandom_law\<close>, \<open>evp_law\<close>, \<open>callbacks_use_interface\<close>. Each is
    shown to hold of a concrete system in the witnesses.
  \<^item> Callbacks are called with the object and return it, so that a callback may call the interface:
    send, close, read and reset the metrics and change the settings. The theorems about reachable
    states leave out callbacks that process events, connect or destroy the object, and connecting
    an object that is not closed.
  \<^item> A check of the receiver for NULL is left out where the object is an argument of the model, and
    freeing memory is not an effect of its own.

  \<^bold>\<open>The theories.\<close>
  \<^item> \<open>WS_Prelude\<close>: machine types, memory primitives, and the postcondition calculus \<open>post\<close> with its
    rules \<open>post_rules\<close>. \<open>C_Strings\<close>: the string functions of the C library that the code uses.
    \<open>Double\<close>: floating point.
  \<^item> \<open>Byte_Fifo\<close> is the contract of a bounded queue of bytes, a locale. \<open>Ring_Buffer\<close> models every
    operation of the ring and interprets the contract. \<open>Ring_Batch\<close> and \<open>Ring_Props\<close> relate the batch
    and inline entry points to the plain ones. \<open>Ring_SPSC\<close> interleaves one producer and one
    consumer at the level of single byte copies and pointer updates.
  \<^item> \<open>Ws_Frame\<close> models both frame parsers and the frame headers, with RFC 6455 frames as the
    specification; the locale \<open>frame_parser\<close> is the contract of a parser, interpreted for both.
    \<open>Frame_Props\<close> has the round trips. \<open>Json_Extract\<close> and \<open>Json_Props\<close>: the JSON extractors.
  \<^item> \<open>Nic_Clock\<close>, \<open>Io_Kqueue\<close>, \<open>Io_Props\<close>: clocks, packet timestamps, the socket table and the
    transfers between sockets and rings. \<open>Tls\<close>, \<open>Tls_Props\<close>: the TLS layer with both backends.
  \<^item> \<open>Ws_Url\<close>, \<open>Ws_Handshake\<close>, \<open>Handshake_Props\<close>: URL parsing and the opening handshake.
  \<^item> \<open>Ws_State\<close> (the object and its types), \<open>Ws_Observe\<close> (metrics, latency, health, reconnection,
    heartbeat), \<open>Ws_Core\<close> (sending and frame processing) and \<open>Ws_Client\<close> (life cycle and
    \<open>websocket_process\<close>) model \<^verbatim>\<open>websocket.c\<close>. \<open>Ws_Demo\<close> is the concrete system of the witnesses.
  \<^item> \<open>Os_Macos\<close> models the inline helpers of \<^verbatim>\<open>os_macos.h\<close>, and \<open>Ticker\<close> the example client.

  \<^bold>\<open>What is shown.\<close>
  \<^item> The ring never leaves its memory and is first-in first-out, for sequential runs and for every
    interleaving of a producer and a consumer, whose accesses never overlap.
  \<^item> The parsers read no byte beyond the valid ones, agree with each other, and decode exactly the
    RFC 6455 frames; what the library sends parses back.
  \<^item> \<open>Receive_Props\<close>: a pass over the receive ring delivers the payload of every message frame once,
    unmasked and in order, and the drain loop ends.
  \<^item> \<open>Observe_Props\<close>: the latency window, the percentiles, the health verdict, which floating point
    does not change, the backoff, and the heartbeat.
  \<^item> \<open>Ws_Session\<close>, \<open>Session_Props\<close>: the locale \<open>object_predicate\<close> is the contract of a predicate on the
    object that the elementary updates keep; inside it every function of the interface is shown
    to keep the predicate, callbacks that call the interface included. It is interpreted for the
    invariant of the object, for the equipment of an open connection and for its phase, which
    gives the invariant of all reachable states, and that a turn of the event loop never takes a
    connection back to an earlier phase.
  \<^item> \<open>Turn_Props\<close>: whole paths through the components on a plain socket. A message goes from
    \<open>websocket_send\<close> to the system call as one frame; a read event takes bytes from the socket to
    the message callback; a complete response opens the connection; a ping is answered; closing
    closes the descriptor exactly once, for encrypted connections as well.
  \<^item> \<open>Connect_Props\<close>: \<open>websocket_connect\<close> leaves a connecting object that satisfies what the theorems about
    the event loop ask for, with the upgrade request in the hands of the kernel.
  \<^item> Some theorems state behaviour that the code should not have: a failed send leaves a fragment
    queued, a connection closed by the peer keeps its descriptor, destroying an open encrypted
    connection closes its descriptor twice, the upgrade request carries no key, the heartbeat
    does not time out when the ping interval is not longer than the timeout, wrapped contents are
    read past their end by the TLS write, and the example client shows no trade.

  \<^bold>\<open>Bounds.\<close> Loops with a bound in the code have it as an argument: 1000 frames in a pass, twenty rounds
  of the TLS handshake, the drain limits of \<open>websocket_process\<close>. No other fuel is used. The theorems
  about whole frames take contents that do not wrap around the end of the receive ring, because
  the inline accessor returns a window past the end otherwise, which is shown as well.

  \<^bold>\<open>Not modelled.\<close> The weak memory model of the processor: \<open>Ring_SPSC\<close> interleaves sequentially
  consistent steps, which the acquire and release accesses of the source are there to provide.
  Preemption inside a callback or by a signal, except for the flag of the example client. The
  inside of the kernel, of SecureTransport, OpenSSL and the allocator, which are parameters. The
  programs under \<^verbatim>\<open>src/tests\<close> and the build description, which are not part of the library.
\<close>

end
